(* ===== verification/Go_Prelude.thy ===== *)
theory Go_Prelude
  imports Main "HOL-Library.Word"
begin

text \<open>
  Shared vocabulary of the development.  A Go \<^verbatim>\<open>string\<close> and a Go \<^verbatim>\<open>[]byte\<close> are both byte
  sequences, and \<^typ>\<open>char\<close> is HOL's eight-bit byte, so both are \<^typ>\<open>string\<close> here.  A nil
  slice and an empty slice are the same list.  A fallible Go function returns
  \<open>'e + 'a\<close>: \<open>Inl\<close> is a non-nil \<^verbatim>\<open>error\<close>, \<open>Inr\<close> the result.  The theory also models the
  functions of Go's \<^verbatim>\<open>strings\<close> package the program calls and collects the generic lemmas on
  lists, separators and results the components share.
\<close>

type_synonym bytes = string
type_synonym DID = string

named_theorems err_defs \<open>definitions whose unfolding exposes every error branch\<close>
named_theorems size_simps \<open>lengths of fixed-width encodings\<close>

lemmas res_splits = sum.splits option.splits if_splits prod.splits

abbreviation ord :: "char \<Rightarrow> nat" where
  "ord c \<equiv> of_char c"

definition NUL :: char where
  "NUL = CHR 0x00"

section \<open>Results\<close>

definition is_ok :: "'e + 'a \<Rightarrow> bool" where
  "is_ok r = (case r of Inl _ \<Rightarrow> False | Inr _ \<Rightarrow> True)"

lemma is_ok_simps [simp]: "is_ok (Inr x)" "\<not> is_ok (Inl e)"
  by (simp_all add: is_ok_def)

lemma is_ok_iff: "is_ok r \<longleftrightarrow> (\<exists>x. r = Inr x)"
  by (cases r) auto

lemma is_okE [elim]: "is_ok r \<Longrightarrow> (\<And>x. r = Inr x \<Longrightarrow> P) \<Longrightarrow> P"
  by (auto simp: is_ok_iff)

lemma Inr_unit_iff: "(r = Inr ()) = is_ok r"
  by (cases r) auto

text \<open>A check followed by the rest: the shape of every early return.\<close>

lemma is_ok_seq [simp]:
  "is_ok (case r of Inl e \<Rightarrow> Inl (g e) | Inr _ \<Rightarrow> k) \<longleftrightarrow> is_ok r \<and> is_ok k"
  by (cases r) auto

lemma seq_Inr_iff [simp]:
  "(case r of Inl e \<Rightarrow> Inl (g e) | Inr _ \<Rightarrow> k) = Inr x \<longleftrightarrow> is_ok r \<and> k = Inr x"
  by (cases r) auto

lemma bind_Inr_iff:
  "(case r of Inl e \<Rightarrow> Inl (g e) | Inr y \<Rightarrow> h y) = Inr x \<longleftrightarrow> (\<exists>y. r = Inr y \<and> h y = Inr x)"
  by (cases r) auto

lemma guard_ok_iff [simp]:
  "is_ok (if b then Inl e else k) \<longleftrightarrow> \<not> b \<and> is_ok k"
  "(if b then Inl e else k) = Inr x \<longleftrightarrow> \<not> b \<and> k = Inr x"
  by auto

definition map_err :: "('e \<Rightarrow> 'f) \<Rightarrow> 'e + 'a \<Rightarrow> 'f + 'a" where
  "map_err f r = (case r of Inl e \<Rightarrow> Inl (f e) | Inr x \<Rightarrow> Inr x)"

lemma map_err_simps [simp]: "map_err f (Inl e) = Inl (f e)" "map_err f (Inr x) = Inr x"
  by (simp_all add: map_err_def)

lemma map_err_Inr_iff [simp]: "map_err f r = Inr x \<longleftrightarrow> r = Inr x"
  by (cases r) auto

lemma is_ok_map_err [simp]: "is_ok (map_err f r) = is_ok r"
  by (cases r) auto

section \<open>Go's strings package\<close>

text \<open>
  \<^verbatim>\<open>strings.TrimSpace\<close> removes leading and trailing Unicode white space.  \<open>space_len\<close> is the
  byte length of the white-space rune a string starts with (0 if it starts with none),
  \<open>rspace_len\<close> the same for a reversed string and its last rune.
\<close>

definition ascii_space :: "char \<Rightarrow> bool" where
  "ascii_space c \<longleftrightarrow> ord c \<in> {9, 10, 11, 12, 13, 32}"

definition wide_space :: "nat \<Rightarrow> nat \<Rightarrow> nat \<Rightarrow> bool" where
  "wide_space a b c \<longleftrightarrow>
     a = 0xE1 \<and> b = 0x9A \<and> c = 0x80 \<or>
     a = 0xE2 \<and> b = 0x80 \<and> (0x80 \<le> c \<and> c \<le> 0x8A \<or> c \<in> {0xA8, 0xA9, 0xAF}) \<or>
     a = 0xE2 \<and> b = 0x81 \<and> c = 0x9F \<or>
     a = 0xE3 \<and> b = 0x80 \<and> c = 0x80"

definition nb_space :: "nat \<Rightarrow> nat \<Rightarrow> bool" where
  "nb_space a b \<longleftrightarrow> a = 0xC2 \<and> b \<in> {0x85, 0xA0}"

fun space_len :: "string \<Rightarrow> nat" where
  "space_len [] = 0"
| "space_len (a # s) =
     (if ascii_space a then 1
      else case s of
        [] \<Rightarrow> 0
      | b # t \<Rightarrow>
          if nb_space (ord a) (ord b) then 2
          else case t of [] \<Rightarrow> 0
               | c # _ \<Rightarrow> if wide_space (ord a) (ord b) (ord c) then 3 else 0)"

fun rspace_len :: "string \<Rightarrow> nat" where
  "rspace_len [] = 0"
| "rspace_len (c # s) =
     (if ascii_space c then 1
      else case s of
        [] \<Rightarrow> 0
      | b # t \<Rightarrow>
          if nb_space (ord b) (ord c) then 2
          else case t of [] \<Rightarrow> 0
               | a # _ \<Rightarrow> if wide_space (ord a) (ord b) (ord c) then 3 else 0)"

lemma space_len_Nil_pos: "space_len s > 0 \<Longrightarrow> s \<noteq> []"
  by (cases s) auto

lemma rspace_len_Nil_pos: "rspace_len s > 0 \<Longrightarrow> s \<noteq> []"
  by (cases s) auto

function drop_spaces :: "(string \<Rightarrow> nat) \<Rightarrow> string \<Rightarrow> string" where
  "drop_spaces f s =
     (if s = [] \<or> f s = 0 then s else drop_spaces f (drop (f s) s))"
  by pat_completeness auto
termination
  by (relation "measure (\<lambda>(f, s). length s)") auto

declare drop_spaces.simps [simp del]

definition TrimSpace :: "string \<Rightarrow> string" where
  "TrimSpace s = rev (drop_spaces rspace_len (rev (drop_spaces space_len s)))"

text \<open>\<^verbatim>\<open>strings.Split(s, sep)\<close> for a one-byte separator; \<^verbatim>\<open>strings.Join\<close>.\<close>

fun Split :: "char \<Rightarrow> string \<Rightarrow> string list" where
  "Split c [] = [[]]"
| "Split c (x # xs) =
     (if x = c then [] # Split c xs
      else case Split c xs of [] \<Rightarrow> [[x]] | w # ws \<Rightarrow> (x # w) # ws)"

fun Join :: "string \<Rightarrow> string list \<Rightarrow> string" where
  "Join sep [] = []"
| "Join sep [w] = w"
| "Join sep (w # v # ws) = w @ sep @ Join sep (v # ws)"

definition HasPrefix :: "string \<Rightarrow> string \<Rightarrow> bool" where
  "HasPrefix s p \<longleftrightarrow> take (length p) s = p"

definition HasSuffix :: "string \<Rightarrow> string \<Rightarrow> bool" where
  "HasSuffix s p \<longleftrightarrow> HasPrefix (rev s) (rev p)"

definition lower :: "char \<Rightarrow> char" where
  "lower c = (if 65 \<le> ord c \<and> ord c \<le> 90 then char_of (ord c + 32) else c)"

lemma Split_nonempty [simp]: "Split c s \<noteq> []"
  by (induction s) (auto split: list.splits)

lemma Join_Split: "Join [c] (Split c s) = s"
proof (induction s)
  case (Cons x xs)
  then obtain w ws where "Split c xs = w # ws" by (cases "Split c xs") auto
  with Cons show ?case by (cases ws) auto
qed simp

lemma Join_Cons: "Join sep (w # ws) = w @ (if ws = [] then [] else sep @ Join sep ws)"
  by (cases ws) auto

lemma Split_no_sep: "w \<in> set (Split c s) \<Longrightarrow> c \<notin> set w"
  by (induction s arbitrary: w) (auto split: if_splits list.splits)

lemma HasPrefix_append [simp]: "HasPrefix (p @ s) p"
  by (simp add: HasPrefix_def)

lemma HasPrefixE: "HasPrefix s p \<Longrightarrow> (\<And>t. s = p @ t \<Longrightarrow> P) \<Longrightarrow> P"
  by (metis HasPrefix_def append_take_drop_id)

lemma TrimSpace_blank: "TrimSpace s \<noteq> [] \<Longrightarrow> s \<noteq> []"
  by (auto simp: TrimSpace_def drop_spaces.simps)

lemma TrimSpace_id: "space_len s = 0 \<Longrightarrow> rspace_len (rev s) = 0 \<Longrightarrow> TrimSpace s = s"
  by (simp add: TrimSpace_def drop_spaces.simps [of space_len s] drop_spaces.simps [of rspace_len "rev s"])

text \<open>A visible ASCII first byte survives trimming.\<close>

lemma rspace_len_visible:
  "ord c < 0x80 \<Longrightarrow> \<not> ascii_space c \<Longrightarrow> rspace_len (s @ [c]) \<le> length s"
proof (cases s)
  case (Cons a t)
  assume c: "ord c < 0x80" "\<not> ascii_space c"
  then have n: "\<not> nb_space (ord c) (ord x)" "\<not> wide_space (ord c) (ord y) (ord x)"
    "\<not> nb_space x' (ord c)" for x y :: char and x' :: nat
    by (auto simp: nb_space_def wide_space_def)
  show ?thesis
    using c n Cons by (cases t; cases "tl t") (auto simp: nb_space_def wide_space_def)
qed simp

lemma drop_rspaces_visible:
  "ord c < 0x80 \<Longrightarrow> \<not> ascii_space c \<Longrightarrow> drop_spaces rspace_len (s @ [c]) \<noteq> []"
proof (induction s rule: length_induct)
  case (1 s)
  let ?k = "rspace_len (s @ [c])"
  show ?case
  proof (cases "?k = 0")
    case True
    then show ?thesis by (simp add: drop_spaces.simps [of rspace_len "s @ [c]"])
  next
    case False
    have k: "?k \<le> length s" using rspace_len_visible 1(2,3) .
    with False have "length (drop ?k s) < length s" by simp
    with 1 have "drop_spaces rspace_len (drop ?k s @ [c]) \<noteq> []" by blast
    with False k show ?thesis by (subst drop_spaces.simps) simp
  qed
qed

lemma TrimSpace_visible:
  assumes "ord c < 0x80" and "\<not> ascii_space c"
  shows "TrimSpace (c # s) \<noteq> []"
proof -
  have "space_len (c # s) = 0"
    using assms by (auto simp: nb_space_def wide_space_def split: list.split)
  then show ?thesis
    using drop_rspaces_visible [OF assms, of "rev s"]
    by (simp add: TrimSpace_def drop_spaces.simps [of space_len "c # s"])
qed

lemmas trim_eval = TrimSpace_id ascii_space_def nb_space_def wide_space_def

section \<open>Separated and fixed-width concatenations\<close>

text \<open>
  Signing inputs are concatenations of fields with a zero byte between them.  The two facts
  that make them parse from one end: a separator that does not occur in a field ends it, and
  a field of known width ends where it must.
\<close>

lemma sep_inject:
  "a @ c # x = b @ c # y \<Longrightarrow> c \<notin> set a \<Longrightarrow> c \<notin> set b \<Longrightarrow> a = b \<and> x = y"
proof (induction a arbitrary: b)
  case Nil
  then show ?case by (cases b) auto
next
  case (Cons u a)
  then show ?case by (cases b) auto
qed

lemma sep_inject_right:
  assumes "x @ c # a = y @ c # b" and "c \<notin> set a" and "c \<notin> set b"
  shows "x = y \<and> a = b"
proof -
  from assms(1) have "rev a @ c # rev x = rev b @ c # rev y"
    by (metis append.assoc append_Cons append_Nil rev.simps(2) rev_append)
  from sep_inject [OF this] assms(2,3) show ?thesis by simp
qed

lemma width_inject_right: "x @ a = y @ b \<Longrightarrow> length a = length b \<Longrightarrow> x = y \<and> a = b"
  by auto

section \<open>Lists and folds\<close>

lemma list_all_take: "list_all P xs \<Longrightarrow> list_all P (take n xs)"
  by (metis append_take_drop_id list_all_append)

lemma nth_append_last [simp]: "(xs @ [x]) ! length xs = x"
  by simp

lemma prefix_nthI:
  "length p \<le> length m \<Longrightarrow> (\<And>i. i < length p \<Longrightarrow> m ! i = p ! i) \<Longrightarrow> take (length p) m = p"
  by (rule nth_equalityI) auto

end
