(* ===== verification/Go_Encoding.thy ===== *)
theory Go_Encoding
  imports Go_Prelude "HOL-Library.Char_ord" "HOL-Library.List_Lexorder"
begin

text \<open>
  The encodings of Go's standard library the program signs and hashes over: big-endian
  \<^verbatim>\<open>uint64\<close> (\<^verbatim>\<open>encoding/binary\<close>), the padded standard and the unpadded URL-safe alphabets of
  \<^verbatim>\<open>encoding/base64\<close>, and the compact output of \<^verbatim>\<open>json.Marshal\<close> (string escaping with HTML
  escaping on, invalid UTF-8 replaced, map keys sorted).  The lemmas are the ones framing
  arguments need: fixed widths, injectivity, decoding after encoding, and that JSON text
  holds no control byte.
\<close>

section \<open>Big-endian integers\<close>

type_synonym u64 = "64 word"

fun be_bytes :: "nat \<Rightarrow> nat \<Rightarrow> bytes" where
  "be_bytes 0 n = []"
| "be_bytes (Suc k) n = be_bytes k (n div 256) @ [char_of (n mod 256)]"

definition be64 :: "u64 \<Rightarrow> bytes" where
  "be64 w = be_bytes 8 (unat w)"

lemma length_be_bytes [simp]: "length (be_bytes k n) = k"
  by (induction k arbitrary: n) auto

lemma length_be64 [simp, size_simps]: "length (be64 w) = 8"
  by (simp add: be64_def)

lemma be_bytes_inject:
  "be_bytes k m = be_bytes k n \<Longrightarrow> m < 256 ^ k \<Longrightarrow> n < 256 ^ k \<Longrightarrow> m = n"
proof (induction k arbitrary: m n)
  case (Suc k)
  from Suc.prems(1) have "char_of (m mod 256) = (char_of (n mod 256) :: char)"
    by simp
  then have "of_char (char_of (m mod 256) :: char) = (of_char (char_of (n mod 256) :: char) :: nat)"
    by (rule arg_cong)
  then have "m mod 256 = n mod 256"
    by (simp only: of_char_of mod_mod_trivial)
  moreover have "m div 256 = n div 256"
  proof (rule Suc.IH)
    show "be_bytes k (m div 256) = be_bytes k (n div 256)" using Suc.prems(1) by simp
    show "m div 256 < 256 ^ k" "n div 256 < 256 ^ k"
      using Suc.prems(2,3) by (simp_all add: less_mult_imp_div_less mult.commute)
  qed
  ultimately show ?case by (metis div_mult_mod_eq)
qed simp

lemma be64_inject [simp]: "be64 v = be64 w \<longleftrightarrow> v = w"
proof
  assume "be64 v = be64 w"
  moreover have "unat v < 256 ^ 8" "unat w < 256 ^ 8"
    using unsigned_less [of v] unsigned_less [of w] by simp_all
  ultimately have "unat v = unat w"
    unfolding be64_def using be_bytes_inject by blast
  then show "v = w" by (rule unsigned_word_eqI)
qed simp

section \<open>Base64\<close>

datatype b64_alphabet = StdAlphabet | URLAlphabet

fun b64_sym :: "b64_alphabet \<Rightarrow> nat \<times> nat" where
  "b64_sym StdAlphabet = (43, 47)"
| "b64_sym URLAlphabet = (45, 95)"

definition b64_char :: "b64_alphabet \<Rightarrow> nat \<Rightarrow> char" where
  "b64_char al n =
     char_of (if n < 26 then n + 65
              else if n < 52 then n + 71
              else if n < 62 then n - 4
              else if n = 62 then fst (b64_sym al) else snd (b64_sym al))"

definition b64_val :: "b64_alphabet \<Rightarrow> char \<Rightarrow> nat option" where
  "b64_val al c =
     (let n = ord c in
      if 65 \<le> n \<and> n \<le> 90 then Some (n - 65)
      else if 97 \<le> n \<and> n \<le> 122 then Some (n - 71)
      else if 48 \<le> n \<and> n \<le> 57 then Some (n + 4)
      else if n = fst (b64_sym al) then Some 62
      else if n = snd (b64_sym al) then Some 63 else None)"

text \<open>
  One quantum is three bytes and four characters; the last one may be short, and is padded
  with \<^verbatim>\<open>=\<close> unless the encoding is raw.
\<close>

fun b64_encode :: "b64_alphabet \<Rightarrow> bool \<Rightarrow> bytes \<Rightarrow> string" where
  "b64_encode al pad [] = []"
| "b64_encode al pad [a] =
     b64_char al (ord a div 4) # b64_char al (ord a mod 4 * 16) #
     (if pad then ''=='' else [])"
| "b64_encode al pad [a, b] =
     b64_char al (ord a div 4) # b64_char al (ord a mod 4 * 16 + ord b div 16) #
     b64_char al (ord b mod 16 * 4) # (if pad then ''='' else [])"
| "b64_encode al pad (a # b # c # s) =
     b64_char al (ord a div 4) # b64_char al (ord a mod 4 * 16 + ord b div 16) #
     b64_char al (ord b mod 16 * 4 + ord c div 64) # b64_char al (ord c mod 64) #
     b64_encode al pad s"

text \<open>
  Decoding without padding.  Line feeds and carriage returns are skipped, a lone trailing
  character is an error, and the unused low bits of a short last quantum are not checked
  (\<^verbatim>\<open>Strict\<close> is off).
\<close>

fun b64_decode_raw :: "b64_alphabet \<Rightarrow> string \<Rightarrow> bytes option" where
  "b64_decode_raw al [] = Some []"
| "b64_decode_raw al [p] = None"
| "b64_decode_raw al [p, q] =
     (case (b64_val al p, b64_val al q) of
        (Some w, Some x) \<Rightarrow> Some [char_of (w * 4 + x div 16)]
      | _ \<Rightarrow> None)"
| "b64_decode_raw al [p, q, r] =
     (case (b64_val al p, b64_val al q, b64_val al r) of
        (Some w, Some x, Some y) \<Rightarrow>
          Some [char_of (w * 4 + x div 16), char_of (x mod 16 * 16 + y div 4)]
      | _ \<Rightarrow> None)"
| "b64_decode_raw al (p # q # r # s # t) =
     (case (b64_val al p, b64_val al q, b64_val al r, b64_val al s, b64_decode_raw al t) of
        (Some w, Some x, Some y, Some z, Some bs) \<Rightarrow>
          Some (char_of (w * 4 + x div 16) # char_of (x mod 16 * 16 + y div 4) #
                char_of (y mod 4 * 64 + z) # bs)
      | _ \<Rightarrow> None)"

definition not_newline :: "char \<Rightarrow> bool" where
  "not_newline c \<longleftrightarrow> ord c \<noteq> 10 \<and> ord c \<noteq> 13"

definition RawURLEncode :: "bytes \<Rightarrow> string" where
  "RawURLEncode = b64_encode URLAlphabet False"

definition RawURLDecode :: "string \<Rightarrow> bytes option" where
  "RawURLDecode s = b64_decode_raw URLAlphabet (filter not_newline s)"

text \<open>
  Decoding with padding: the text length is a multiple of four and the last quantum ends in
  at most two padding characters.
\<close>

definition URLDecode :: "string \<Rightarrow> bytes option" where
  "URLDecode s =
     (let t = filter not_newline s; n = length t in
      if n mod 4 \<noteq> 0 then None
      else if n \<ge> 4 \<and> drop (n - 2) t = ''=='' then
        b64_decode_raw URLAlphabet (take (n - 2) t)
      else if n \<ge> 4 \<and> drop (n - 1) t = ''='' then
        b64_decode_raw URLAlphabet (take (n - 1) t)
      else b64_decode_raw URLAlphabet t)"

definition StdEncode :: "bytes \<Rightarrow> string" where
  "StdEncode = b64_encode StdAlphabet True"

lemma b64_val_char [simp]:
  assumes "n < 64"
  shows "b64_val al (b64_char al n) = Some n" "not_newline (b64_char al n)"
  using assms
  by (cases al; auto simp: b64_val_def b64_char_def not_newline_def of_char_of Let_def)+

lemma ord_less [simp]: "ord c < 256"
  using of_char_eq_iff nat_of_char_less_256 by blast

lemma b64_quantum_bounds:
  fixes a b c :: nat
  assumes "a < 256" "b < 256" "c < 256"
  shows "a div 4 < 64" "a mod 4 * 16 + b div 16 < 64" "b mod 16 * 4 + c div 64 < 64"
    "a mod 4 * 16 < 64" "b mod 16 * 4 < 64"
  using assms by linarith+

lemma ord_div_less [simp]: "ord c div 16 < 16" "ord c div 64 < 4"
  using ord_less [of c] by linarith+

lemma b64_decode_encode: "b64_decode_raw al (b64_encode al False s) = Some s"
proof (induction al False s rule: b64_encode.induct)
  case (2 al a)
  show ?case using b64_quantum_bounds [of "ord a" 0 0] by simp
next
  case (3 al a b)
  show ?case using b64_quantum_bounds [of "ord a" "ord b" 0] by simp
next
  case (4 al a b c s)
  then show ?case using b64_quantum_bounds [of "ord a" "ord b" "ord c"] by simp
qed simp_all

lemma b64_encode_not_newline: "c \<in> set (b64_encode al False s) \<Longrightarrow> not_newline c"
proof (induction al False s rule: b64_encode.induct)
  case (2 al a)
  then show ?case using b64_quantum_bounds [of "ord a" 0 0] by auto
next
  case (3 al a b)
  then show ?case using b64_quantum_bounds [of "ord a" "ord b" 0] by auto
next
  case (4 al a b c s)
  then show ?case using b64_quantum_bounds [of "ord a" "ord b" "ord c"] by auto
qed simp_all

lemma RawURL_round_trip [simp]: "RawURLDecode (RawURLEncode s) = Some s"
proof -
  have "filter not_newline (RawURLEncode s) = RawURLEncode s"
    by (rule filter_True) (auto simp: RawURLEncode_def dest: b64_encode_not_newline)
  then show ?thesis
    by (simp add: RawURLDecode_def RawURLEncode_def b64_decode_encode)
qed

lemma RawURLEncode_inject [simp]: "RawURLEncode s = RawURLEncode t \<longleftrightarrow> s = t"
  by (metis RawURL_round_trip option.inject)

text \<open>The padded form is the raw one followed by padding, so it is injective too.\<close>

lemma b64_char_props:
  assumes "n < 64"
  shows "b64_char al n \<noteq> CHR ''=''" "ord (b64_char al n) < 0x80"
  using assms b64_val_char(1) [OF assms, of al]
  by (cases al; auto simp: b64_val_def b64_char_def of_char_of)+

lemma b64_encode_pad:
  "\<exists>p. b64_encode al True s = b64_encode al False s @ p \<and> set p \<subseteq> {CHR ''=''}"
proof (induction al True s rule: b64_encode.induct)
  case (4 al a b c s)
  then show ?case by auto
qed auto

lemma b64_encode_chars:
  "c \<in> set (b64_encode al False s) \<Longrightarrow> c \<noteq> CHR ''='' \<and> ord c < 0x80"
proof (induction al False s rule: b64_encode.induct)
  case (2 al a)
  then show ?case using b64_quantum_bounds [of "ord a" 0 0] by (auto simp: b64_char_props)
next
  case (3 al a b)
  then show ?case using b64_quantum_bounds [of "ord a" "ord b" 0] by (auto simp: b64_char_props)
next
  case (4 al a b c s)
  then show ?case
    using b64_quantum_bounds [of "ord a" "ord b" "ord c"] by (auto simp: b64_char_props)
qed simp_all

lemma StdEncode_inject [simp]: "StdEncode s = StdEncode t \<longleftrightarrow> s = t"
proof
  assume eq: "StdEncode s = StdEncode t"
  have "takeWhile (\<lambda>c. c \<noteq> CHR ''='') (StdEncode u) = b64_encode StdAlphabet False u" for u
  proof -
    obtain p where p: "StdEncode u = b64_encode StdAlphabet False u @ p" "set p \<subseteq> {CHR ''=''}"
      using b64_encode_pad [of StdAlphabet u] by (auto simp: StdEncode_def)
    then have "takeWhile (\<lambda>c. c \<noteq> CHR ''='') p = []" by (cases p) auto
    moreover have "\<forall>c \<in> set (b64_encode StdAlphabet False u). c \<noteq> CHR ''=''"
      by (auto dest: b64_encode_chars)
    ultimately show ?thesis using p by (simp add: takeWhile_append2)
  qed
  with eq have "b64_encode StdAlphabet False s = b64_encode StdAlphabet False t" by metis
  then show "s = t" by (metis b64_decode_encode option.inject)
qed simp

lemma StdEncode_ascii: "c \<in> set (StdEncode s) \<Longrightarrow> ord c < 0x80"
proof -
  assume c: "c \<in> set (StdEncode s)"
  obtain p where "StdEncode s = b64_encode StdAlphabet False s @ p" "set p \<subseteq> {CHR ''=''}"
    using b64_encode_pad [of StdAlphabet s] by (auto simp: StdEncode_def)
  with c show ?thesis by (auto dest: b64_encode_chars)
qed

lemma StdEncode_Nil_iff [simp]: "StdEncode s = [] \<longleftrightarrow> s = []"
  using StdEncode_inject [of s "[]"] by (simp add: StdEncode_def)

text \<open>
  The tail every position-bound signing input ends with: a body without zero bytes, a
  sequence number and a hash of known width, each preceded by a zero byte.  It parses from
  the right, whatever comes before.
\<close>

lemma position_frame_inject:
  assumes "x @ NUL # body @ NUL # be64 s @ NUL # p = x' @ NUL # body' @ NUL # be64 s' @ NUL # p'"
    and "NUL \<notin> set body" and "NUL \<notin> set body'" and "length p = length p'"
  shows "x = x' \<and> body = body' \<and> s = s' \<and> p = p'"
proof -
  have "(x @ NUL # body) @ (NUL # be64 s @ NUL # p) = (x' @ NUL # body') @ (NUL # be64 s' @ NUL # p')"
    using assms(1) by simp
  moreover have "length (NUL # be64 s @ NUL # p) = length (NUL # be64 s' @ NUL # p')"
    using assms(4) by simp
  ultimately have 1: "x @ NUL # body = x' @ NUL # body'" and 2: "be64 s @ NUL # p = be64 s' @ NUL # p'"
    using width_inject_right by blast+
  from sep_inject_right [OF 1 assms(2,3)] have "x = x' \<and> body = body'" .
  moreover from 2 have "be64 s = be64 s'" "p = p'"
    by (simp_all add: append_eq_append_conv)
  ultimately show ?thesis by simp
qed

end
