(* ===== verification/Go_JSON.thy ===== *)
theory Go_JSON
  imports Go_Encoding
begin

text \<open>
  The output of Go's \<^verbatim>\<open>json.Marshal\<close>, which the program signs, hashes and compares.  A value
  is first a \<open>json\<close> tree; \<open>json_enc\<close> writes it compactly.  Strings are written with HTML
  escaping on, an invalid UTF-8 byte becomes \<^verbatim>\<open>\ufffd\<close>, and the two JavaScript line separators
  are escaped; a map is an object with its keys in byte order.  The lemmas show that the
  text holds no control byte and that, on valid UTF-8, it determines the value.
\<close>

section \<open>Decimal integers\<close>

definition digit :: "nat \<Rightarrow> char" where
  "digit n = char_of (48 + n)"

definition is_digit :: "char \<Rightarrow> bool" where
  "is_digit c \<longleftrightarrow> 48 \<le> ord c \<and> ord c \<le> 57"

fun show_nat :: "nat \<Rightarrow> string" where
  "show_nat n = (if n < 10 then [digit n] else show_nat (n div 10) @ [digit (n mod 10)])"

declare show_nat.simps [simp del]

definition show_int :: "int \<Rightarrow> string" where
  "show_int i = (if i < 0 then CHR ''-'' # show_nat (nat (- i)) else show_nat (nat i))"

definition read_nat :: "string \<Rightarrow> nat" where
  "read_nat s = foldl (\<lambda>n c. n * 10 + (ord c - 48)) 0 s"

lemma ord_digit [simp]: "n < 10 \<Longrightarrow> ord (digit n) = 48 + n"
  by (simp add: digit_def of_char_of)

lemma is_digit_digit [simp]: "n < 10 \<Longrightarrow> is_digit (digit n)"
  by (simp add: is_digit_def)

lemma read_show_nat: "read_nat (show_nat n) = n"
proof (induction n rule: show_nat.induct)
  case (1 n)
  then show ?case
    by (cases "n < 10") (simp_all add: show_nat.simps [of n] read_nat_def)
qed

lemma show_nat_inject [simp]: "show_nat m = show_nat n \<longleftrightarrow> m = n"
  by (metis read_show_nat)

lemma show_nat_digits: "list_all is_digit (show_nat n)"
proof (induction n rule: show_nat.induct)
  case (1 n)
  then show ?case
    by (cases "n < 10") (simp_all add: show_nat.simps [of n])
qed

lemma show_nat_nonempty [simp]: "show_nat n \<noteq> []"
  by (simp add: show_nat.simps [of n])

definition num_char :: "char \<Rightarrow> bool" where
  "num_char c \<longleftrightarrow> is_digit c \<or> c = CHR ''-''"

lemma show_int_chars: "list_all num_char (show_int i)"
  using show_nat_digits
  by (auto simp: show_int_def num_char_def list_all_iff)

lemma show_int_nonempty [simp]: "show_int i \<noteq> []"
  by (simp add: show_int_def)

lemma show_int_inject [simp]: "show_int i = show_int j \<longleftrightarrow> i = j"
proof
  assume eq: "show_int i = show_int j"
  have hd: "hd (show_nat n) \<noteq> CHR ''-''" for n
    using show_nat_digits [of n] by (cases "show_nat n") (auto simp: is_digit_def)
  have "CHR ''-'' # s \<noteq> show_nat n" "show_nat n \<noteq> CHR ''-'' # s" for n s
    using hd [of n] by (metis list.sel(1))+
  with eq show "i = j"
    by (auto simp: show_int_def split: if_splits)
qed simp

section \<open>UTF-8\<close>

text \<open>
  \<open>utf8_len s\<close> is the length of the well-formed rune \<open>s\<close> starts with, 0 if it starts with
  none: the acceptance tables of \<^verbatim>\<open>unicode/utf8\<close>.
\<close>

definition cont :: "nat \<Rightarrow> nat \<Rightarrow> string \<Rightarrow> nat \<Rightarrow> bool" where
  "cont lo hi s i \<longleftrightarrow> i < length s \<and> lo \<le> ord (s ! i) \<and> ord (s ! i) \<le> hi"

definition utf8_len :: "string \<Rightarrow> nat" where
  "utf8_len s =
     (case s of
        [] \<Rightarrow> 0
      | c # _ \<Rightarrow>
         let a = ord c in
         if a < 0x80 then 1
         else if a < 0xC2 then 0
         else if a \<le> 0xDF then (if cont 0x80 0xBF s 1 then 2 else 0)
         else if a \<le> 0xEF then
           (if cont (if a = 0xE0 then 0xA0 else 0x80) (if a = 0xED then 0x9F else 0xBF) s 1
               \<and> cont 0x80 0xBF s 2 then 3 else 0)
         else if a \<le> 0xF4 then
           (if cont (if a = 0xF0 then 0x90 else 0x80) (if a = 0xF4 then 0x8F else 0xBF) s 1
               \<and> cont 0x80 0xBF s 2 \<and> cont 0x80 0xBF s 3 then 4 else 0)
         else 0)"

function utf8_valid :: "string \<Rightarrow> bool" where
  "utf8_valid s =
     (if s = [] then True
      else if utf8_len s = 0 then False
      else utf8_valid (drop (utf8_len s) s))"
  by pat_completeness auto
termination
  by (relation "measure length") auto

declare utf8_valid.simps [simp del]

lemma utf8_len_cases:
  "utf8_len s \<in> {0, 1, 2, 3, 4}"
  by (auto simp: utf8_len_def Let_def split: list.split)

lemma cont_mono: "cont lo hi s i \<Longrightarrow> 0x80 \<le> lo \<Longrightarrow> hi \<le> 0xBF \<Longrightarrow> cont 0x80 0xBF s i"
  by (auto simp: cont_def)

lemma utf8_len_cont:
  assumes "0 < i" and "i < utf8_len s"
  shows "cont 0x80 0xBF s i"
proof -
  obtain c t where s: "s = c # t"
    using assms by (cases s) (auto simp: utf8_len_def)
  have "i = 1 \<or> i = 2 \<or> i = 3" using assms utf8_len_cases [of s] by auto
  then show ?thesis
  proof (elim disjE)
    assume i: "i = 1"
    show ?thesis
      using assms unfolding i s utf8_len_def
      by (simp add: Let_def split: if_splits) (auto elim!: cont_mono)
  next
    assume i: "i = 2"
    show ?thesis
      using assms unfolding i s utf8_len_def by (simp add: Let_def split: if_splits)
  next
    assume i: "i = 3"
    show ?thesis
      using assms unfolding i s utf8_len_def by (simp add: Let_def split: if_splits)
  qed
qed

lemma utf8_len_le: "utf8_len s \<le> length s"
proof (cases "utf8_len s \<le> 1")
  case True
  then show ?thesis by (cases s) (auto simp: utf8_len_def)
next
  case False
  then have "cont 0x80 0xBF s (utf8_len s - 1)" by (intro utf8_len_cont) auto
  then have "utf8_len s - 1 < length s" unfolding cont_def by blast
  then show ?thesis by linarith
qed

lemma utf8_len_ascii [simp]: "ord c < 0x80 \<Longrightarrow> utf8_len (c # s) = 1"
  by (simp add: utf8_len_def)

lemma utf8_len_high:
  assumes "\<not> ord c < 0x80" and "d \<in> set (take (utf8_len (c # s)) (c # s))"
  shows "0x80 \<le> ord d"
proof -
  from assms(2) obtain i where i: "i < utf8_len (c # s)" "d = (c # s) ! i"
    by (auto simp: in_set_conv_nth)
  show ?thesis
  proof (cases "i = 0")
    case True
    with i assms(1) show ?thesis by simp
  next
    case False
    with utf8_len_cont [of i "c # s"] i show ?thesis by (simp add: cont_def)
  qed
qed

section \<open>JSON strings\<close>

definition hexdigit :: "nat \<Rightarrow> char" where
  "hexdigit n = (if n < 10 then char_of (48 + n) else char_of (87 + n))"

definition json_esc :: "char \<Rightarrow> string" where
  "json_esc c =
     (let n = ord c in
      if n = 0x22 then [CHR 0x5C, CHR 0x22]
      else if n = 0x5C then [CHR 0x5C, CHR 0x5C]
      else if n = 8 then [CHR 0x5C, CHR ''b'']
      else if n = 12 then [CHR 0x5C, CHR ''f'']
      else if n = 10 then [CHR 0x5C, CHR ''n'']
      else if n = 13 then [CHR 0x5C, CHR ''r'']
      else if n = 9 then [CHR 0x5C, CHR ''t'']
      else if n < 0x20 \<or> n \<in> {0x3C, 0x3E, 0x26} then
        CHR 0x5C # ''u00'' @ [hexdigit (n div 16), hexdigit (n mod 16)]
      else [c])"

definition line_sep :: "string \<Rightarrow> bool" where
  "line_sep s \<longleftrightarrow> (\<exists>c \<in> {CHR 0xA8, CHR 0xA9}. take 3 s = [CHR 0xE2, CHR 0x80, c])"

function json_chars :: "string \<Rightarrow> string" where
  "json_chars [] = []"
| "json_chars (c # s) =
     (if ord c < 0x80 then json_esc c @ json_chars s
      else if utf8_len (c # s) = 0 then CHR 0x5C # ''ufffd'' @ json_chars s
      else if line_sep (c # s) then
        CHR 0x5C # ''u202'' @ [if s ! 1 = CHR 0xA8 then CHR ''8'' else CHR ''9''] @
        json_chars (drop 2 s)
      else take (utf8_len (c # s)) (c # s) @ json_chars (drop (utf8_len (c # s) - 1) s))"
  by pat_completeness auto
termination
  by (relation "measure length") auto

definition json_str :: "string \<Rightarrow> string" where
  "json_str s = CHR 0x22 # json_chars s @ [CHR 0x22]"

definition printable :: "string \<Rightarrow> bool" where
  "printable s = list_all (\<lambda>c. 0x20 \<le> ord c) s"

lemma printable_simps [simp]:
  "printable []" "printable (c # s) \<longleftrightarrow> 0x20 \<le> ord c \<and> printable s"
  "printable (s @ t) \<longleftrightarrow> printable s \<and> printable t"
  by (simp_all add: printable_def)

lemma printable_NUL: "printable s \<Longrightarrow> NUL \<notin> set s"
  by (auto simp: printable_def NUL_def list_all_iff)

lemma hexdigit_printable: "n < 16 \<Longrightarrow> 0x20 \<le> ord (hexdigit n)"
  by (simp add: hexdigit_def of_char_of)

lemma printable_json_esc: "printable (json_esc c)"
  by (auto simp: json_esc_def Let_def hexdigit_printable)

lemma printable_json_chars [simp]: "printable (json_chars s)"
proof (induction s rule: json_chars.induct)
  case (2 c s)
  have "printable (take (utf8_len (c # s)) (c # s))" if "\<not> ord c < 0x80"
    using utf8_len_high [OF that] unfolding printable_def list_all_iff by fastforce
  with 2 show ?case by (auto simp: printable_json_esc simp del: take_Cons')
qed simp

lemma printable_json_str [simp]: "printable (json_str s)"
  by (simp add: json_str_def)

text \<open>
  Reading a string literal back: \<open>json_unesc\<close> takes the text after the opening quote and
  returns the string and what follows the closing quote.  It inverts \<open>json_chars\<close> on valid
  UTF-8, so the literal determines the string.
\<close>

definition hexval :: "char \<Rightarrow> nat" where
  "hexval c = (if ord c < 58 then ord c - 48 else ord c - 87)"

definition rune_bytes :: "string \<Rightarrow> string" where
  "rune_bytes h =
     (if h = ''2028'' then [CHR 0xE2, CHR 0x80, CHR 0xA8]
      else if h = ''2029'' then [CHR 0xE2, CHR 0x80, CHR 0xA9]
      else [char_of (hexval (h ! 2) * 16 + hexval (h ! 3))])"

definition short_esc :: "char \<Rightarrow> char" where
  "short_esc d =
     (if d = CHR ''b'' then CHR 0x08 else if d = CHR ''f'' then CHR 0x0C
      else if d = CHR ''n'' then CHR 0x0A else if d = CHR ''r'' then CHR 0x0D
      else if d = CHR ''t'' then CHR 0x09 else d)"

function json_unesc :: "string \<Rightarrow> (string \<times> string) option" where
  "json_unesc [] = None"
| "json_unesc (c # s) =
     (if c = CHR 0x22 then Some ([], s)
      else if c \<noteq> CHR 0x5C then map_option (apfst (Cons c)) (json_unesc s)
      else case s of
          [] \<Rightarrow> None
        | d # t \<Rightarrow>
            if d = CHR ''u'' then
              map_option (apfst (\<lambda>w. rune_bytes (take 4 t) @ w)) (json_unesc (drop 4 t))
            else map_option (apfst (Cons (short_esc d))) (json_unesc t))"
  by pat_completeness auto
termination
  by (relation "measure length") auto

lemma hexval_hexdigit [simp]: "n < 16 \<Longrightarrow> hexval (hexdigit n) = n"
  by (simp add: hexval_def hexdigit_def of_char_of)

lemma ord_literal:
  "ord c = 8 \<longleftrightarrow> c = CHR 0x08" "ord c = 9 \<longleftrightarrow> c = CHR 0x09" "ord c = 10 \<longleftrightarrow> c = CHR 0x0A"
  "ord c = 12 \<longleftrightarrow> c = CHR 0x0C" "ord c = 13 \<longleftrightarrow> c = CHR 0x0D" "ord c = 34 \<longleftrightarrow> c = CHR 0x22"
  "ord c = 92 \<longleftrightarrow> c = CHR 0x5C"
  using of_char_eq_iff [of c "CHR 0x08", where 'a = nat] of_char_eq_iff [of c "CHR 0x09", where 'a = nat]
    of_char_eq_iff [of c "CHR 0x0A", where 'a = nat] of_char_eq_iff [of c "CHR 0x0C", where 'a = nat]
    of_char_eq_iff [of c "CHR 0x0D", where 'a = nat] of_char_eq_iff [of c "CHR 0x22", where 'a = nat]
    of_char_eq_iff [of c "CHR 0x5C", where 'a = nat]
  by simp_all

lemma append_single [simp]: "(@) [c] = (#) c"
  by (rule ext) simp

lemma json_unesc_esc [simp]:
  assumes "ord c < 0x80"
  shows "json_unesc (json_esc c @ s) = map_option (apfst (Cons c)) (json_unesc s)"
proof -
  have "ord c div 16 < 16" "ord c mod 16 < 16" using assms by linarith+
  then show ?thesis
    by (auto simp: json_esc_def Let_def short_esc_def rune_bytes_def ord_literal)
qed

lemma json_unesc_raw:
  "list_all (\<lambda>c. 0x80 \<le> ord c) w \<Longrightarrow>
     json_unesc (w @ s) = map_option (apfst ((@) w)) (json_unesc s)"
proof (induction w)
  case Nil
  then show ?case by (cases "json_unesc s") auto
next
  case (Cons c w)
  then have "c \<noteq> CHR 0x22" "c \<noteq> CHR 0x5C" by auto
  with Cons show ?case by (cases "json_unesc s") auto
qed

lemma line_sepD:
  assumes "line_sep (c # s)"
  obtains d where "d = CHR 0xA8 \<or> d = CHR 0xA9" and "s = CHR 0x80 # d # drop 2 s"
    and "c = CHR 0xE2"
proof -
  from assms obtain d where d: "d = CHR 0xA8 \<or> d = CHR 0xA9"
    and t: "take 3 (c # s) = [CHR 0xE2, CHR 0x80, d]"
    by (auto simp: line_sep_def)
  then have "c = CHR 0xE2" "take 2 s = [CHR 0x80, d]" by (simp_all add: numeral_3_eq_3 numeral_2_eq_2)
  with d that show thesis by (metis append_Cons append_Nil append_take_drop_id)
qed

lemma json_unesc_chars:
  "utf8_valid s \<Longrightarrow> json_unesc (json_chars s @ CHR 0x22 # t) = Some (s, t)"
proof (induction s rule: json_chars.induct)
  case (2 c s)
  let ?k = "utf8_len (c # s)"
  from 2(5) have k: "?k > 0" and v: "utf8_valid (drop (?k - 1) s)"
    by (auto simp: utf8_valid.simps [of "c # s"] drop_Cons' split: if_splits)
  consider (ascii) "ord c < 0x80" | (sep) "\<not> ord c < 0x80" "line_sep (c # s)"
    | (raw) "\<not> ord c < 0x80" "\<not> line_sep (c # s)" by blast
  then show ?case
  proof cases
    case ascii
    with 2(1) v show ?thesis by simp
  next
    case sep
    from line_sepD [OF sep(2)] obtain d where d: "d = CHR 0xA8 \<or> d = CHR 0xA9"
      and s: "s = CHR 0x80 # d # drop 2 s" and c: "c = CHR 0xE2" by blast
    have "?k = 3" by (subst s) (use d c in \<open>auto simp: utf8_len_def cont_def numeral_2_eq_2\<close>)
    with v have "utf8_valid (drop 2 s)" by simp
    with 2(3) sep k have IH: "json_unesc (json_chars (drop 2 s) @ CHR 0x22 # t) = Some (drop 2 s, t)"
      by simp
    have "s ! 1 = d" by (subst s) simp
    with IH sep k d c s show ?thesis
      by (auto simp: rune_bytes_def)
  next
    case raw
    have "list_all (\<lambda>c. 0x80 \<le> ord c) (take ?k (c # s))"
      using utf8_len_high [OF raw(1)] by (auto simp: list_all_iff)
    moreover have "take ?k (c # s) @ drop (?k - 1) s = c # s"
      using k by (simp add: take_Cons')
    ultimately show ?thesis
      using 2(4) v raw k by (simp add: json_unesc_raw)
  qed
qed simp

lemma json_str_inject:
  assumes "json_str s @ t = json_str s' @ t'" and "utf8_valid s" and "utf8_valid s'"
  shows "s = s' \<and> t = t'"
proof -
  from assms(1) have "json_chars s @ CHR 0x22 # t = json_chars s' @ CHR 0x22 # t'"
    by (simp add: json_str_def)
  then have "Some (s, t) = Some (s', t')"
    by (metis assms(2,3) json_unesc_chars)
  then show ?thesis by simp
qed

section \<open>JSON values\<close>

datatype json = JNull | JBool bool | JInt int | JStr string
  | JArr "json list" | JObj "(string \<times> json) list"

fun json_enc :: "json \<Rightarrow> string" where
  "json_enc JNull = ''null''"
| "json_enc (JBool b) = (if b then ''true'' else ''false'')"
| "json_enc (JInt i) = show_int i"
| "json_enc (JStr s) = json_str s"
| "json_enc (JArr vs) = CHR ''['' # Join '','' (map json_enc vs) @ '']''"
| "json_enc (JObj ms) =
     CHR ''{'' # Join '','' (map (\<lambda>(k, v). json_str k @ CHR '':'' # json_enc v) ms) @ ''}''"

text \<open>
  Members of a Go struct, a \<^verbatim>\<open>[]byte\<close> (base64 text, \<^verbatim>\<open>null\<close> when nil) and a
  \<^verbatim>\<open>map[string]string\<close> held as an association list.
\<close>

definition omitempty :: "string \<Rightarrow> bool \<Rightarrow> json \<Rightarrow> (string \<times> json) list" where
  "omitempty k isempty v = (if isempty then [] else [(k, v)])"

definition JBytes :: "bytes \<Rightarrow> json" where
  "JBytes b = (if b = [] then JNull else JStr (StdEncode b))"

definition JList :: "('a \<Rightarrow> json) \<Rightarrow> 'a list \<Rightarrow> json" where
  "JList f xs = (if xs = [] then JNull else JArr (map f xs))"

definition JMap :: "(string \<times> string) list \<Rightarrow> json" where
  "JMap al =
     JObj (map (\<lambda>k. (k, JStr (the (map_of al k)))) (sort (remdups (map fst al))))"

fun json_valid :: "json \<Rightarrow> bool" where
  "json_valid (JStr s) = utf8_valid s"
| "json_valid (JArr vs) = list_all json_valid vs"
| "json_valid (JObj ms) = list_all (\<lambda>(k, v). utf8_valid k \<and> json_valid v) ms"
| "json_valid _ = True"

lemma printable_Join:
  "printable sep \<Longrightarrow> list_all printable ws \<Longrightarrow> printable (Join sep ws)"
  by (induction sep ws rule: Join.induct) auto

lemma printable_num: "list_all num_char s \<Longrightarrow> printable s"
  by (auto simp: printable_def num_char_def is_digit_def list_all_iff)

lemma printable_json_enc [simp]: "printable (json_enc v)"
proof (induction v)
  case (JInt i)
  show ?case using show_int_chars by (simp add: printable_num)
next
  case (JArr vs)
  then show ?case by (auto simp: list_all_iff intro!: printable_Join)
next
  case (JObj ms)
  then show ?case by (force simp: list_all_iff intro!: printable_Join)
qed auto

lemma NUL_json_enc [simp]: "NUL \<notin> set (json_enc v)"
  by (rule printable_NUL) simp

text \<open>
  Unique readability.  A value is followed by the end of the text or by one of the
  characters \<open>delim\<close> allows; under that side condition the text of a value and what follows
  it are determined.
\<close>

definition delim :: "string \<Rightarrow> bool" where
  "delim t \<longleftrightarrow> t = [] \<or> hd t \<in> {CHR '','', CHR '']'', CHR ''}''}"

definition reads_back :: "('a \<Rightarrow> string) \<Rightarrow> 'a \<Rightarrow> 'a \<Rightarrow> bool" where
  "reads_back f x y \<longleftrightarrow>
     (\<forall>t u. delim t \<longrightarrow> delim u \<longrightarrow> f x @ t = f y @ u \<longrightarrow> x = y \<and> t = u)"

lemma delim_simps [simp]: "delim []" "delim (c # t) \<longleftrightarrow> c \<in> {CHR '','', CHR '']'', CHR ''}''}"
  by (simp_all add: delim_def)

lemma Join_reads_back:
  assumes "\<And>x y. x \<in> set xs \<Longrightarrow> y \<in> set ys \<Longrightarrow> reads_back f x y"
    and "\<And>x. f x \<noteq> [] \<and> hd (f x) \<noteq> c"
    and "c = CHR '']'' \<or> c = CHR ''}''"
    and "Join '','' (map f xs) @ c # t = Join '','' (map f ys) @ c # u"
  shows "xs = ys \<and> t = u"
  using assms(1,4)
proof (induction xs arbitrary: ys)
  case Nil
  have "c # t \<noteq> f y @ s" for y s using assms(2) [of y] by (cases "f y") auto
  with Nil show ?case by (cases ys) (simp_all add: Join_Cons)
next
  case (Cons x xs)
  have "f x @ s \<noteq> c # u" for s using assms(2) [of x] by (cases "f x") auto
  with Cons.prems(2) obtain y zs where ys: "ys = y # zs"
    by (cases ys) (simp_all add: Join_Cons)
  let ?r = "\<lambda>zs t. (if zs = [] then c # t else CHR '','' # Join '','' (map f zs) @ c # t)"
  have "f x @ ?r xs t = f y @ ?r zs u"
    using Cons.prems(2) by (simp add: ys Join_Cons split: if_splits)
  moreover have "delim (?r xs t)" "delim (?r zs u)" using assms(3) by auto
  ultimately have "x = y" and r: "?r xs t = ?r zs u"
    using Cons.prems(1) [of x y] ys unfolding reads_back_def by auto
  moreover have "xs = zs \<and> t = u"
    using r Cons.IH [of zs] Cons.prems(1) ys assms(3) by (auto split: if_splits)
  ultimately show ?case using ys by simp
qed

lemma num_reads_back:
  assumes "delim t" "delim u" "show_int i @ t = show_int j @ u"
  shows "i = j \<and> t = u"
proof -
  have "takeWhile num_char (show_int k @ s) = show_int k" if "delim s" for k s
    using show_int_chars [of k] that
    by (cases s) (auto simp: takeWhile_append list_all_iff num_char_def is_digit_def)
  with assms have "show_int i = show_int j" by metis
  with assms(3) show ?thesis by simp
qed

lemma num_head:
  "show_int i @ t \<noteq> c # s" "c # s \<noteq> show_int i @ t"
  if "\<not> num_char c"
  using show_int_chars [of i] that by (cases "show_int i"; auto)+

lemma num_char_simps:
  "\<not> num_char CHR ''n''" "\<not> num_char CHR ''t''" "\<not> num_char CHR ''f''"
  "\<not> num_char CHR 0x22" "\<not> num_char CHR ''[''" "\<not> num_char CHR ''{''"
  "\<not> num_char CHR '']''" "\<not> num_char CHR ''}''"
  by (simp_all add: num_char_def is_digit_def)

lemma json_enc_head: "json_enc v \<noteq> [] \<and> hd (json_enc v) \<notin> {CHR '']'', CHR ''}''}"
proof (cases v)
  case (JInt i)
  then show ?thesis
    using show_int_chars [of i] by (cases "show_int i") (auto simp: num_char_simps)
qed (auto simp: json_str_def)

lemma JObj_reads_back:
  assumes "\<And>k v k' v'. (k, v) \<in> set ms \<Longrightarrow> (k', v') \<in> set ns \<Longrightarrow>
      utf8_valid k \<and> utf8_valid k' \<and> reads_back json_enc v v'"
    and "json_enc (JObj ms) @ t = json_enc (JObj ns) @ u"
  shows "ms = ns \<and> t = u"
proof -
  let ?f = "\<lambda>(k, v). json_str k @ CHR '':'' # json_enc v"
  have rb: "reads_back ?f x y" if xy: "x \<in> set ms" "y \<in> set ns" for x y
  proof -
    obtain k v k' v' where kv: "x = (k, v)" "y = (k', v')" by (cases x; cases y)
    with assms(1) xy have "utf8_valid k" "utf8_valid k'" "reads_back json_enc v v'" by blast+
    with kv show ?thesis by (auto simp: reads_back_def dest!: json_str_inject)
  qed
  show ?thesis
    by (rule Join_reads_back [of ms ns ?f "CHR ''}''" t u, OF rb])
      (use assms(2) in \<open>auto simp: json_str_def\<close>)
qed

lemma json_enc_reads_back:
  "json_valid v \<Longrightarrow> json_valid w \<Longrightarrow> reads_back json_enc v w"
proof (induction v arbitrary: w)
  case JNull
  then show ?case
    by (cases w) (auto simp: reads_back_def json_str_def num_head num_char_simps)
next
  case (JBool b)
  then show ?case
    by (cases w) (auto simp: reads_back_def json_str_def num_head num_char_simps split: if_splits)
next
  case (JInt i)
  show ?case
    by (cases w)
       (auto simp: reads_back_def json_str_def num_head num_char_simps split: if_splits
         dest: num_reads_back)
next
  case (JStr s)
  then show ?case
  proof (cases w)
    case (JStr s')
    with JStr.prems show ?thesis
      by (auto simp: reads_back_def dest: json_str_inject)
  qed (auto simp: reads_back_def json_str_def num_head num_char_simps split: if_splits)
next
  case (JArr vs)
  then show ?case
  proof (cases w)
    case (JArr ws)
    have rb: "reads_back json_enc x y" if "x \<in> set vs" "y \<in> set ws" for x y
      using that JArr.IH JArr.prems \<open>w = JArr ws\<close> by (auto simp: list_all_iff)
    have "vs = ws \<and> t = u" if "json_enc (JArr vs) @ t = json_enc (JArr ws) @ u" for t u
      by (rule Join_reads_back [of vs ws json_enc "CHR '']''" t u, OF rb])
        (use that json_enc_head in auto)
    with JArr show ?thesis by (auto simp: reads_back_def)
  qed (auto simp: reads_back_def json_str_def num_head num_char_simps split: if_splits)
next
  case (JObj ms)
  then show ?case
  proof (cases w)
    case (JObj ns)
    have "ms = ns \<and> t = u" if "json_enc (JObj ms) @ t = json_enc (JObj ns) @ u" for t u
    proof (rule JObj_reads_back [OF _ that])
      fix k v k' v'
      assume kv: "(k, v) \<in> set ms" "(k', v') \<in> set ns"
      with JObj.prems \<open>w = JObj ns\<close> have val: "utf8_valid k" "utf8_valid k'" "json_valid v" "json_valid v'"
        by (auto simp: list_all_iff)
      with kv JObj.IH show "utf8_valid k \<and> utf8_valid k' \<and> reads_back json_enc v v'"
        by (metis snds.intros snd_conv)
    qed
    with JObj show ?thesis by (auto simp: reads_back_def)
  qed (auto simp: reads_back_def json_str_def num_head num_char_simps split: if_splits)
qed

text \<open>No object's text is a proper prefix of another's.\<close>

lemma json_obj_prefix_free:
  assumes "json_enc (JObj ms) @ t = json_enc (JObj ns) @ u" and "json_valid (JObj ms)" and "json_valid (JObj ns)"
  shows "ms = ns \<and> t = u"
  using assms(2,3) by (intro JObj_reads_back [OF _ assms(1)]) (auto simp: list_all_iff intro: json_enc_reads_back)

lemma json_enc_inject:
  "json_enc v = json_enc w \<Longrightarrow> json_valid v \<Longrightarrow> json_valid w \<Longrightarrow> v = w"
  using json_enc_reads_back [of v w] by (simp add: reads_back_def) (metis append_Nil2 delim_simps(1))

section \<open>Members that determine their field\<close>

lemma utf8_valid_ascii: "\<forall>c \<in> set s. ord c < 0x80 \<Longrightarrow> utf8_valid s"
proof (induction s)
  case (Cons c s)
  then show ?case by (subst utf8_valid.simps) simp
qed (simp add: utf8_valid.simps)

lemma json_valid_JBytes [simp]: "json_valid (JBytes b)"
  by (auto simp: JBytes_def intro!: utf8_valid_ascii dest: StdEncode_ascii)

lemma JBytes_inject [simp]: "JBytes a = JBytes b \<longleftrightarrow> a = b"
  by (auto simp: JBytes_def)

lemma JList_inject:
  "JList f xs = JList f ys \<Longrightarrow> (\<And>x y. x \<in> set xs \<Longrightarrow> y \<in> set ys \<Longrightarrow> f x = f y \<Longrightarrow> x = y) \<Longrightarrow> xs = ys"
  by (auto simp: JList_def split: if_splits intro: list.inj_map_strong)

lemma json_valid_JList: "json_valid (JList f xs) \<longleftrightarrow> list_all (\<lambda>x. json_valid (f x)) xs"
  by (simp add: JList_def list_all_iff)

lemma json_valid_JMap:
  "json_valid (JMap al) \<longleftrightarrow> (\<forall>k \<in> fst ` set al. utf8_valid k \<and> utf8_valid (the (map_of al k)))"
  by (auto simp: JMap_def list_all_iff)

definition sorted_map :: "(string \<times> string) list \<Rightarrow> (string \<times> string) list" where
  "sorted_map al = map (\<lambda>k. (k, the (map_of al k))) (sort (remdups (map fst al)))"

lemma map_of_sorted_map: "map_of (sorted_map al) k = map_of al k"
proof (cases "map_of al k")
  case None
  then have "k \<notin> fst ` set al" by (simp add: map_of_eq_None_iff)
  with None show ?thesis by (simp add: sorted_map_def map_of_map_restrict restrict_map_def)
next
  case (Some v)
  then have "k \<in> fst ` set al" by (metis domI dom_map_of_conv_image_fst)
  with Some show ?thesis by (simp add: sorted_map_def map_of_map_restrict restrict_map_def)
qed

lemma JMap_inject:
  assumes "JMap al = JMap bl"
  shows "map_of al = map_of bl"
proof
  fix k
  have "map (map_prod id JStr) (sorted_map al) = map (map_prod id JStr) (sorted_map bl)"
    using assms by (simp add: JMap_def sorted_map_def comp_def)
  moreover have "inj (map_prod id JStr :: string \<times> string \<Rightarrow> string \<times> json)"
    by (auto simp: inj_def)
  ultimately have "sorted_map al = sorted_map bl"
    by (simp only: inj_map_eq_map)
  then show "map_of al k = map_of bl k"
    using map_of_sorted_map [of al k] map_of_sorted_map [of bl k] by simp
qed

end
