(* ===== verification/Go_Time.thy ===== *)
theory Go_Time
  imports Go_JSON
begin

text \<open>
  Go's \<^verbatim>\<open>time\<close> package as far as the program uses it.  A \<^verbatim>\<open>time.Time\<close> is an instant in
  nanoseconds since the Unix epoch and the offset of its zone in seconds east of UTC.
  \<open>RFC3339Nano\<close> is \<^verbatim>\<open>Format(time.RFC3339Nano)\<close>, \<open>time_json\<close> the text \<^verbatim>\<open>json.Marshal\<close> writes, and
  \<open>ParseRFC3339\<close> is \<^verbatim>\<open>time.Parse(time.RFC3339, s)\<close> with the leniencies of that parser: a
  one-digit hour, a fraction of any length after a period or a comma, and zone offsets up
  to 24:60.  The main lemma is that parsing the formatted UTC text gives the instant back to
  the nanosecond.
\<close>

record gotime =
  unix_ns :: int
  zone_off :: int

section \<open>Civil dates\<close>

definition leap :: "int \<Rightarrow> bool" where
  "leap y \<longleftrightarrow> y mod 4 = 0 \<and> (y mod 100 \<noteq> 0 \<or> y mod 400 = 0)"

definition month_lengths :: "int \<Rightarrow> int list" where
  "month_lengths y = [31, if leap y then 29 else 28, 31, 30, 31, 30, 31, 31, 30, 31, 30, 31]"

definition days_before_year :: "int \<Rightarrow> int" where
  "days_before_year y =
     365 * (y - 1) + (y - 1) div 4 - (y - 1) div 100 + (y - 1) div 400 - 719162"

text \<open>The year an absolute day lies in: whole 400-, 100-, 4- and 1-year cycles.\<close>

definition year_of :: "int \<Rightarrow> int" where
  "year_of n =
     (let a = n + 719162;
          r = a mod 146097;
          c = min 3 (r div 36524);
          r2 = r - c * 36524;
          q = r2 div 1461;
          r3 = r2 - q * 1461;
          k = min 3 (r3 div 365)
      in 400 * (a div 146097) + 100 * c + 4 * q + k + 1)"

fun split_month :: "nat \<Rightarrow> int list \<Rightarrow> int \<Rightarrow> nat \<times> nat" where
  "split_month m (l # l' # ls) r =
     (if r < l then (m, nat (r + 1)) else split_month (m + 1) (l' # ls) (r - l))"
| "split_month m ls r = (m, nat (r + 1))"

definition civil :: "int \<Rightarrow> int \<times> nat \<times> nat" where
  "civil n = (let y = year_of n in (y, split_month 1 (month_lengths y) (n - days_before_year y)))"

definition days_in :: "nat \<Rightarrow> int \<Rightarrow> int" where
  "days_in m y = month_lengths y ! (m - 1)"

definition days_from_civil :: "int \<Rightarrow> nat \<Rightarrow> nat \<Rightarrow> int" where
  "days_from_civil y m d =
     days_before_year y + sum_list (take (m - 1) (month_lengths y)) + int d - 1"

section \<open>Formatting\<close>

definition pad :: "nat \<Rightarrow> nat \<Rightarrow> string" where
  "pad w n = replicate (w - length (show_nat n)) CHR ''0'' @ show_nat n"

definition pad_int :: "nat \<Rightarrow> int \<Rightarrow> string" where
  "pad_int w i = (if i < 0 then CHR ''-'' # pad w (nat (- i)) else pad w (nat i))"

definition trim_zeros :: "string \<Rightarrow> string" where
  "trim_zeros s = rev (dropWhile (\<lambda>c. c = CHR ''0'') (rev s))"

definition fraction :: "nat \<Rightarrow> string" where
  "fraction ns = (if ns = 0 then [] else CHR ''.'' # trim_zeros (pad 9 ns))"

definition zone_text :: "int \<Rightarrow> string" where
  "zone_text off =
     (if off = 0 then ''Z''
      else let z = nat \<bar>off\<bar> div 60 in
        (if off \<le> - 60 then CHR ''-'' else CHR ''+'') # pad 2 (z div 60) @ CHR '':'' # pad 2 (z mod 60))"

definition RFC3339Nano :: "gotime \<Rightarrow> string" where
  "RFC3339Nano t =
     (let s = unix_ns t div 1000000000 + zone_off t;
          (y, m, d) = civil (s div 86400);
          sod = nat (s mod 86400)
      in pad_int 4 y @ CHR ''-'' # pad 2 m @ CHR ''-'' # pad 2 d @ CHR ''T'' #
         pad 2 (sod div 3600) @ CHR '':'' # pad 2 (sod div 60 mod 60) @ CHR '':'' #
         pad 2 (sod mod 60) @ fraction (nat (unix_ns t mod 1000000000)) @ zone_text (zone_off t))"

definition UTC :: "gotime \<Rightarrow> gotime" where
  "UTC t = t\<lparr>zone_off := 0\<rparr>"

text \<open>
  \<^verbatim>\<open>Time.MarshalJSON\<close> refuses a year outside 0 to 9999 and a zone hour of 24 or more.
\<close>

definition time_marshals :: "gotime \<Rightarrow> bool" where
  "time_marshals t \<longleftrightarrow>
     (let y = year_of ((unix_ns t div 1000000000 + zone_off t) div 86400) in
      0 \<le> y \<and> y \<le> 9999 \<and> \<bar>zone_off t\<bar> < 86400)"

section \<open>Parsing\<close>

definition getnum :: "bool \<Rightarrow> string \<Rightarrow> (nat \<times> string) option" where
  "getnum fixed s =
     (case s of
        [] \<Rightarrow> None
      | a # t \<Rightarrow>
          if \<not> is_digit a then None
          else (case t of
              [] \<Rightarrow> if fixed then None else Some (ord a - 48, [])
            | b # u \<Rightarrow>
                if is_digit b then Some ((ord a - 48) * 10 + (ord b - 48), u)
                else if fixed then None else Some (ord a - 48, t)))"

definition literal :: "char \<Rightarrow> string \<Rightarrow> string option" where
  "literal c s = (case s of [] \<Rightarrow> None | a # t \<Rightarrow> if a = c then Some t else None)"

definition parse_fraction :: "string \<Rightarrow> nat \<times> string" where
  "parse_fraction s =
     (case s of
        a # b # t \<Rightarrow>
          if (a = CHR ''.'' \<or> a = CHR '','') \<and> is_digit b then
            let ds = take 9 (takeWhile is_digit (b # t)) in
            (read_nat ds * 10 ^ (9 - length ds), dropWhile is_digit (b # t))
          else (0, s)
      | _ \<Rightarrow> (0, s))"

definition parse_zone :: "string \<Rightarrow> int option" where
  "parse_zone s =
     (if s = ''Z'' then Some 0
      else if length s \<noteq> 6 \<or> s ! 3 \<noteq> CHR '':'' \<or> s ! 0 \<notin> {CHR ''+'', CHR ''-''} then None
      else case (getnum True (take 2 (drop 1 s)), getnum True (drop 4 s)) of
          (Some (hh, _), Some (mm, _)) \<Rightarrow>
            if hh > 24 \<or> mm > 60 then None
            else Some ((if s ! 0 = CHR ''-'' then - 1 else 1) * int (hh * 60 + mm) * 60)
        | _ \<Rightarrow> None)"

definition parse_date :: "string \<Rightarrow> (int \<times> string) option" where
  "parse_date s =
     (if length s < 4 \<or> \<not> list_all is_digit (take 4 s) then None
      else let y = int (read_nat (take 4 s)) in
        case Option.bind (literal CHR ''-'' (drop 4 s)) (getnum True) of
          None \<Rightarrow> None
        | Some (m, s1) \<Rightarrow>
            if m = 0 \<or> m > 12 then None
            else (case Option.bind (literal CHR ''-'' s1) (getnum True) of
                None \<Rightarrow> None
              | Some (d, s2) \<Rightarrow>
                  if d < 1 \<or> int d > days_in m y then None
                  else Some (days_from_civil y m d, s2)))"

definition parse_clock :: "string \<Rightarrow> (nat \<times> string) option" where
  "parse_clock s =
     (case Option.bind (literal CHR ''T'' s) (getnum False) of
        None \<Rightarrow> None
      | Some (h, s1) \<Rightarrow>
          if h \<ge> 24 then None
          else (case Option.bind (literal CHR '':'' s1) (getnum True) of
              None \<Rightarrow> None
            | Some (mi, s2) \<Rightarrow>
                if mi \<ge> 60 then None
                else (case Option.bind (literal CHR '':'' s2) (getnum True) of
                    None \<Rightarrow> None
                  | Some (sec, s3) \<Rightarrow>
                      if sec \<ge> 60 then None else Some (h * 3600 + mi * 60 + sec, s3))))"

definition ParseRFC3339 :: "string \<Rightarrow> gotime option" where
  "ParseRFC3339 s =
     (case parse_date s of
        None \<Rightarrow> None
      | Some (day, s1) \<Rightarrow>
          (case parse_clock s1 of
             None \<Rightarrow> None
           | Some (sod, s2) \<Rightarrow>
               let (ns, s3) = parse_fraction s2 in
               (case parse_zone s3 of
                  None \<Rightarrow> None
                | Some off \<Rightarrow>
                    Some \<lparr>unix_ns = (day * 86400 + int sod - off) * 1000000000 + int ns,
                          zone_off = off\<rparr>)))"

section \<open>Dates round-trip\<close>

lemma year_of_cycles:
  obtains g c q k :: int
  where "year_of n = 400 * g + 100 * c + 4 * q + k + 1"
    and "0 \<le> c" "c \<le> 3" "0 \<le> q" "q \<le> 24" "0 \<le> k" "k \<le> 3"
    and "0 \<le> n + 719162 - (146097 * g + 36524 * c + 1461 * q + 365 * k)"
    and "n + 719162 - (146097 * g + 36524 * c + 1461 * q + 365 * k) \<le> 365"
    and "n + 719162 - (146097 * g + 36524 * c + 1461 * q + 365 * k) = 365 \<longrightarrow>
           k = 3 \<and> (q < 24 \<or> c = 3)"
proof -
  define a where "a = n + 719162"
  define g r where "g = a div 146097" and "r = a mod 146097"
  define c where "c = min 3 (r div 36524)"
  define r2 where "r2 = r - c * 36524"
  define q r3 where "q = r2 div 1461" and "r3 = r2 - q * 1461"
  define k where "k = min 3 (r3 div 365)"
  have r: "0 \<le> r" "r < 146097" "a = 146097 * g + r" by (auto simp: r_def g_def)
  have c: "0 \<le> c" "c \<le> 3" "0 \<le> r2" "r2 \<le> 36524" "c < 3 \<longrightarrow> r2 < 36524"
    using r unfolding c_def r2_def by linarith+
  have "r3 = r2 mod 1461" by (simp add: r3_def q_def minus_div_mult_eq_mod)
  then have r3: "0 \<le> r3" "r3 \<le> 1460" by simp_all
  have r2: "r2 = q * 1461 + r3" by (simp add: r3_def)
  have q: "0 \<le> q" "q \<le> 24" "q = 24 \<and> c < 3 \<longrightarrow> r3 \<le> 1459"
    using c r2 r3 by linarith+
  have "k = 0 \<and> r3 < 365 \<or> k = 1 \<and> 365 \<le> r3 \<and> r3 < 730 \<or> k = 2 \<and> 730 \<le> r3 \<and> r3 < 1095
      \<or> k = 3 \<and> 1095 \<le> r3"
    using r3 unfolding k_def by linarith
  then have k: "0 \<le> k" "k \<le> 3" "0 \<le> r3 - 365 * k" "r3 - 365 * k \<le> 365"
    "r3 - 365 * k = 365 \<longrightarrow> k = 3 \<and> r3 = 1460"
    using r3 by auto
  have y: "year_of n = 400 * g + 100 * c + 4 * q + k + 1"
    by (simp add: year_of_def Let_def a_def g_def r_def c_def r2_def q_def r3_def k_def)
  have d: "n + 719162 - (146097 * g + 36524 * c + 1461 * q + 365 * k) = r3 - 365 * k"
    using r(3) by (simp add: a_def r2_def r3_def algebra_simps)
  show thesis
    by (rule that [OF y c(1,2) q(1,2) k(1,2)]; use d c q k in linarith)
qed

lemma year_day_bounds:
  "0 \<le> n - days_before_year (year_of n)"
  "n - days_before_year (year_of n) < sum_list (month_lengths (year_of n))"
proof -
  obtain g c q k where y: "year_of n = 400 * g + 100 * c + 4 * q + k + 1"
    and b: "0 \<le> c" "c \<le> 3" "0 \<le> q" "q \<le> 24" "0 \<le> k" "k \<le> 3"
    and d: "0 \<le> n + 719162 - (146097 * g + 36524 * c + 1461 * q + 365 * k)"
      "n + 719162 - (146097 * g + 36524 * c + 1461 * q + 365 * k) \<le> 365"
      "n + 719162 - (146097 * g + 36524 * c + 1461 * q + 365 * k) = 365 \<longrightarrow>
         k = 3 \<and> (q < 24 \<or> c = 3)"
    by (rule year_of_cycles)
  have "(year_of n - 1) div 4 = 100 * g + 25 * c + q"
    "(year_of n - 1) div 100 = 4 * g + c" "(year_of n - 1) div 400 = g"
    using y b by linarith+
  then have dby: "n - days_before_year (year_of n) =
      n + 719162 - (146097 * g + 36524 * c + 1461 * q + 365 * k)"
    using y by (simp add: days_before_year_def)
  then show "0 \<le> n - days_before_year (year_of n)" using d by simp
  have "leap (year_of n)" if "k = 3" "q < 24 \<or> c = 3"
  proof -
    have "year_of n mod 4 = 0" using y that by presburger
    moreover have "year_of n mod 100 \<noteq> 0" if "q < 24"
    proof -
      have "year_of n = (4 * q + 4) + 100 * (4 * g + c)" using y \<open>k = 3\<close> by simp
      then have "year_of n mod 100 = (4 * q + 4) mod 100" by (simp only: mod_mult_self2)
      with b(3) that show ?thesis by simp
    qed
    moreover have "year_of n mod 400 = 0" if "q = 24" "c = 3"
    proof -
      have "year_of n = 400 * (g + 1)" using y \<open>k = 3\<close> that by simp
      then show ?thesis by simp
    qed
    ultimately show ?thesis
      using that b unfolding leap_def by linarith
  qed
  with d dby show "n - days_before_year (year_of n) < sum_list (month_lengths (year_of n))"
    by (auto simp: month_lengths_def)
qed

lemma split_month_correct:
  assumes "split_month m ls r = (m', d)" and "0 \<le> r" and "r < sum_list ls" and "\<forall>l \<in> set ls. 0 < l"
  shows "m \<le> m' \<and> m' < m + length ls \<and> 1 \<le> d \<and> int d \<le> ls ! (m' - m) \<and>
         sum_list (take (m' - m) ls) + int d - 1 = r"
  using assms
proof (induction m ls r arbitrary: m' d rule: split_month.induct)
  case (1 m l l' ls r)
  show ?case
  proof (cases "r < l")
    case True
    with 1 show ?thesis by auto
  next
    case False
    with 1 have "m + 1 \<le> m' \<and> m' < m + 1 + length (l' # ls) \<and> 1 \<le> d \<and>
        int d \<le> (l' # ls) ! (m' - (m + 1)) \<and>
        sum_list (take (m' - (m + 1)) (l' # ls)) + int d - 1 = r - l"
      by simp
    moreover from this have "m' - m = Suc (m' - (m + 1))" by linarith
    ultimately show ?thesis by simp
  qed
qed auto

lemma civil_correct:
  assumes "civil n = (y, m, d)"
  shows "1 \<le> m" "m \<le> 12" "1 \<le> d" "int d \<le> days_in m y" "days_from_civil y m d = n"
    "y = year_of n"
proof -
  from assms have y: "y = year_of n"
    and "split_month 1 (month_lengths y) (n - days_before_year y) = (m, d)"
    by (auto simp: civil_def Let_def)
  moreover have "\<forall>l \<in> set (month_lengths y). 0 < l" "length (month_lengths y) = 12"
    by (auto simp: month_lengths_def)
  ultimately have "1 \<le> m \<and> m < 1 + 12 \<and> 1 \<le> d \<and> int d \<le> month_lengths y ! (m - 1) \<and>
      sum_list (take (m - 1) (month_lengths y)) + int d - 1 = n - days_before_year y"
    using split_month_correct year_day_bounds [of n] by (metis (no_types))
  with y show "1 \<le> m" "m \<le> 12" "1 \<le> d" "int d \<le> days_in m y" "days_from_civil y m d = n"
    "y = year_of n"
    by (auto simp: days_in_def days_from_civil_def)
qed

section \<open>Formatted instants parse back\<close>

lemma length_show_nat: "n < 10 ^ w \<Longrightarrow> 0 < w \<Longrightarrow> length (show_nat n) \<le> w"
proof (induction w arbitrary: n)
  case (Suc w)
  show ?case
  proof (cases "n < 10")
    case True
    then show ?thesis by (simp add: show_nat.simps [of n])
  next
    case False
    with Suc.prems have "n div 10 < 10 ^ w" "0 < w"
      by (auto simp: less_mult_imp_div_less mult.commute intro: Nat.gr0I)
    with Suc.IH False show ?thesis by (simp add: show_nat.simps [of n])
  qed
qed simp

lemma length_pad [size_simps]: "n < 10 ^ w \<Longrightarrow> 0 < w \<Longrightarrow> length (pad w n) = w"
  using length_show_nat by (simp add: pad_def)

lemma pad_digits: "list_all is_digit (pad w n)"
  using show_nat_digits [of n] by (auto simp: pad_def list_all_iff is_digit_def)

lemma read_nat_append: "read_nat (s @ t) = read_nat s * 10 ^ length t + read_nat t"
proof (induction t rule: rev_induct)
  case (snoc c t)
  then show ?case by (simp add: read_nat_def algebra_simps flip: append_assoc)
qed (simp add: read_nat_def)

lemma read_nat_zeros: "read_nat (replicate k CHR ''0'') = 0"
  by (induction k) (simp_all add: read_nat_def)

lemma read_nat_pad [simp]: "read_nat (pad w n) = n"
  by (simp add: pad_def read_nat_append read_nat_zeros read_show_nat)

lemma digit_zero: "digit 0 = CHR ''0''"
  using of_char_eq_iff [of "digit 0" "CHR ''0''", where 'a = nat] by simp

lemma pad2: "n < 100 \<Longrightarrow> pad 2 n = [digit (n div 10), digit (n mod 10)]"
  by (cases "n < 10")
     (simp_all add: pad_def show_nat.simps [of n] show_nat.simps [of "n div 10"] digit_zero)

lemma getnum_pad2 [simp]: "n < 100 \<Longrightarrow> getnum fixed (pad 2 n @ s) = Some (n, s)"
  by (simp add: pad2 getnum_def)

lemma literal_Cons [simp]: "literal c (c # s) = Some s"
  by (simp add: literal_def)

lemma trim_zeros_split:
  obtains k where "s = trim_zeros s @ replicate k CHR ''0''"
proof
  let ?p = "\<lambda>c. c = CHR ''0''"
  have "rev s = takeWhile ?p (rev s) @ dropWhile ?p (rev s)" by simp
  then have "s = trim_zeros s @ rev (takeWhile ?p (rev s))"
    unfolding trim_zeros_def by (metis rev_append rev_rev_ident)
  moreover have "takeWhile ?p (rev s) = replicate (length (takeWhile ?p (rev s))) CHR ''0''"
    by (rule replicate_eqI) (auto dest: set_takeWhileD)
  ultimately show "s = trim_zeros s @ replicate (length (takeWhile ?p (rev s))) CHR ''0''"
    by (metis rev_replicate)
qed

lemma parse_fraction_format:
  assumes "ns < 1000000000" and "t = [] \<or> \<not> is_digit (hd t) \<and> hd t \<noteq> CHR ''.'' \<and> hd t \<noteq> CHR '',''"
  shows "parse_fraction (fraction ns @ t) = (ns, t)"
proof (cases "ns = 0")
  case True
  with assms(2) show ?thesis
    by (cases t) (auto simp: fraction_def parse_fraction_def split: list.splits)
next
  case False
  obtain k where k: "pad 9 ns = trim_zeros (pad 9 ns) @ replicate k CHR ''0''"
    by (rule trim_zeros_split)
  let ?ds = "trim_zeros (pad 9 ns)"
  have len: "length ?ds + k = 9"
    using arg_cong [OF k, of length] length_pad [of ns 9] assms(1) by simp
  have digs: "list_all is_digit ?ds"
    using pad_digits [of 9 ns] k by (metis list_all_append)
  have val: "read_nat ?ds * 10 ^ k = ns"
    using arg_cong [OF k, of read_nat] by (simp add: read_nat_append read_nat_zeros)
  with False obtain b u where ds: "?ds = b # u"
    by (cases ?ds) (auto simp: read_nat_def)
  have tw: "takeWhile is_digit (?ds @ t) = ?ds" "dropWhile is_digit (?ds @ t) = t"
    using digs assms(2) by (cases t; auto simp: takeWhile_append dropWhile_append list_all_iff)+
  have "k = 9 - length ?ds" using len by simp
  then show ?thesis
    using False tw digs val len
    by (simp add: fraction_def parse_fraction_def ds)
qed

lemma parse_zone_text:
  assumes "off mod 60 = 0" and "\<bar>off\<bar> < 86400"
  shows "parse_zone (zone_text off) = Some off"
proof (cases "off = 0")
  case True
  then show ?thesis by (simp add: zone_text_def parse_zone_def)
next
  case False
  define z where "z = nat \<bar>off\<bar> div 60"
  have z: "z div 60 < 24" "z mod 60 < 60" using assms(2) unfolding z_def by linarith+
  from assms(1) obtain k where k: "off = 60 * k" by (metis dvd_eq_mod_eq_0 dvdE)
  then have "z = nat \<bar>k\<bar>" unfolding z_def by (simp add: abs_mult nat_mult_distrib)
  with k have "\<bar>off\<bar> = int (z * 60)" by simp
  then have abs: "\<bar>off\<bar> = int (z div 60 * 60 + z mod 60) * 60" by simp
  have neg: "off \<le> - 60 \<longleftrightarrow> off < 0" using k by presburger
  have zt: "zone_text off = (if off < 0 then CHR ''-'' else CHR ''+'') #
      pad 2 (z div 60) @ CHR '':'' # pad 2 (z mod 60)"
    using False neg by (simp add: zone_text_def z_def Let_def)
  have "getnum True (pad 2 (z mod 60)) = Some (z mod 60, [])"
    using getnum_pad2 [of "z mod 60" True "[]"] z by simp
  moreover have "getnum True (pad 2 (z div 60)) = Some (z div 60, [])"
    using getnum_pad2 [of "z div 60" True "[]"] z by simp
  moreover have "length (pad 2 (z div 60)) = 2" "length (pad 2 (z mod 60)) = 2"
    using z by (simp_all add: size_simps)
  ultimately show ?thesis
    using z abs unfolding zt parse_zone_def
    by (auto simp: nth_append nth_Cons' simp del: of_nat_add of_nat_mult)
qed

lemma zone_text_head:
  "zone_text off \<noteq> [] \<and> hd (zone_text off) \<in> {CHR ''Z'', CHR ''+'', CHR ''-''}"
  by (simp add: zone_text_def Let_def)

lemma civil_two_digits:
  assumes "civil n = (y, m, d)"
  shows "m < 100" "d < 100"
proof -
  have "\<forall>l \<in> set (month_lengths y). l \<le> 31" by (auto simp: month_lengths_def)
  moreover have "days_in m y \<in> set (month_lengths y)"
    unfolding days_in_def
    by (rule nth_mem) (use civil_correct(1,2) [OF assms] in \<open>simp add: month_lengths_def\<close>)
  ultimately show "m < 100" "d < 100" using civil_correct(2,4) [OF assms] by fastforce+
qed

lemma parse_date_format:
  assumes "civil n = (y, m, d)" and "0 \<le> y" and "y \<le> 9999"
  shows "parse_date (pad_int 4 y @ CHR ''-'' # pad 2 m @ CHR ''-'' # pad 2 d @ s) = Some (n, s)"
proof -
  have len: "length (pad 4 (nat y)) = 4"
    using assms(2,3) by (intro length_pad) simp_all
  show ?thesis
    using civil_correct [OF assms(1)] civil_two_digits [OF assms(1)] assms(2) len pad_digits
    by (simp add: parse_date_def pad_int_def Let_def)
qed

lemma parse_clock_format:
  assumes "sod < 86400"
  shows "parse_clock (CHR ''T'' # pad 2 (sod div 3600) @ CHR '':'' # pad 2 (sod div 60 mod 60) @
           CHR '':'' # pad 2 (sod mod 60) @ s) = Some (sod, s)"
proof -
  have "sod div 3600 < 24" using assms by linarith
  moreover have "sod div 60 mod 60 < 60" "sod mod 60 < 60" by simp_all
  moreover have "sod div 3600 * 3600 + sod div 60 mod 60 * 60 + sod mod 60 = sod"
  proof -
    have "sod div 3600 = sod div 60 div 60" by (simp add: div_mult2_eq [symmetric])
    then have "sod div 3600 * 60 + sod div 60 mod 60 = sod div 60" by simp
    then have "(sod div 3600 * 60 + sod div 60 mod 60) * 60 + sod mod 60 = sod" by simp
    then show ?thesis by (simp add: algebra_simps)
  qed
  ultimately show ?thesis by (simp add: parse_clock_def not_le)
qed

definition year_in_range :: "gotime \<Rightarrow> bool" where
  "year_in_range t \<longleftrightarrow>
     (let y = year_of ((unix_ns t div 1000000000 + zone_off t) div 86400) in 0 \<le> y \<and> y \<le> 9999)"

lemma ParseRFC3339_format:
  assumes "year_in_range t" and "zone_off t mod 60 = 0" and "\<bar>zone_off t\<bar> < 86400"
  shows "ParseRFC3339 (RFC3339Nano t) = Some t"
proof -
  define s where "s = unix_ns t div 1000000000 + zone_off t"
  obtain y m d where c: "civil (s div 86400) = (y, m, d)" by (metis prod_cases3)
  have y: "0 \<le> y" "y \<le> 9999"
    using assms(1) civil_correct(6) [OF c] by (auto simp: year_in_range_def Let_def s_def)
  define sod where "sod = nat (s mod 86400)"
  have sod: "sod < 86400" "int sod = s mod 86400" by (auto simp: sod_def)
  define ns where "ns = nat (unix_ns t mod 1000000000)"
  have ns: "ns < 1000000000" "int ns = unix_ns t mod 1000000000" by (auto simp: ns_def)
  have inst: "(s div 86400 * 86400 + int sod - zone_off t) * 1000000000 + int ns = unix_ns t"
    unfolding sod ns by (simp add: s_def)
  have rendered: "RFC3339Nano t =
      pad_int 4 y @ CHR ''-'' # pad 2 m @ CHR ''-'' # pad 2 d @
      (CHR ''T'' # pad 2 (sod div 3600) @ CHR '':'' # pad 2 (sod div 60 mod 60) @
       CHR '':'' # pad 2 (sod mod 60) @ fraction ns @ zone_text (zone_off t))"
    using c by (simp add: RFC3339Nano_def flip: s_def sod_def ns_def)
  have frac: "parse_fraction (fraction ns @ zone_text (zone_off t)) = (ns, zone_text (zone_off t))"
    by (rule parse_fraction_format [OF ns(1)])
      (use zone_text_head [of "zone_off t"] in \<open>auto simp: is_digit_def\<close>)
  show ?thesis
    unfolding rendered ParseRFC3339_def parse_date_format [OF c y]
    using parse_clock_format [OF sod(1)] frac parse_zone_text [OF assms(2,3)] inst
    by simp
qed

lemma ParseRFC3339_UTC:
  "year_in_range (UTC t) \<Longrightarrow> ParseRFC3339 (RFC3339Nano (UTC t)) = Some (UTC t)"
  by (rule ParseRFC3339_format) (simp_all add: UTC_def)

text \<open>
  The text of a marshalled instant whose zone is a whole number of minutes determines it.
\<close>

definition time_exact :: "gotime \<Rightarrow> bool" where
  "time_exact t \<longleftrightarrow> time_marshals t \<and> zone_off t mod 60 = 0"

lemma ParseRFC3339_exact: "time_exact t \<Longrightarrow> ParseRFC3339 (RFC3339Nano t) = Some t"
  by (rule ParseRFC3339_format)
     (auto simp: time_exact_def time_marshals_def year_in_range_def Let_def)

lemma RFC3339Nano_inject:
  "RFC3339Nano s = RFC3339Nano t \<Longrightarrow> time_exact s \<Longrightarrow> time_exact t \<Longrightarrow> s = t"
  by (metis ParseRFC3339_exact option.inject)

abbreviation ascii :: "string \<Rightarrow> bool" where
  "ascii \<equiv> list_all (\<lambda>c. ord c < 0x80)"

lemma ascii_pad: "ascii (pad w n)"
  using pad_digits [of w n] by (rule list.pred_mono_strong) (simp add: is_digit_def)

lemma ascii_trim_zeros: "ascii s \<Longrightarrow> ascii (trim_zeros s)"
  by (auto simp: trim_zeros_def list_all_iff dest: set_dropWhileD)

lemma ascii_fraction: "ascii (fraction ns)"
  by (simp add: fraction_def ascii_pad ascii_trim_zeros)

lemma ascii_zone_text: "ascii (zone_text off)"
  by (simp add: zone_text_def ascii_pad Let_def)

lemma ascii_pad_int: "ascii (pad_int w i)"
  by (simp add: pad_int_def ascii_pad)

lemma ascii_RFC3339Nano: "ascii (RFC3339Nano t)"
  by (simp add: RFC3339Nano_def Let_def split_beta ascii_pad ascii_pad_int ascii_fraction ascii_zone_text)

lemma utf8_valid_time [simp]: "utf8_valid (RFC3339Nano t)"
  using ascii_RFC3339Nano by (intro utf8_valid_ascii) (simp add: list_all_iff)

end
