(* ===== verification/Go_Float.thy ===== *)
theory Go_Float
  imports Complex_Main Go_JSON
begin

text \<open>
  \<^verbatim>\<open>strconv.ParseFloat(s, 64)\<close>.  A \<^verbatim>\<open>float64\<close> is NaN, an infinity or the rational number it
  denotes (the two zeros denote the same number, and no comparison tells them apart).
  \<open>readFloat\<close> follows the scanner of \<^verbatim>\<open>strconv\<close>: sign, optional \<^verbatim>\<open>0x\<close> prefix, digits with at
  most one point, underscores checked by \<open>underscoreOK\<close>, exponent digits that stop growing at
  10000.  The exact rational is rounded to the nearest double, ties to even; a value that
  rounds beyond the largest double is a range error.
\<close>

datatype f64 = NaN | PInf | NInf | Fin rat

section \<open>Rounding\<close>

fun ilog2 :: "nat \<Rightarrow> nat" where
  "ilog2 n = (if n < 2 then 0 else Suc (ilog2 (n div 2)))"

declare ilog2.simps [simp del]

definition pow_int :: "rat \<Rightarrow> int \<Rightarrow> rat" where
  "pow_int b e = (if 0 \<le> e then b ^ nat e else 1 / b ^ nat (- e))"

definition floor_log2 :: "rat \<Rightarrow> int" where
  "floor_log2 x =
     (let (a, b) = quotient_of x;
          e = int (ilog2 (nat a)) - int (ilog2 (nat b))
      in if pow_int 2 e \<le> x then e else e - 1)"

definition round_half_even :: "rat \<Rightarrow> int" where
  "round_half_even x =
     (let f = \<lfloor>x\<rfloor>; d = x - of_int f in
      if d < 1 / 2 then f else if d > 1 / 2 then f + 1 else if even f then f else f + 1)"

definition round_pos :: "rat \<Rightarrow> rat" where
  "round_pos x =
     (let ulp = pow_int 2 (max (floor_log2 x) (- 1022) - 52)
      in of_int (round_half_even (x / ulp)) * ulp)"

definition round64 :: "rat \<Rightarrow> f64 option" where
  "round64 x =
     (if x = 0 then Some (Fin 0)
      else let v = round_pos \<bar>x\<bar> in
        if v \<ge> 2 ^ 1024 then None else Some (Fin (if x < 0 then - v else v)))"

section \<open>Scanning\<close>

definition hex_digit :: "char \<Rightarrow> bool" where
  "hex_digit c \<longleftrightarrow> 97 \<le> ord (lower c) \<and> ord (lower c) \<le> 102"

definition digit_val :: "char \<Rightarrow> nat" where
  "digit_val c = (if is_digit c then ord c - 48 else ord (lower c) - 87)"

record mant =
  m_val :: nat
  m_frac :: nat
  m_dot :: bool
  m_digits :: bool
  m_und :: bool

fun scan_mant :: "bool \<Rightarrow> mant \<Rightarrow> string \<Rightarrow> mant \<times> string" where
  "scan_mant hex m [] = (m, [])"
| "scan_mant hex m (c # s) =
     (if c = CHR ''_'' then scan_mant hex (m\<lparr>m_und := True\<rparr>) s
      else if c = CHR ''.'' then
        (if m_dot m then (m, c # s) else scan_mant hex (m\<lparr>m_dot := True\<rparr>) s)
      else if is_digit c \<or> hex \<and> hex_digit c then
        scan_mant hex
          (m\<lparr>m_val := m_val m * (if hex then 16 else 10) + digit_val c,
             m_frac := m_frac m + (if m_dot m then 1 else 0), m_digits := True\<rparr>) s
      else (m, c # s))"

fun scan_exp :: "nat \<Rightarrow> bool \<Rightarrow> string \<Rightarrow> nat \<times> bool \<times> string" where
  "scan_exp e u [] = (e, u, [])"
| "scan_exp e u (c # s) =
     (if c = CHR ''_'' then scan_exp e True s
      else if is_digit c then scan_exp (if e < 10000 then e * 10 + (ord c - 48) else e) u s
      else (e, u, c # s))"

text \<open>
  \<open>underscoreOK\<close>: an underscore stands between two digits, the base prefix counting as one.
  The flag is the class of the last byte: \<open>None\<close> at the start or after another byte,
  \<open>Some True\<close> after a digit, \<open>Some False\<close> after an underscore.
\<close>

fun underscores_ok :: "bool \<Rightarrow> bool option \<Rightarrow> string \<Rightarrow> bool" where
  "underscores_ok hex saw [] \<longleftrightarrow> saw \<noteq> Some False"
| "underscores_ok hex saw (c # s) \<longleftrightarrow>
     (if is_digit c \<or> hex \<and> hex_digit c then underscores_ok hex (Some True) s
      else if c = CHR ''_'' then saw = Some True \<and> underscores_ok hex (Some False) s
      else saw \<noteq> Some False \<and> underscores_ok hex None s)"

definition strip_sign :: "string \<Rightarrow> bool \<times> string" where
  "strip_sign s =
     (case s of
        c # t \<Rightarrow> if c = CHR ''+'' then (False, t) else if c = CHR ''-'' then (True, t) else (False, s)
      | [] \<Rightarrow> (False, []))"

definition underscoreOK :: "string \<Rightarrow> bool" where
  "underscoreOK s0 =
     (let s = snd (strip_sign s0) in
      if length s \<ge> 2 \<and> s ! 0 = CHR ''0'' \<and> lower (s ! 1) \<in> {CHR ''b'', CHR ''o'', CHR ''x''}
      then underscores_ok (lower (s ! 1) = CHR ''x'') (Some True) (drop 2 s)
      else underscores_ok False None s)"

definition mant0 :: mant where
  "mant0 = \<lparr>m_val = 0, m_frac = 0, m_dot = False, m_digits = False, m_und = False\<rparr>"

definition mant_value :: "bool \<Rightarrow> mant \<Rightarrow> int \<Rightarrow> rat" where
  "mant_value hex m e =
     of_nat (m_val m) * pow_int (if hex then 16 else 10) (- int (m_frac m)) *
     pow_int (if hex then 2 else 10) e"

text \<open>
  \<open>readFloat s\<close> is the exact value of the number \<open>s\<close> spells, if the whole of \<open>s\<close> spells one.
\<close>

definition readFloat :: "string \<Rightarrow> rat option" where
  "readFloat s =
     (let (neg, t) = strip_sign s;
          hex = (length t > 2 \<and> t ! 0 = CHR ''0'' \<and> lower (t ! 1) = CHR ''x'');
          (m, r) = scan_mant hex mant0 (if hex then drop 2 t else t);
          sgn = (if neg then - 1 else 1)
      in if \<not> m_digits m then None
         else case r of
             [] \<Rightarrow>
               if hex \<or> m_und m \<and> \<not> underscoreOK s then None else Some (sgn * mant_value hex m 0)
           | c # u \<Rightarrow>
               if lower c \<noteq> (if hex then CHR ''p'' else CHR ''e'') then None
               else let (eneg, v) = strip_sign u in
                 if v = [] \<or> \<not> is_digit (hd v) then None
                 else let (e, und, w) = scan_exp 0 (m_und m) v in
                   if w \<noteq> [] \<or> und \<and> \<not> underscoreOK s then None
                   else Some (sgn * mant_value hex m (if eneg then - int e else int e)))"

definition special :: "string \<Rightarrow> f64 option" where
  "special s =
     (let (neg, t) = strip_sign s; l = map lower t in
      if l = ''inf'' \<or> l = ''infinity'' then Some (if neg then NInf else PInf)
      else if map lower s = ''nan'' then Some NaN else None)"

definition ParseFloat :: "string \<Rightarrow> f64 option" where
  "ParseFloat s = (case special s of Some f \<Rightarrow> Some f | None \<Rightarrow> Option.bind (readFloat s) round64)"

end
