(* ===== verification/Scalar.thy ===== *)
theory Scalar
  imports Go_Time Go_Float
begin

text \<open>
  \<^verbatim>\<open>internal/scalar\<close>: the ordering that macaroon caveats and policy conditions share.
  \<open>scalar_Parse\<close> coerces a string to an instant or a number, \<open>Compare\<close> orders two values
  exactly, \<open>scalar_Satisfies\<close> applies one of the four ordering operators.  The locale
  \<open>scalar_order\<close> is what the two clients rely on: a partial order that leaves only
  unordered values out.  It is interpreted on the model at the end, and its containment
  lemma is what makes the narrowing check of the macaroons sound.
\<close>

section \<open>The interface\<close>

definition OpLe :: string where "OpLe = ''<=''"
definition OpLt :: string where "OpLt = ''<''"
definition OpGe :: string where "OpGe = ''>=''"
definition OpGt :: string where "OpGt = ''>''"

lemmas order_op_defs = OpLe_def OpLt_def OpGe_def OpGt_def

lemma order_ops_distinct [simp]:
  "OpLe \<noteq> OpLt" "OpLe \<noteq> OpGe" "OpLe \<noteq> OpGt" "OpLt \<noteq> OpLe" "OpLt \<noteq> OpGe" "OpLt \<noteq> OpGt"
  "OpGe \<noteq> OpLe" "OpGe \<noteq> OpLt" "OpGe \<noteq> OpGt" "OpGt \<noteq> OpLe" "OpGt \<noteq> OpLt" "OpGt \<noteq> OpGe"
  by (simp_all add: order_op_defs)

definition op_holds :: "string \<Rightarrow> int \<Rightarrow> bool" where
  "op_holds op c \<longleftrightarrow>
     (if op = OpLe then c \<le> 0 else if op = OpLt then c < 0
      else if op = OpGe then c \<ge> 0 else if op = OpGt then c > 0 else False)"

locale scalar_order =
  fixes cmp :: "'v \<Rightarrow> 'v \<Rightarrow> int \<times> bool"
    and sat :: "'v \<Rightarrow> string \<Rightarrow> 'v \<Rightarrow> bool"
  assumes cmp_range: "fst (cmp v w) \<in> {- 1, 0, 1}"
    and cmp_flip: "cmp w v = (- fst (cmp v w), snd (cmp v w))"
    and cmp_trans:
      "\<lbrakk>snd (cmp u v); snd (cmp v w); fst (cmp u v) \<le> 0; fst (cmp v w) \<le> 0\<rbrakk> \<Longrightarrow>
         snd (cmp u w) \<and> fst (cmp u w) \<le> 0 \<and>
         (fst (cmp u v) < 0 \<or> fst (cmp v w) < 0 \<longrightarrow> fst (cmp u w) < 0)"
    and sat_cmp: "sat v op w \<longleftrightarrow> snd (cmp v w) \<and> op_holds op (fst (cmp v w))"
begin

lemma cmp_trans_ge:
  assumes "snd (cmp u v)" "snd (cmp v w)" "fst (cmp u v) \<ge> 0" "fst (cmp v w) \<ge> 0"
  shows "snd (cmp u w) \<and> fst (cmp u w) \<ge> 0 \<and>
         (fst (cmp u v) > 0 \<or> fst (cmp v w) > 0 \<longrightarrow> fst (cmp u w) > 0)"
  using cmp_trans [of w v u] assms cmp_flip [of v u] cmp_flip [of w v] cmp_flip [of w u] by auto

lemma upper_contained:
  assumes "sat x cop cv" and "cop \<in> {OpLe, OpLt}" and "pop \<in> {OpLe, OpLt}"
    and "snd (cmp cv pv)"
    and "if fst (cmp cv pv) = 0 then cop = OpLe \<longrightarrow> pop = OpLe else fst (cmp cv pv) < 0"
  shows "sat x pop pv"
  using cmp_trans [of x cv pv] assms by (auto simp: sat_cmp op_holds_def split: if_splits)

lemma lower_contained:
  assumes "sat x cop cv" and "cop \<in> {OpGe, OpGt}" and "pop \<in> {OpGe, OpGt}"
    and "snd (cmp cv pv)"
    and "if fst (cmp cv pv) = 0 then cop = OpGe \<longrightarrow> pop = OpGe else fst (cmp cv pv) > 0"
  shows "sat x pop pv"
  using cmp_trans_ge [of x cv pv] assms by (auto simp: sat_cmp op_holds_def split: if_splits)

lemma unordered_never_sat: "\<not> snd (cmp v w) \<Longrightarrow> \<not> sat v op w"
  by (simp add: sat_cmp)

end

section \<open>Values\<close>

type_synonym i64 = "64 word"

record Value =
  nanos :: i64
  num :: f64
  isTime :: bool

definition MinInt64 :: int where "MinInt64 = - (2 ^ 63)"
definition MaxInt64 :: int where "MaxInt64 = 2 ^ 63 - 1"

text \<open>
  \<^verbatim>\<open>UnixNano\<close> keeps the low 64 bits of the nanosecond count.  \<open>t.Before(minUnixNano) || t.After(maxUnixNano)\<close> compares instants, which are exact; inside
  the window nothing is lost.
\<close>

definition in_window :: "gotime \<Rightarrow> bool" where
  "in_window t \<longleftrightarrow> MinInt64 \<le> unix_ns t \<and> unix_ns t \<le> MaxInt64"

definition UnixNano :: "gotime \<Rightarrow> i64" where
  "UnixNano t = word_of_int (unix_ns t)"

definition scalar_Parse :: "string \<Rightarrow> Value option" where
  "scalar_Parse s =
     (case ParseRFC3339 s of
        Some t \<Rightarrow>
          if \<not> in_window t then None
          else Some \<lparr>nanos = UnixNano t, num = Fin 0, isTime = True\<rparr>
      | None \<Rightarrow>
          (case ParseFloat s of
             Some f \<Rightarrow>
               if f = PInf \<or> f = NInf then None
               else Some \<lparr>nanos = 0, num = f, isTime = False\<rparr>
           | None \<Rightarrow> None))"

section \<open>Comparison\<close>

fun f64_less :: "f64 \<Rightarrow> f64 \<Rightarrow> bool" where
  "f64_less NaN _ = False"
| "f64_less _ NaN = False"
| "f64_less (Fin a) (Fin b) = (a < b)"
| "f64_less NInf b = (b \<noteq> NInf)"
| "f64_less a PInf = (a \<noteq> PInf)"
| "f64_less _ _ = False"

definition f64_le :: "f64 \<Rightarrow> f64 \<Rightarrow> bool" where
  "f64_le a b \<longleftrightarrow> f64_less a b \<or> a = b \<and> a \<noteq> NaN"

definition cmpInt64 :: "i64 \<Rightarrow> i64 \<Rightarrow> int" where
  "cmpInt64 a b = (if sint a < sint b then - 1 else if sint a > sint b then 1 else 0)"

definition cmpFloat64 :: "f64 \<Rightarrow> f64 \<Rightarrow> int \<times> bool" where
  "cmpFloat64 a b =
     (if a = NaN \<or> b = NaN then (0, False)
      else if f64_less a b then (- 1, True)
      else if f64_less b a then (1, True) else (0, True))"

definition twoPow63 :: f64 where "twoPow63 = Fin (2 ^ 63)"
definition negTwoPow63 :: f64 where "negTwoPow63 = Fin (- (2 ^ 63))"

definition trunc_rat :: "rat \<Rightarrow> int" where
  "trunc_rat x = (if x < 0 then \<lceil>x\<rceil> else \<lfloor>x\<rfloor>)"

definition cmpInt64Float :: "i64 \<Rightarrow> f64 \<Rightarrow> int \<times> bool" where
  "cmpInt64Float n f =
     (if f = NaN then (0, False)
      else if f64_le twoPow63 f then (- 1, True)
      else if f64_less f negTwoPow63 then (1, True)
      else case f of
          Fin x \<Rightarrow>
            let whole = trunc_rat x; c = cmpInt64 n (word_of_int whole); frac = x - of_int whole in
            if c \<noteq> 0 then (c, True)
            else if frac > 0 then (- 1, True) else if frac < 0 then (1, True) else (0, True)
        | _ \<Rightarrow> (0, True))"

definition Compare :: "Value \<Rightarrow> Value \<Rightarrow> int \<times> bool" where
  "Compare v w =
     (if isTime v \<and> isTime w then (cmpInt64 (nanos v) (nanos w), True)
      else if isTime v then cmpInt64Float (nanos v) (num w)
      else if isTime w then (let (c, ok) = cmpInt64Float (nanos w) (num v) in (- c, ok))
      else cmpFloat64 (num v) (num w))"

definition scalar_Satisfies :: "Value \<Rightarrow> string \<Rightarrow> Value \<Rightarrow> bool" where
  "scalar_Satisfies v op w =
     (let (c, ok) = Compare v w in
      if \<not> ok then False
      else if op = OpLe then c \<le> 0 else if op = OpLt then c < 0
      else if op = OpGe then c \<ge> 0 else if op = OpGt then c > 0 else False)"

section \<open>The comparison is the exact order\<close>

text \<open>
  \<open>rank\<close> is the number a value stands for: an instant is its nanosecond count.
\<close>

definition rank :: "Value \<Rightarrow> f64" where
  "rank v = (if isTime v then Fin (of_int (sint (nanos v))) else num v)"

declare of_int_sint [simp del]

lemma sint64_bounds: "- (2 ^ 63) \<le> sint (n :: i64)" "sint (n :: i64) < 2 ^ 63"
  using sint_greater_eq [of n] sint_less [of n] by simp_all

lemma sint64_of_int: "- (2 ^ 63) \<le> i \<Longrightarrow> i < 2 ^ 63 \<Longrightarrow> sint (word_of_int i :: i64) = i"
  by (simp add: signed_of_int signed_take_bit_int_eq_self)

lemma sint_UnixNano: "in_window t \<Longrightarrow> sint (UnixNano t) = unix_ns t"
  unfolding UnixNano_def in_window_def MinInt64_def MaxInt64_def
  by (rule sint64_of_int) simp_all

lemma int_cmp_trunc:
  fixes x :: rat and n :: int
  shows "n < trunc_rat x \<Longrightarrow> of_int n < x" "trunc_rat x < n \<Longrightarrow> x < of_int n"
  unfolding trunc_rat_def by (auto split: if_splits; linarith)+

lemma trunc_rat_fits:
  fixes x :: rat
  assumes "x < 2 ^ 63" "- (2 ^ 63) \<le> x"
  shows "sint (word_of_int (trunc_rat x) :: i64) = trunc_rat x"
proof (rule sint64_of_int)
  show "- (2 ^ 63) \<le> trunc_rat x" "trunc_rat x < 2 ^ 63"
    using assms unfolding trunc_rat_def
    by (auto simp: le_floor_iff le_ceiling_iff floor_less_iff ceiling_less_iff; linarith)+
qed

lemma cmpInt64Float_exact: "cmpInt64Float n f = cmpFloat64 (Fin (of_int (sint n))) f"
proof (cases f)
  case (Fin x)
  have "(of_int (- (2 ^ 63)) :: rat) \<le> of_int (sint n)" "(of_int (sint n) :: rat) < of_int (2 ^ 63)"
    unfolding of_int_le_iff of_int_less_iff using sint64_bounds [of n] by simp_all
  then have r: "(- (2 ^ 63) :: rat) \<le> of_int (sint n)" "(of_int (sint n) :: rat) < 2 ^ 63"
    by simp_all
  consider "x \<ge> 2 ^ 63" | "x < - (2 ^ 63)" | "x < 2 ^ 63" "- (2 ^ 63) \<le> x" by linarith
  then show ?thesis
  proof cases
    case 3
    with int_cmp_trunc [where n = "sint n" and x = x] trunc_rat_fits [OF 3] show ?thesis
      by (auto simp: Fin cmpInt64Float_def cmpFloat64_def f64_le_def twoPow63_def negTwoPow63_def
          cmpInt64_def Let_def)
  qed (use r in \<open>auto simp: Fin cmpInt64Float_def cmpFloat64_def f64_le_def twoPow63_def negTwoPow63_def\<close>)
qed (auto simp: cmpInt64Float_def cmpFloat64_def f64_le_def twoPow63_def negTwoPow63_def)

lemma cmpFloat64_flip: "cmpFloat64 b a = (- fst (cmpFloat64 a b), snd (cmpFloat64 a b))"
  by (cases a; cases b) (auto simp: cmpFloat64_def)

lemma cmpInt64_exact: "(cmpInt64 m n, True) = cmpFloat64 (Fin (of_int (sint m))) (Fin (of_int (sint n)))"
  by (simp add: cmpInt64_def cmpFloat64_def)

lemma Compare_rank: "Compare v w = cmpFloat64 (rank v) (rank w)"
  using cmpFloat64_flip [of "num v" "Fin (of_int (sint (nanos w)))"]
  by (simp add: Compare_def rank_def cmpInt64Float_exact cmpInt64_exact split_beta)

lemma cmpFloat64_trans:
  assumes "snd (cmpFloat64 a b)" "snd (cmpFloat64 b c)"
    and "fst (cmpFloat64 a b) \<le> 0" "fst (cmpFloat64 b c) \<le> 0"
  shows "snd (cmpFloat64 a c) \<and> fst (cmpFloat64 a c) \<le> 0 \<and>
    (fst (cmpFloat64 a b) < 0 \<or> fst (cmpFloat64 b c) < 0 \<longrightarrow> fst (cmpFloat64 a c) < 0)"
  using assms
  by (cases a; cases b; cases c) (auto simp: cmpFloat64_def split: if_splits)

interpretation scalar: scalar_order Compare scalar_Satisfies
proof
  show "fst (Compare v w) \<in> {- 1, 0, 1}" for v w
    by (simp add: Compare_rank cmpFloat64_def)
  show "Compare w v = (- fst (Compare v w), snd (Compare v w))" for v w
    unfolding Compare_rank by (rule cmpFloat64_flip)
  show "scalar_Satisfies v op w \<longleftrightarrow> snd (Compare v w) \<and> op_holds op (fst (Compare v w))" for v op w
    by (simp add: scalar_Satisfies_def op_holds_def split_beta)
qed (unfold Compare_rank, rule cmpFloat64_trans)

section \<open>What parsing promises\<close>

lemma scalar_Parse_finite:
  "scalar_Parse s = Some v \<Longrightarrow> rank v \<noteq> PInf \<and> rank v \<noteq> NInf"
  by (auto simp: scalar_Parse_def rank_def split: res_splits)

lemma scalar_Parse_instant:
  assumes "ParseRFC3339 s = Some t" and "in_window t"
  shows "\<exists>v. scalar_Parse s = Some v \<and> rank v = Fin (of_int (unix_ns t))"
  using assms by (simp add: scalar_Parse_def rank_def sint_UnixNano)

lemma scalar_Parse_out_of_window:
  "ParseRFC3339 s = Some t \<Longrightarrow> \<not> in_window t \<Longrightarrow> scalar_Parse s = None"
  by (simp add: scalar_Parse_def)

text \<open>
  C39. Ordering of parsed operands is the exact order of the numbers they stand for, at every width.
  An instant stands for its nanosecond count, which the 64-bit word holds without wrap-around;
  an integer beyond the 53 bits of a float is never rounded to compare it with one; and an
  operand that is not a number satisfies no ordering.
\<close>

theorem scalar_order_exact:
  assumes v: "scalar_Parse s = Some v" and w: "scalar_Parse t = Some w"
  shows "(scalar_Satisfies v OpLe w \<longleftrightarrow> (\<exists>x y. rank v = Fin x \<and> rank w = Fin y \<and> x \<le> y)) \<and>
    (scalar_Satisfies v OpLt w \<longleftrightarrow> (\<exists>x y. rank v = Fin x \<and> rank w = Fin y \<and> x < y)) \<and>
    (scalar_Satisfies v OpGe w \<longleftrightarrow> (\<exists>x y. rank v = Fin x \<and> rank w = Fin y \<and> x \<ge> y)) \<and>
    (scalar_Satisfies v OpGt w \<longleftrightarrow> (\<exists>x y. rank v = Fin x \<and> rank w = Fin y \<and> x > y)) \<and>
    (\<forall>i. ParseRFC3339 s = Some i \<longrightarrow> rank v = Fin (of_int (unix_ns i)) \<and> - (2 ^ 63) \<le> unix_ns i \<and> unix_ns i < 2 ^ 63)"
proof -
  have fin: "rank v \<noteq> PInf" "rank v \<noteq> NInf" "rank w \<noteq> PInf" "rank w \<noteq> NInf"
    using scalar_Parse_finite [OF v] scalar_Parse_finite [OF w] by simp_all
  have ops: "OpLe \<noteq> OpLt" "OpLe \<noteq> OpGe" "OpLe \<noteq> OpGt" "OpLt \<noteq> OpGe" "OpLt \<noteq> OpGt" "OpGe \<noteq> OpGt"
    by (simp_all add: OpLe_def OpLt_def OpGe_def OpGt_def)
  have sat: "scalar_Satisfies v op w \<longleftrightarrow> (\<exists>x y. rank v = Fin x \<and> rank w = Fin y \<and>
      (op = OpLe \<and> x \<le> y \<or> op = OpLt \<and> x < y \<or> op = OpGe \<and> x \<ge> y \<or> op = OpGt \<and> x > y))" for op
    using fin ops by (cases "rank v"; cases "rank w") (auto simp: scalar_Satisfies_def Compare_rank cmpFloat64_def)
  have "rank v = Fin (of_int (unix_ns i)) \<and> - (2 ^ 63) \<le> unix_ns i \<and> unix_ns i < 2 ^ 63" if "ParseRFC3339 s = Some i" for i
  proof -
    have "in_window i" using scalar_Parse_out_of_window [OF that] v by force
    then show ?thesis
      using scalar_Parse_instant [OF that] v sint64_bounds [of "UnixNano i"] by (auto simp: sint_UnixNano)
  qed
  then show ?thesis using ops by (auto simp: sat)
qed

text \<open>An instant against a number.\<close>

theorem scalar_order_exact_witness:
  "\<exists>v w. scalar_Parse ''2026-06-01T00:00:00Z'' = Some v \<and> scalar_Parse ''25.5'' = Some w \<and>
     (scalar_Satisfies v OpGt w \<longleftrightarrow> (\<exists>x y. rank v = Fin x \<and> rank w = Fin y \<and> x > y))"
proof -
  have "\<not> Option.is_none (scalar_Parse ''2026-06-01T00:00:00Z'')" "\<not> Option.is_none (scalar_Parse ''25.5'')"
    by code_simp+
  then obtain v w where "scalar_Parse ''2026-06-01T00:00:00Z'' = Some v" "scalar_Parse ''25.5'' = Some w"
    unfolding Option.is_none_def by auto
  with scalar_order_exact [OF this] show ?thesis by blast
qed

end
