(* ===== verification/Kessa_Types.thy ===== *)
theory Kessa_Types
  imports Scalar
begin

text \<open>
  \<^verbatim>\<open>pkg/types\<close>: principals, actions, decisions, and the one flattening of an action into the
  field map that caveats and policy conditions are both read against.  Attributes (a Go
  map) are an association list read by \<^const>\<open>map_of\<close>.
\<close>

type_synonym PrincipalKind = int

definition KindHuman :: PrincipalKind where "KindHuman = 0"
definition KindOrg :: PrincipalKind where "KindOrg = 1"
definition KindAgent :: PrincipalKind where "KindAgent = 2"
definition KindSubAgent :: PrincipalKind where "KindSubAgent = 3"

definition kind_String :: "PrincipalKind \<Rightarrow> string" where
  "kind_String k =
     (if k = KindHuman then ''human''
      else if k = KindOrg then ''org''
      else if k = KindAgent then ''agent''
      else if k = KindSubAgent then ''sub-agent''
      else ''unknown'')"

record Principal =
  p_DID :: DID
  p_Kind :: PrincipalKind

record Action =
  a_Type :: string
  a_Target :: string
  a_Attributes :: "(string \<times> string) list"
  a_Timestamp :: gotime

record Decision =
  d_Allowed :: bool
  d_Consequential :: bool
  d_RuleFired :: string
  d_PolicyVersion :: string
  d_StatusCheckedHops :: nat
  d_Reason :: string

definition FieldActionType :: string where "FieldActionType = ''action.type''"
definition FieldTarget :: string where "FieldTarget = ''target''"
definition FieldExpiry :: string where "FieldExpiry = ''expiry''"

type_synonym context_map = "string \<rightharpoonup> string"

definition Context :: "Action \<Rightarrow> context_map" where
  "Context a =
     (map_of (a_Attributes a))
       (FieldActionType \<mapsto> a_Type a, FieldTarget \<mapsto> a_Target a,
        FieldExpiry \<mapsto> RFC3339Nano (UTC (a_Timestamp a)))"

section \<open>JSON forms\<close>

definition action_json :: "Action \<Rightarrow> json" where
  "action_json a =
     JObj ([(''type'', JStr (a_Type a)), (''target'', JStr (a_Target a))] @
           omitempty ''attributes'' (a_Attributes a = []) (JMap (a_Attributes a)) @
           [(''timestamp'', JStr (RFC3339Nano (a_Timestamp a)))])"

definition decision_json :: "Decision \<Rightarrow> json" where
  "decision_json d =
     JObj [(''allowed'', JBool (d_Allowed d)), (''consequential'', JBool (d_Consequential d)),
           (''ruleFired'', JStr (d_RuleFired d)), (''policyVersion'', JStr (d_PolicyVersion d)),
           (''statusCheckedHops'', JInt (int (d_StatusCheckedHops d))),
           (''reason'', JStr (d_Reason d))]"

text \<open>
  \<^verbatim>\<open>json.Marshal\<close> of a value that holds an action fails exactly when its timestamp does not
  marshal.
\<close>

definition action_marshals :: "Action \<Rightarrow> bool" where
  "action_marshals a = time_marshals (a_Timestamp a)"

section \<open>Properties\<close>

lemma reserved_fields [simp]:
  "FieldActionType \<noteq> FieldTarget" "FieldActionType \<noteq> FieldExpiry" "FieldTarget \<noteq> FieldExpiry"
  "FieldTarget \<noteq> FieldActionType" "FieldExpiry \<noteq> FieldActionType" "FieldExpiry \<noteq> FieldTarget"
  by (simp_all add: FieldActionType_def FieldTarget_def FieldExpiry_def)

lemma Context_reserved [simp]:
  "Context a FieldActionType = Some (a_Type a)"
  "Context a FieldTarget = Some (a_Target a)"
  "Context a FieldExpiry = Some (RFC3339Nano (UTC (a_Timestamp a)))"
  by (simp_all add: Context_def)

text \<open>
  Equality of actions as the code sees it: a Go map has no order and no duplicate keys, and
  an empty attribute map is not written at all.
\<close>

definition action_eq :: "Action \<Rightarrow> Action \<Rightarrow> bool" where
  "action_eq a b \<longleftrightarrow>
     a_Type a = a_Type b \<and> a_Target a = a_Target b \<and>
     map_of (a_Attributes a) = map_of (a_Attributes b) \<and> a_Timestamp a = a_Timestamp b"

lemma action_eq_Context: "action_eq a b \<Longrightarrow> Context a = Context b"
  by (simp add: action_eq_def Context_def)

text \<open>An action whose strings are valid UTF-8 and whose timestamp is written exactly.\<close>

definition action_clean :: "Action \<Rightarrow> bool" where
  "action_clean a \<longleftrightarrow>
     utf8_valid (a_Type a) \<and> utf8_valid (a_Target a) \<and>
     list_all (\<lambda>(k, v). utf8_valid k \<and> utf8_valid v) (a_Attributes a) \<and>
     time_exact (a_Timestamp a)"

definition decision_clean :: "Decision \<Rightarrow> bool" where
  "decision_clean d \<longleftrightarrow>
     utf8_valid (d_RuleFired d) \<and> utf8_valid (d_PolicyVersion d) \<and> utf8_valid (d_Reason d)"

lemma utf8_valid_literals [simp]: "list_all (\<lambda>c. ord c < 0x80) s \<Longrightarrow> utf8_valid s"
  by (rule utf8_valid_ascii) (simp add: list_all_iff)

lemma json_valid_JMap_clean:
  assumes "list_all (\<lambda>(k, v). utf8_valid k \<and> utf8_valid v) al"
  shows "json_valid (JMap al)"
  unfolding json_valid_JMap
proof
  fix k
  assume "k \<in> fst ` set al"
  then obtain v where v: "map_of al k = Some v" by (metis domD dom_map_of_conv_image_fst)
  with assms show "utf8_valid k \<and> utf8_valid (the (map_of al k))"
    by (auto simp: list_all_iff dest!: map_of_SomeD)
qed

lemma json_valid_action: "action_clean a \<Longrightarrow> json_valid (action_json a)"
  by (simp add: action_clean_def action_json_def omitempty_def json_valid_JMap_clean)

lemma json_valid_decision: "decision_clean d \<Longrightarrow> json_valid (decision_json d)"
  by (simp add: decision_clean_def decision_json_def)

lemma action_json_inject:
  assumes "action_json a = action_json b" and "action_clean a" and "action_clean b"
  shows "action_eq a b"
  using assms RFC3339Nano_inject [of "a_Timestamp a" "a_Timestamp b"]
  by (auto simp: action_json_def action_eq_def action_clean_def omitempty_def dest: JMap_inject
      split: if_splits)

lemma decision_json_inject: "decision_json d = decision_json e \<Longrightarrow> d = (e :: Decision)"
  by (simp add: decision_json_def)

end
