(* ===== verification/Macaroon.thy ===== *)
theory Macaroon
  imports Kessa_Types
begin

text \<open>
  \<^verbatim>\<open>internal/macaroon\<close>: attenuation-first credentials.  A macaroon is a list of caveats, each
  one comparison on a context field, under an HMAC chain.  \<open>Attenuate\<close> and \<open>Extends\<close> accept a
  further caveat only when \<open>narrows\<close> proves it a restriction of every earlier caveat on its
  field.  The HMAC function is the parameter \<open>hm\<close>.  The lemmas show that the narrowing check
  is sound for the comparison semantics, that what \<open>Extends\<close> accepts is exactly what repeated
  \<open>Attenuate\<close> produces, and that the HMAC chain verifies for every macaroon so produced.
\<close>

definition OpEq :: string where "OpEq = ''==''"
definition OpNe :: string where "OpNe = ''!=''"
definition OpIn :: string where "OpIn = ''in''"

lemmas op_defs = OpEq_def OpNe_def OpIn_def order_op_defs

record Caveat =
  c_Field :: string
  c_Op :: string
  c_Value :: string

record Macaroon =
  m_Location :: string
  m_Identifier :: string
  m_Caveats :: "Caveat list"
  m_Signature :: bytes

datatype macaroon_err =
    EmptyField
  | EmptyValue Caveat
  | BoundNotScalar Caveat
  | UnknownOperator Caveat
  | CannotAttenuate Caveat Caveat macaroon_err
  | DoesNotNarrow Caveat Caveat
  | IdentifierMismatch string string
  | FewerCaveats nat nat
  | DivergesAt nat
  | Incomparable Caveat Caveat macaroon_err
  | Broadens Caveat Caveat
  | SignatureMismatch
  | NoContextField Caveat
  | Unsatisfied Caveat string
  | NotAScalar Caveat string
  | UnsupportedParentOp string
  | ParentNotScalar string
  | ChildNotScalar string

section \<open>Helpers\<close>

definition is_order_op :: "string \<Rightarrow> bool" where
  "is_order_op op \<longleftrightarrow> op = OpLe \<or> op = OpLt \<or> op = OpGe \<or> op = OpGt"

lemma is_order_op_simps [simp]:
  "is_order_op OpLe" "is_order_op OpLt" "is_order_op OpGe" "is_order_op OpGt"
  "\<not> is_order_op OpEq" "\<not> is_order_op OpNe" "\<not> is_order_op OpIn"
  by (simp_all add: is_order_op_def op_defs)

lemma ops_distinct [simp]:
  "OpEq \<noteq> OpNe" "OpEq \<noteq> OpIn" "OpNe \<noteq> OpEq" "OpNe \<noteq> OpIn" "OpIn \<noteq> OpEq" "OpIn \<noteq> OpNe"
  by (simp_all add: op_defs)

definition splitSet :: "string \<Rightarrow> string list" where
  "splitSet s = filter (\<lambda>p. p \<noteq> []) (map TrimSpace (Split CHR '','' s))"

definition compareOK :: "string \<Rightarrow> Value \<Rightarrow> Value \<Rightarrow> bool" where
  "compareOK op got want = scalar_Satisfies got op want"

definition US :: char where "US = CHR 0x1F"

definition canonical :: "Caveat \<Rightarrow> bytes" where
  "canonical c = c_Field c @ US # c_Op c @ US # c_Value c"

definition caveat_String :: "Caveat \<Rightarrow> string" where
  "caveat_String c = c_Field c @ '' '' @ c_Op c @ '' '' @ c_Value c"

definition caveat_validate :: "Caveat \<Rightarrow> macaroon_err + unit" where
  "caveat_validate c =
     (if TrimSpace (c_Field c) = [] then Inl EmptyField
      else if c_Op c = OpEq \<or> c_Op c = OpNe \<or> c_Op c = OpIn then
        (if c_Value c = [] then Inl (EmptyValue c) else Inr ())
      else if is_order_op (c_Op c) then
        (if scalar_Parse (c_Value c) = None then Inl (BoundNotScalar c) else Inr ())
      else Inl (UnknownOperator c))"

section \<open>The narrowing check\<close>

definition boundSubset :: "string \<Rightarrow> Value \<Rightarrow> string \<Rightarrow> Value \<Rightarrow> bool \<Rightarrow> bool" where
  "boundSubset childOp childVal parentOp parentVal upper =
     (let (c, ordered) = Compare childVal parentVal;
          childInclusive = (childOp = OpLe \<or> childOp = OpGe);
          parentInclusive = (parentOp = OpLe \<or> parentOp = OpGe)
      in if \<not> ordered then False
         else if c = 0 then \<not> childInclusive \<or> parentInclusive
         else if upper then c < 0 else c > 0)"

definition narrowsBound :: "Caveat \<Rightarrow> Caveat \<Rightarrow> macaroon_err + bool" where
  "narrowsBound parent child =
     (case scalar_Parse (c_Value parent) of
        None \<Rightarrow> Inl (ParentNotScalar (c_Value parent))
      | Some pv \<Rightarrow>
          let parentUpper = (c_Op parent = OpLe \<or> c_Op parent = OpLt) in
          if is_order_op (c_Op child) then
            (case scalar_Parse (c_Value child) of
               None \<Rightarrow> Inl (ChildNotScalar (c_Value child))
             | Some cv \<Rightarrow>
                 let childUpper = (c_Op child = OpLe \<or> c_Op child = OpLt) in
                 if parentUpper \<noteq> childUpper then Inr False
                 else Inr (boundSubset (c_Op child) cv (c_Op parent) pv parentUpper))
          else if c_Op child = OpEq then
            (case scalar_Parse (c_Value child) of
               None \<Rightarrow> Inr False
             | Some cv \<Rightarrow> Inr (compareOK (c_Op parent) cv pv))
          else if c_Op child = OpIn then
            Inr (list_all
                   (\<lambda>m. case scalar_Parse m of
                          None \<Rightarrow> False | Some cv \<Rightarrow> compareOK (c_Op parent) cv pv)
                   (splitSet (c_Value child)))
          else Inr False)"

definition narrowsSet :: "Caveat \<Rightarrow> Caveat \<Rightarrow> macaroon_err + bool" where
  "narrowsSet parent child =
     (let members = splitSet (c_Value parent) in
      if c_Op child = OpEq then Inr (c_Value child \<in> set members)
      else if c_Op child = OpIn then
        Inr (list_all (\<lambda>m. m \<in> set members) (splitSet (c_Value child)))
      else Inr False)"

definition narrows :: "Caveat \<Rightarrow> Caveat \<Rightarrow> macaroon_err + bool" where
  "narrows parent child =
     (if is_order_op (c_Op parent) then narrowsBound parent child
      else if c_Op parent = OpEq then
        Inr (c_Op child = OpEq \<and> c_Value child = c_Value parent)
      else if c_Op parent = OpNe then
        Inr (c_Op child = OpNe \<and> c_Value child = c_Value parent)
      else if c_Op parent = OpIn then narrowsSet parent child
      else Inl (UnsupportedParentOp (c_Op parent)))"

section \<open>Construction and delegation\<close>

definition Mint :: "(bytes \<Rightarrow> bytes \<Rightarrow> bytes) \<Rightarrow> bytes \<Rightarrow> string \<Rightarrow> string \<Rightarrow> Macaroon" where
  "Mint hm rootKey identifier location =
     \<lparr>m_Location = location, m_Identifier = identifier, m_Caveats = [],
      m_Signature = hm rootKey identifier\<rparr>"

text \<open>
  The loop both \<open>Attenuate\<close> and \<open>Extends\<close> run: the new caveat against every earlier caveat on
  its field.  The two callers differ in the errors they report.
\<close>

fun narrows_all ::
  "(Caveat \<Rightarrow> Caveat \<Rightarrow> macaroon_err \<Rightarrow> macaroon_err) \<Rightarrow> (Caveat \<Rightarrow> Caveat \<Rightarrow> macaroon_err) \<Rightarrow>
   Caveat list \<Rightarrow> Caveat \<Rightarrow> macaroon_err + unit" where
  "narrows_all inc broad [] c = Inr ()"
| "narrows_all inc broad (e # es) c =
     (if c_Field e \<noteq> c_Field c then narrows_all inc broad es c
      else case narrows e c of
          Inl err \<Rightarrow> Inl (inc c e err)
        | Inr ok \<Rightarrow> if \<not> ok then Inl (broad c e) else narrows_all inc broad es c)"

definition Attenuate ::
  "(bytes \<Rightarrow> bytes \<Rightarrow> bytes) \<Rightarrow> Macaroon \<Rightarrow> Caveat \<Rightarrow> macaroon_err + Macaroon" where
  "Attenuate hm m c =
     (case caveat_validate c of
        Inl e \<Rightarrow> Inl e
      | Inr _ \<Rightarrow>
          (case narrows_all CannotAttenuate DoesNotNarrow (m_Caveats m) c of
             Inl e \<Rightarrow> Inl e
           | Inr _ \<Rightarrow>
               Inr \<lparr>m_Location = m_Location m, m_Identifier = m_Identifier m,
                    m_Caveats = m_Caveats m @ [c],
                    m_Signature = hm (m_Signature m) (canonical c)\<rparr>))"

fun first_divergence :: "nat \<Rightarrow> Caveat list \<Rightarrow> Caveat list \<Rightarrow> nat option" where
  "first_divergence i (p # ps) (c # cs) =
     (if c \<noteq> p then Some i else first_divergence (Suc i) ps cs)"
| "first_divergence i _ _ = None"

fun extends_loop :: "Caveat list \<Rightarrow> Caveat list \<Rightarrow> macaroon_err + unit" where
  "extends_loop acc [] = Inr ()"
| "extends_loop acc (c # cs) =
     (case caveat_validate c of
        Inl e \<Rightarrow> Inl e
      | Inr _ \<Rightarrow>
          (case narrows_all Incomparable Broadens acc c of
             Inl e \<Rightarrow> Inl e
           | Inr _ \<Rightarrow> extends_loop (acc @ [c]) cs))"

definition Extends :: "Macaroon \<Rightarrow> Macaroon \<Rightarrow> macaroon_err + unit" where
  "Extends m parent =
     (if m_Identifier m \<noteq> m_Identifier parent then
        Inl (IdentifierMismatch (m_Identifier m) (m_Identifier parent))
      else if length (m_Caveats m) < length (m_Caveats parent) then
        Inl (FewerCaveats (length (m_Caveats m)) (length (m_Caveats parent)))
      else case first_divergence 0 (m_Caveats parent) (m_Caveats m) of
          Some i \<Rightarrow> Inl (DivergesAt i)
        | None \<Rightarrow>
            extends_loop (m_Caveats parent) (drop (length (m_Caveats parent)) (m_Caveats m)))"

section \<open>Verification\<close>

definition satisfied :: "Caveat \<Rightarrow> context_map \<Rightarrow> macaroon_err + unit" where
  "satisfied c ctx =
     (case ctx (c_Field c) of
        None \<Rightarrow> Inl (NoContextField c)
      | Some got \<Rightarrow>
          if c_Op c = OpEq then
            (if got = c_Value c then Inr () else Inl (Unsatisfied c got))
          else if c_Op c = OpNe then
            (if got \<noteq> c_Value c then Inr () else Inl (Unsatisfied c got))
          else if is_order_op (c_Op c) then
            (case (scalar_Parse got, scalar_Parse (c_Value c)) of
               (Some gs, Some vs) \<Rightarrow>
                 if compareOK (c_Op c) gs vs then Inr () else Inl (Unsatisfied c got)
             | _ \<Rightarrow> Inl (NotAScalar c got))
          else if c_Op c = OpIn then
            (if got \<in> set (splitSet (c_Value c)) then Inr () else Inl (Unsatisfied c got))
          else Inl (Unsatisfied c got))"

fun satisfies_all :: "Caveat list \<Rightarrow> context_map \<Rightarrow> macaroon_err + unit" where
  "satisfies_all [] ctx = Inr ()"
| "satisfies_all (c # cs) ctx =
     (case satisfied c ctx of Inl e \<Rightarrow> Inl e | Inr _ \<Rightarrow> satisfies_all cs ctx)"

definition Macaroon_Satisfies :: "Macaroon \<Rightarrow> context_map \<Rightarrow> macaroon_err + unit" where
  "Macaroon_Satisfies m ctx = satisfies_all (m_Caveats m) ctx"

definition hmac_chain :: "(bytes \<Rightarrow> bytes \<Rightarrow> bytes) \<Rightarrow> bytes \<Rightarrow> Caveat list \<Rightarrow> bytes" where
  "hmac_chain hm sig cs = foldl (\<lambda>s c. hm s (canonical c)) sig cs"

definition Macaroon_Verify ::
  "(bytes \<Rightarrow> bytes \<Rightarrow> bytes) \<Rightarrow> Macaroon \<Rightarrow> bytes \<Rightarrow> context_map \<Rightarrow> macaroon_err + unit" where
  "Macaroon_Verify hm m rootKey ctx =
     (if hmac_chain hm (hm rootKey (m_Identifier m)) (m_Caveats m) \<noteq> m_Signature m
      then Inl SignatureMismatch
      else Macaroon_Satisfies m ctx)"

section \<open>Soundness of narrowing\<close>

lemma satisfied_order:
  "is_order_op (c_Op c) \<Longrightarrow>
     is_ok (satisfied c ctx) \<longleftrightarrow>
       (\<exists>got gs vs. ctx (c_Field c) = Some got \<and> scalar_Parse got = Some gs \<and>
          scalar_Parse (c_Value c) = Some vs \<and> scalar_Satisfies gs (c_Op c) vs)"
  by (auto simp: satisfied_def compareOK_def is_order_op_def op_defs split: res_splits)

lemma satisfied_eq:
  "c_Op c = OpEq \<Longrightarrow> is_ok (satisfied c ctx) \<longleftrightarrow> ctx (c_Field c) = Some (c_Value c)"
  by (auto simp: satisfied_def split: res_splits)

lemma satisfied_ne:
  "c_Op c = OpNe \<Longrightarrow>
     is_ok (satisfied c ctx) \<longleftrightarrow> (\<exists>got. ctx (c_Field c) = Some got \<and> got \<noteq> c_Value c)"
  by (auto simp: satisfied_def split: res_splits)

lemma satisfied_in:
  "c_Op c = OpIn \<Longrightarrow>
     is_ok (satisfied c ctx) \<longleftrightarrow>
       (\<exists>got. ctx (c_Field c) = Some got \<and> got \<in> set (splitSet (c_Value c)))"
  by (auto simp: satisfied_def split: res_splits)

lemmas satisfied_simps = satisfied_order satisfied_eq satisfied_ne satisfied_in

lemma boundSubset_sound:
  assumes "boundSubset cop cv pop pv (pop = OpLe \<or> pop = OpLt)"
    and "is_order_op cop" and "is_order_op pop"
    and "(pop = OpLe \<or> pop = OpLt) = (cop = OpLe \<or> cop = OpLt)"
    and "scalar_Satisfies x cop cv"
  shows "scalar_Satisfies x pop pv"
proof (cases "pop = OpLe \<or> pop = OpLt")
  case True
  then show ?thesis
    using assms
    by (intro scalar.upper_contained [of x cop cv pop pv])
       (auto simp: boundSubset_def split_beta Let_def split: if_splits)
next
  case False
  with assms(2-4) have "cop \<in> {OpGe, OpGt}" "pop \<in> {OpGe, OpGt}" by (auto simp: is_order_op_def)
  then show ?thesis
    using assms(1,5) False
    by (intro scalar.lower_contained [of x cop cv pop pv])
       (auto simp: boundSubset_def split_beta Let_def split: if_splits)
qed

lemma narrowsBound_sound:
  assumes "narrowsBound p c = Inr True" and "is_order_op (c_Op p)" and "c_Field c = c_Field p"
    and "is_ok (satisfied c ctx)"
  shows "is_ok (satisfied p ctx)"
proof -
  from assms(1) obtain pv where pv: "scalar_Parse (c_Value p) = Some pv"
    by (auto simp: narrowsBound_def split: option.splits)
  consider (ord) "is_order_op (c_Op c)" | (eq) "c_Op c = OpEq" | (in') "c_Op c = OpIn"
    using assms(1) pv by (auto simp: narrowsBound_def Let_def split: if_splits)
  then show ?thesis
  proof cases
    case ord
    with assms pv show ?thesis
      by (auto simp: narrowsBound_def satisfied_order Let_def split: option.splits if_splits
          intro: boundSubset_sound)
  next
    case eq
    with assms pv show ?thesis
      by (auto simp: narrowsBound_def satisfied_simps compareOK_def Let_def split: option.splits)
  next
    case in'
    with assms pv show ?thesis
      by (fastforce simp: narrowsBound_def satisfied_simps compareOK_def Let_def list_all_iff
          split: option.splits)
  qed
qed

lemma narrows_sound:
  assumes "narrows p c = Inr True" and "c_Field c = c_Field p" and "is_ok (satisfied c ctx)"
  shows "is_ok (satisfied p ctx)"
proof (cases "is_order_op (c_Op p)")
  case True
  with assms show ?thesis by (auto simp: narrows_def intro: narrowsBound_sound)
next
  case False
  with assms show ?thesis
    by (auto simp: narrows_def narrowsSet_def satisfied_simps list_all_iff Let_def
        split: if_splits)
qed

lemma narrows_all_ok:
  "is_ok (narrows_all inc broad es c) \<longleftrightarrow>
     (\<forall>e \<in> set es. c_Field e = c_Field c \<longrightarrow> narrows e c = Inr True)"
  by (induction es) (auto split: sum.splits)

lemma satisfies_all_ok:
  "is_ok (satisfies_all cs ctx) \<longleftrightarrow> (\<forall>c \<in> set cs. is_ok (satisfied c ctx))"
  by (induction cs) (auto split: sum.splits)

section \<open>Attenuation\<close>

text \<open>
  \<open>narrow_chain\<close> is the invariant of a macaroon's caveat list: every caveat is valid and
  narrows every earlier caveat on its field.
\<close>

fun narrow_chain :: "Caveat list \<Rightarrow> Caveat list \<Rightarrow> bool" where
  "narrow_chain acc [] = True"
| "narrow_chain acc (c # cs) \<longleftrightarrow>
     is_ok (caveat_validate c) \<and>
     (\<forall>e \<in> set acc. c_Field e = c_Field c \<longrightarrow> narrows e c = Inr True) \<and>
     narrow_chain (acc @ [c]) cs"

lemma extends_loop_ok: "is_ok (extends_loop acc cs) \<longleftrightarrow> narrow_chain acc cs"
proof (induction cs arbitrary: acc)
  case (Cons c cs)
  show ?case
    using Cons.IH [of "acc @ [c]"] narrows_all_ok [of Incomparable Broadens acc c] by auto
qed simp

lemma narrow_chain_append:
  "narrow_chain acc (cs @ ds) \<longleftrightarrow> narrow_chain acc cs \<and> narrow_chain (acc @ cs) ds"
  by (induction cs arbitrary: acc) auto

lemma first_divergence_None:
  "length ps \<le> length cs \<Longrightarrow>
     first_divergence i ps cs = None \<longleftrightarrow> take (length ps) cs = ps"
  by (induction i ps cs rule: first_divergence.induct) auto

lemma Extends_ok:
  "is_ok (Extends m p) \<longleftrightarrow>
     m_Identifier m = m_Identifier p \<and>
     (\<exists>cs. m_Caveats m = m_Caveats p @ cs \<and> narrow_chain (m_Caveats p) cs)"
proof -
  have "first_divergence 0 (m_Caveats p) (m_Caveats m) = None \<longleftrightarrow>
      (\<exists>cs. m_Caveats m = m_Caveats p @ cs)" if "length (m_Caveats p) \<le> length (m_Caveats m)"
    using first_divergence_None [OF that] by (metis append_eq_conv_conj append_take_drop_id)
  then show ?thesis
    by (auto simp: Extends_def not_less extends_loop_ok split: if_splits option.splits)
qed

lemma Extends_refl: "is_ok (Extends m m)"
  by (simp add: Extends_ok)

lemma Extends_trans: "is_ok (Extends m p) \<Longrightarrow> is_ok (Extends p q) \<Longrightarrow> is_ok (Extends m q)"
  by (auto simp: Extends_ok narrow_chain_append)

lemma Extends_Satisfies:
  "is_ok (Extends m p) \<Longrightarrow> is_ok (Macaroon_Satisfies m ctx) \<Longrightarrow> is_ok (Macaroon_Satisfies p ctx)"
  by (auto simp: Extends_ok Macaroon_Satisfies_def satisfies_all_ok)

lemma Attenuate_ok:
  "Attenuate hm m c = Inr m' \<longleftrightarrow>
     is_ok (caveat_validate c) \<and>
     (\<forall>e \<in> set (m_Caveats m). c_Field e = c_Field c \<longrightarrow> narrows e c = Inr True) \<and>
     m' = \<lparr>m_Location = m_Location m, m_Identifier = m_Identifier m,
           m_Caveats = m_Caveats m @ [c], m_Signature = hm (m_Signature m) (canonical c)\<rparr>"
  using narrows_all_ok [of CannotAttenuate DoesNotNarrow "m_Caveats m" c]
  by (auto simp: Attenuate_def)

lemma Attenuate_Extends: "Attenuate hm m c = Inr m' \<Longrightarrow> is_ok (Extends m' m)"
  by (auto simp: Attenuate_ok Extends_ok)

text \<open>A sequence of attenuations, stopping at the first refusal.\<close>

fun attenuate_all ::
  "(bytes \<Rightarrow> bytes \<Rightarrow> bytes) \<Rightarrow> Macaroon \<Rightarrow> Caveat list \<Rightarrow> macaroon_err + Macaroon" where
  "attenuate_all hm m [] = Inr m"
| "attenuate_all hm m (c # cs) =
     (case Attenuate hm m c of Inl e \<Rightarrow> Inl e | Inr m' \<Rightarrow> attenuate_all hm m' cs)"

lemma attenuate_all_ok:
  "attenuate_all hm m cs = Inr m' \<longleftrightarrow>
     narrow_chain (m_Caveats m) cs \<and>
     m' = m\<lparr>m_Caveats := m_Caveats m @ cs, m_Signature := hmac_chain hm (m_Signature m) cs\<rparr>"
proof (induction cs arbitrary: m)
  case Nil
  then show ?case by (auto simp: hmac_chain_def)
next
  case (Cons c cs)
  show ?case
    by (auto simp: bind_Inr_iff Cons.IH Attenuate_ok hmac_chain_def)
qed

text \<open>The macaroons an issuer and its delegates can produce from a root key.\<close>

inductive minted :: "(bytes \<Rightarrow> bytes \<Rightarrow> bytes) \<Rightarrow> bytes \<Rightarrow> Macaroon \<Rightarrow> bool"
  for hm :: "bytes \<Rightarrow> bytes \<Rightarrow> bytes" and rootKey :: bytes where
  mint: "minted hm rootKey (Mint hm rootKey ident loc)"
| attenuate: "minted hm rootKey m \<Longrightarrow> Attenuate hm m c = Inr m' \<Longrightarrow> minted hm rootKey m'"

lemma minted_invariant:
  "minted hm rootKey m \<Longrightarrow>
     narrow_chain [] (m_Caveats m) \<and>
     m_Signature m = hmac_chain hm (hm rootKey (m_Identifier m)) (m_Caveats m)"
proof (induction rule: minted.induct)
  case (mint ident loc)
  then show ?case by (simp add: Mint_def hmac_chain_def)
next
  case (attenuate m c m')
  then show ?case by (auto simp: Attenuate_ok narrow_chain_append hmac_chain_def)
qed

text \<open>The caveats no later caveat on the same field replaces.\<close>

fun effective :: "Caveat list \<Rightarrow> Caveat list" where
  "effective [] = []"
| "effective (c # cs) =
     (if list_ex (\<lambda>d. c_Field d = c_Field c) cs then effective cs else c # effective cs)"

lemma narrow_chain_later:
  "narrow_chain acc cs \<Longrightarrow> d \<in> set cs \<Longrightarrow> e \<in> set acc \<Longrightarrow> c_Field e = c_Field d \<Longrightarrow>
     narrows e d = Inr True"
  by (induction cs arbitrary: acc) auto

lemma effective_decides:
  "narrow_chain acc cs \<Longrightarrow>
     (\<forall>c \<in> set cs. is_ok (satisfied c ctx)) \<longleftrightarrow> (\<forall>c \<in> set (effective cs). is_ok (satisfied c ctx))"
proof (induction cs arbitrary: acc)
  case (Cons c cs)
  note IH = Cons.IH [of "acc @ [c]"]
  from Cons.prems have ch: "narrow_chain (acc @ [c]) cs" by simp
  show ?case
  proof (cases "list_ex (\<lambda>d. c_Field d = c_Field c) cs")
    case True
    then obtain d where d: "d \<in> set cs" "c_Field d = c_Field c" by (auto simp: list_ex_iff)
    with narrow_chain_later [OF ch] have "narrows c d = Inr True" by simp
    with narrows_sound d have "is_ok (satisfied d ctx) \<Longrightarrow> is_ok (satisfied c ctx)" by metis
    with IH [OF ch] True d(1) show ?thesis by auto
  next
    case False
    with IH [OF ch] show ?thesis by simp
  qed
qed simp

section \<open>The serialization under the HMAC\<close>

lemma valid_op_no_US: "is_ok (caveat_validate c) \<Longrightarrow> US \<notin> set (c_Op c)"
  by (auto simp: caveat_validate_def is_order_op_def op_defs US_def split: if_splits)

lemma canonical_inject:
  assumes "canonical c = canonical d" and "is_ok (caveat_validate c)" and "is_ok (caveat_validate d)"
    and "US \<notin> set (c_Field c)" and "US \<notin> set (c_Field d)"
  shows "c = d"
proof -
  from assms(1,4,5) have "c_Field c = c_Field d" and
    "c_Op c @ US # c_Value c = c_Op d @ US # c_Value d"
    by (auto simp: canonical_def dest: sep_inject)
  with valid_op_no_US [OF assms(2)] valid_op_no_US [OF assms(3)] show ?thesis
    by (auto dest: sep_inject)
qed

section \<open>The attenuation interface\<close>

locale attenuation =
  fixes ext :: "'m \<Rightarrow> 'm \<Rightarrow> bool"
    and allows :: "'m \<Rightarrow> 'c \<Rightarrow> bool"
  assumes ext_refl: "ext m m"
    and ext_trans: "ext m p \<Longrightarrow> ext p q \<Longrightarrow> ext m q"
    and ext_allows: "ext m p \<Longrightarrow> allows m ctx \<Longrightarrow> allows p ctx"
begin

lemma last_extends:
  assumes "successively (\<lambda>p m. ext m p) ms" and "x \<in> set ms"
  shows "ext (last ms) x"
  using assms
proof (induction ms arbitrary: x rule: induct_list012)
  case (3 y z ms)
  then have IH: "\<And>x. x \<in> set (z # ms) \<Longrightarrow> ext (last (z # ms)) x" and "ext z y" by auto
  then have "ext (last (z # ms)) y" using ext_trans by fastforce
  with IH 3(4) show ?case by auto
qed (auto simp: ext_refl)

lemma terminal_allows:
  "successively (\<lambda>p m. ext m p) ms \<Longrightarrow> allows (last ms) ctx \<Longrightarrow> x \<in> set ms \<Longrightarrow> allows x ctx"
  using last_extends ext_allows by blast

end

interpretation macaroon: attenuation
  "\<lambda>m p. is_ok (Extends m p)" "\<lambda>m ctx. is_ok (Macaroon_Satisfies m ctx)"
  by unfold_locales (auto intro: Extends_refl Extends_trans Extends_Satisfies)

section \<open>Properties\<close>

text \<open>
  C21. The newest caveat on each field is the authority: in a macaroon produced from a root
  key by any sequence of attenuations, a context satisfies all caveats exactly when it
  satisfies, for every field, the last caveat on that field, because each one was accepted
  only as a restriction of the earlier ones.
\<close>

theorem newest_caveat_decides:
  assumes "minted hm rootKey m"
  shows "is_ok (Macaroon_Satisfies m ctx) \<longleftrightarrow>
    (\<forall>c. c \<in> set (effective (m_Caveats m)) \<longrightarrow> is_ok (satisfied c ctx))"
  using effective_decides [of "[]" "m_Caveats m" ctx] minted_invariant [OF assms]
  by (simp add: Macaroon_Satisfies_def satisfies_all_ok Ball_def)

definition country_caveat :: "string \<Rightarrow> string \<Rightarrow> Caveat" where
  "country_caveat op v = \<lparr>c_Field = ''country'', c_Op = op, c_Value = v\<rparr>"

theorem newest_caveat_decides_witness:
  "\<exists>m. attenuate_all (@) (Mint (@) ''k'' ''id'' ''loc'')
         [country_caveat OpIn ''us,eu'', country_caveat OpEq ''eu''] = Inr m \<and>
       minted (@) ''k'' m \<and>
       is_ok (Macaroon_Satisfies m [''country'' \<mapsto> ''eu''])"
proof -
  let ?m0 = "Mint (@) ''k'' ''id'' ''loc''"
  let ?c1 = "country_caveat OpIn ''us,eu''" and ?c2 = "country_caveat OpEq ''eu''"
  have set: "splitSet ''us,eu'' = [''us'', ''eu'']"
    by (simp add: splitSet_def trim_eval)
  have blank: "TrimSpace ''country'' \<noteq> []"
    by (simp add: trim_eval)
  obtain m1 where m1: "Attenuate (@) ?m0 ?c1 = Inr m1"
    by (simp add: Attenuate_ok country_caveat_def caveat_validate_def blank Mint_def)
  then obtain m2 where m2: "Attenuate (@) m1 ?c2 = Inr m2"
    by (auto simp: Attenuate_ok country_caveat_def caveat_validate_def blank Mint_def
        narrows_def narrowsSet_def set)
  have minted: "minted (@) ''k'' m2"
    using minted.attenuate [OF minted.attenuate [OF minted.mint m1] m2] .
  have "m_Caveats m2 = [?c1, ?c2]" using m1 m2 by (auto simp: Attenuate_ok Mint_def)
  then have "effective (m_Caveats m2) = [?c2]" by (simp add: country_caveat_def)
  then have "is_ok (Macaroon_Satisfies m2 [''country'' \<mapsto> ''eu''])"
    using newest_caveat_decides [OF minted, of "[''country'' \<mapsto> ''eu'']"]
    by (simp add: satisfied_def country_caveat_def)
  with m1 m2 minted show ?thesis by auto
qed

text \<open>
  C22. The key-free check and delegation agree: \<open>Extends\<close> accepts a macaroon as a child of
  another exactly when it carries the same identifier and its caveats are what some sequence
  of \<open>Attenuate\<close> calls on the parent produces.
\<close>

theorem Extends_iff_attenuated:
  "is_ok (Extends m p) \<longleftrightarrow>
     m_Identifier m = m_Identifier p \<and>
     (\<exists>cs m'. attenuate_all hm p cs = Inr m' \<and> m_Caveats m' = m_Caveats m)"
  by (auto simp: Extends_ok attenuate_all_ok) metis

text \<open>
  The HMAC chain of every macaroon produced from a root key verifies under that key, so
  \<open>Macaroon_Verify\<close> then fails only where a caveat does.
\<close>

theorem minted_verifies:
  "minted hm rootKey m \<Longrightarrow> Macaroon_Verify hm m rootKey ctx = Macaroon_Satisfies m ctx"
  using minted_invariant [of hm rootKey m] by (simp add: Macaroon_Verify_def)

theorem minted_verifies_witness:
  "Macaroon_Verify (@) (Mint (@) ''k'' ''id'' ''loc'') ''k'' Map.empty = Inr ()"
  using minted_verifies [OF minted.mint [of "(@)" "''k''" "''id''" "''loc''"], of Map.empty]
  by (simp add: Macaroon_Satisfies_def Mint_def)

text \<open>
  The serialization under the HMAC is ambiguous: two different caveats, both accepted by
  \<open>caveat_validate\<close>, have the same canonical bytes, because a field or a value may itself
  contain the unit separator.
\<close>

theorem canonical_ambiguous:
  "\<exists>c d. c \<noteq> d \<and> is_ok (caveat_validate c) \<and> is_ok (caveat_validate d) \<and>
     canonical c = canonical d"
proof -
  let ?c = "\<lparr>c_Field = ''a'', c_Op = OpEq, c_Value = ''b'' @ US # OpEq @ US # ''c''\<rparr>"
  let ?d = "\<lparr>c_Field = ''a'' @ US # OpEq @ US # ''b'', c_Op = OpEq, c_Value = ''c''\<rparr>"
  have "TrimSpace ''a'' \<noteq> []" "TrimSpace (''a'' @ US # OpEq @ US # ''b'') \<noteq> []"
    by (simp_all add: trim_eval OpEq_def US_def)
  then have "is_ok (caveat_validate ?c)" "is_ok (caveat_validate ?d)"
    by (simp_all add: caveat_validate_def)
  moreover have "canonical ?c = canonical ?d" "?c \<noteq> ?d"
    by (simp_all add: canonical_def OpEq_def)
  ultimately show ?thesis by (intro exI [of _ ?c] exI [of _ ?d] conjI)
qed

end
