(* ===== verification/Signer.thy ===== *)
theory Signer
  imports Kessa_Types
begin

text \<open>
  \<^verbatim>\<open>internal/signer\<close>: the two signature algorithms and the one verification primitive.  The
  primitives of Go's \<^verbatim>\<open>crypto\<close> packages are the fields of a record \<open>crypto\<close> that the definitions
  take as a parameter; \<open>crypto_laws\<close> states what the documentation of those packages
  promises.  A \<open>Signer\<close> is its DID, its public key and its \<^verbatim>\<open>Sign\<close> method.  The lemmas show
  that a signature the two in-memory signers make verifies, and that the deterministic byte
  stream behind seeded keys does not depend on how it is read.
\<close>

datatype curve = P256 | OtherCurve

datatype public_key = Ed25519Key bytes | ECDSAKey curve nat nat | UnknownKey

record crypto =
  sha256 :: "bytes \<Rightarrow> bytes"
  hmac_sha256 :: "bytes \<Rightarrow> bytes \<Rightarrow> bytes"
  ed25519_from_seed :: "bytes \<Rightarrow> bytes"
  ed25519_public :: "bytes \<Rightarrow> bytes"
  ed25519_sign :: "bytes \<Rightarrow> bytes \<Rightarrow> bytes"
  ed25519_verify :: "bytes \<Rightarrow> bytes \<Rightarrow> bytes \<Rightarrow> bool"
  p256_import :: "bytes \<Rightarrow> (nat \<times> nat) option"
  p256_on_curve :: "nat \<Rightarrow> nat \<Rightarrow> bool"
  p256_sign :: "bytes \<Rightarrow> bytes \<Rightarrow> bytes"
  p256_verify :: "nat \<times> nat \<Rightarrow> bytes \<Rightarrow> bytes \<Rightarrow> bool"

definition crypto_laws :: "crypto \<Rightarrow> bool" where
  "crypto_laws C \<longleftrightarrow>
     (\<forall>m. length (sha256 C m) = 32) \<and>
     (\<forall>seed. length seed = 32 \<longrightarrow> length (ed25519_public C (ed25519_from_seed C seed)) = 32) \<and>
     (\<forall>priv m. ed25519_verify C (ed25519_public C priv) m (ed25519_sign C priv m)) \<and>
     (\<forall>d pt m. p256_import C d = Some pt \<longrightarrow> p256_verify C pt m (p256_sign C d m))"

record Signer =
  s_DID :: DID
  s_Public :: public_key
  s_Sign :: "bytes \<Rightarrow> bytes option"

section \<open>Verification\<close>

definition Signer_Verify :: "crypto \<Rightarrow> public_key \<Rightarrow> bytes \<Rightarrow> bytes \<Rightarrow> bool" where
  "Signer_Verify C pub data sig =
     (case pub of
        Ed25519Key k \<Rightarrow> if length k \<noteq> 32 then False else ed25519_verify C k data sig
      | ECDSAKey cv x y \<Rightarrow>
          if cv \<noteq> P256 then False else p256_verify C (x, y) (sha256 C data) sig
      | UnknownKey \<Rightarrow> False)"

definition KeysEqual :: "public_key option \<Rightarrow> public_key option \<Rightarrow> bool" where
  "KeysEqual a b =
     (case (a, b) of
        (Some (Ed25519Key k), Some (Ed25519Key l)) \<Rightarrow> k = l
      | (Some (ECDSAKey c x y), Some (ECDSAKey c' x' y')) \<Rightarrow> c = c' \<and> x = x' \<and> y = y'
      | _ \<Rightarrow> False)"

section \<open>In-memory signers\<close>

definition NewSoftwareSignerFromSeed :: "crypto \<Rightarrow> DID \<Rightarrow> bytes \<Rightarrow> Signer option" where
  "NewSoftwareSignerFromSeed C d seed =
     (if length seed \<noteq> 32 then None
      else let priv = ed25519_from_seed C seed in
        Some \<lparr>s_DID = d, s_Public = Ed25519Key (ed25519_public C priv),
              s_Sign = (\<lambda>data. Some (ed25519_sign C priv data))\<rparr>)"

record seededReader =
  r_seed :: bytes
  r_counter :: u64
  r_buf :: bytes

text \<open>
  \<^verbatim>\<open>Read\<close> fills a buffer of \<open>n\<close> bytes.  Each block holds 32 bytes; the recursion is on the
  bytes still wanted and stops early only for a hash that returns no bytes.
\<close>

function seeded_read :: "crypto \<Rightarrow> nat \<Rightarrow> seededReader \<Rightarrow> bytes \<times> seededReader" where
  "seeded_read C n r =
     (if n = 0 then ([], r)
      else let r' = (if r_buf r = [] then
                       r\<lparr>r_buf := sha256 C (r_seed r @ be64 (r_counter r)), r_counter := r_counter r + 1\<rparr>
                     else r);
               m = min n (length (r_buf r'))
           in if m = 0 then ([], r')
              else let (out, r'') = seeded_read C (n - m) (r'\<lparr>r_buf := drop m (r_buf r')\<rparr>)
                   in (take m (r_buf r') @ out, r''))"
  by pat_completeness auto
termination
  by (relation "measure (\<lambda>(C, n, r). n)") (auto split: if_splits)

declare seeded_read.simps [simp del]

fun derive_p256 :: "crypto \<Rightarrow> nat \<Rightarrow> seededReader \<Rightarrow> (bytes \<times> nat \<times> nat) option" where
  "derive_p256 C 0 r = None"
| "derive_p256 C (Suc attempts) r =
     (let (d, r') = seeded_read C 32 r in
      case p256_import C d of
        None \<Rightarrow> derive_p256 C attempts r'
      | Some (x, y) \<Rightarrow> Some (d, x, y))"

definition NewECDSASignerFromSeed :: "crypto \<Rightarrow> DID \<Rightarrow> bytes \<Rightarrow> Signer option" where
  "NewECDSASignerFromSeed C d seed =
     (if length seed \<noteq> 32 then None
      else case derive_p256 C 128 \<lparr>r_seed = seed, r_counter = 0, r_buf = []\<rparr> of
          None \<Rightarrow> None
        | Some (priv, x, y) \<Rightarrow>
            Some \<lparr>s_DID = d, s_Public = ECDSAKey P256 x y,
                  s_Sign = (\<lambda>data. Some (p256_sign C priv (sha256 C data)))\<rparr>)"

section \<open>Properties\<close>

text \<open>What every caller of a signer relies on: the signatures it makes verify.\<close>

definition signer_ok :: "crypto \<Rightarrow> Signer \<Rightarrow> bool" where
  "signer_ok C s \<longleftrightarrow>
     (\<forall>data sig. s_Sign s data = Some sig \<longrightarrow> Signer_Verify C (s_Public s) data sig)"

lemma signer_okD: "signer_ok C s \<Longrightarrow> s_Sign s data = Some sig \<Longrightarrow> Signer_Verify C (s_Public s) data sig"
  by (simp add: signer_ok_def)

lemma KeysEqual_iff:
  "KeysEqual a b \<longleftrightarrow> a = b \<and> a \<noteq> None \<and> a \<noteq> Some UnknownKey"
  by (cases a; cases b)
     (auto simp: KeysEqual_def split: public_key.splits)

lemma derive_p256_imports:
  "derive_p256 C n r = Some (d, x, y) \<Longrightarrow> p256_import C d = Some (x, y)"
  by (induction n arbitrary: r) (auto simp: split_beta Let_def split: option.splits prod.splits)

lemma SoftwareSigner_ok:
  "crypto_laws C \<Longrightarrow> NewSoftwareSignerFromSeed C d seed = Some s \<Longrightarrow> signer_ok C s"
  by (auto simp: NewSoftwareSignerFromSeed_def crypto_laws_def signer_ok_def Signer_Verify_def
      Let_def split: if_splits)

lemma ECDSASigner_ok:
  "crypto_laws C \<Longrightarrow> NewECDSASignerFromSeed C d seed = Some s \<Longrightarrow> signer_ok C s"
  by (auto simp: NewECDSASignerFromSeed_def crypto_laws_def signer_ok_def Signer_Verify_def
      split: if_splits option.splits dest!: derive_p256_imports)

text \<open>
  The stream behind a seeded key depends only on the seed and on how many bytes were drawn:
  two reads in a row return what one read of their total length does.
\<close>

definition refill :: "crypto \<Rightarrow> seededReader \<Rightarrow> seededReader" where
  "refill C r =
     (if r_buf r = [] then
        r\<lparr>r_buf := sha256 C (r_seed r @ be64 (r_counter r)), r_counter := r_counter r + 1\<rparr>
      else r)"

lemma refill_buf [simp]: "r_buf r \<noteq> [] \<Longrightarrow> refill C r = r"
  by (simp add: refill_def)

lemma refill_nonempty: "(\<And>m. sha256 C m \<noteq> []) \<Longrightarrow> r_buf (refill C r) \<noteq> []"
  by (simp add: refill_def)

lemma seeded_read_step:
  assumes "\<And>m. sha256 C m \<noteq> []" and "0 < n" and "k = min n (length (r_buf (refill C r)))"
  shows "seeded_read C n r =
    (let (out, r') = seeded_read C (n - k) ((refill C r)\<lparr>r_buf := drop k (r_buf (refill C r))\<rparr>)
     in (take k (r_buf (refill C r)) @ out, r'))"
proof -
  have nz: "(min n (length (r_buf (refill C r))) = 0) = False"
    using assms(2) refill_nonempty [OF assms(1), of r] by (simp add: min_def)
  show ?thesis
    using assms(2,3) by (subst seeded_read.simps) (simp add: nz Let_def refill_def [symmetric])
qed

lemma seeded_read_zero [simp]: "seeded_read C 0 r = ([], r)"
  by (simp add: seeded_read.simps)

lemma seeded_read_append:
  assumes ne: "\<And>m. sha256 C m \<noteq> []"
  shows "seeded_read C (m + n) r =
    (let (a, r1) = seeded_read C m r; (b, r2) = seeded_read C n r1 in (a @ b, r2))"
proof (induction m arbitrary: r rule: less_induct)
  case (less m)
  let ?b = "r_buf (refill C r)"
  have b: "?b \<noteq> []" by (rule refill_nonempty [OF ne])
  consider "m = 0" | "n = 0" | (inside) "0 < m" "0 < n" "m < length ?b" | (across) "0 < m" "length ?b \<le> m"
    by linarith
  then show ?case
  proof cases
    case inside
    let ?r1 = "(refill C r)\<lparr>r_buf := drop m ?b\<rparr>"
    have "seeded_read C m r = (take m ?b, ?r1)"
      using inside by (subst seeded_read_step [OF ne, where k = m]) auto
    moreover obtain k where k: "k = min n (length ?b - m)" by simp
    have "seeded_read C (m + n) r =
        (let (o1, r2) = seeded_read C (m + n - (m + k)) ((refill C r)\<lparr>r_buf := drop (m + k) ?b\<rparr>)
         in (take (m + k) ?b @ o1, r2))"
      by (rule seeded_read_step [OF ne]) (use inside k in auto)
    moreover have "seeded_read C n ?r1 =
        (let (o1, r2) = seeded_read C (n - k) ((refill C ?r1)\<lparr>r_buf := drop k (r_buf (refill C ?r1))\<rparr>)
         in (take k (r_buf (refill C ?r1)) @ o1, r2))"
      by (rule seeded_read_step [OF ne]) (use inside k in auto)
    moreover have "refill C ?r1 = ?r1" using inside by simp
    ultimately show ?thesis
      by (simp add: take_add [of m k] split_beta add.commute [of k m] Let_def)
  next
    case across
    let ?k = "length ?b"
    let ?r1 = "(refill C r)\<lparr>r_buf := []\<rparr>"
    have "m - ?k < m" using across b by simp
    note IH = less.IH [OF this, of ?r1]
    have "seeded_read C m r = (let (o1, r2) = seeded_read C (m - ?k) ?r1 in (?b @ o1, r2))"
      using across by (subst seeded_read_step [OF ne, where k = ?k]) (auto simp: Let_def)
    moreover have "seeded_read C (m + n) r =
        (let (o1, r2) = seeded_read C (m - ?k + n) ?r1 in (?b @ o1, r2))"
      using across by (subst seeded_read_step [OF ne, where k = ?k]) (auto simp: Let_def)
    ultimately show ?thesis using IH by (simp add: split_beta Let_def)
  qed (simp_all add: split_beta)
qed

section \<open>A concrete instance\<close>

text \<open>
  A toy instance of the cryptographic parameters, for applying the theorems at concrete
  inputs: the hash keeps the first 32 bytes of its padded input, and the signature of a
  message is the key followed by the message.
\<close>

definition toy_crypto :: crypto where
  "toy_crypto =
     \<lparr>sha256 = (\<lambda>m. take 32 (m @ replicate 32 NUL)), hmac_sha256 = (@),
      ed25519_from_seed = id, ed25519_public = id, ed25519_sign = (@),
      ed25519_verify = (\<lambda>k m s. s = k @ m), p256_import = (\<lambda>d. None),
      p256_on_curve = (\<lambda>x y. False), p256_sign = (@), p256_verify = (\<lambda>k m s. False)\<rparr>"

definition toy_key :: "char \<Rightarrow> bytes" where
  "toy_key c = replicate 32 c"

definition toy_signer :: "DID \<Rightarrow> char \<Rightarrow> Signer" where
  "toy_signer d c =
     \<lparr>s_DID = d, s_Public = Ed25519Key (toy_key c), s_Sign = (\<lambda>m. Some (toy_key c @ m))\<rparr>"

lemma toy_crypto_laws: "crypto_laws toy_crypto"
  by (auto simp: crypto_laws_def toy_crypto_def min_def)

lemma toy_verify [simp]: "Signer_Verify toy_crypto (Ed25519Key (toy_key c)) m s \<longleftrightarrow> s = toy_key c @ m"
  by (simp add: Signer_Verify_def toy_crypto_def toy_key_def)

lemma toy_signer_ok: "signer_ok toy_crypto (toy_signer d c)"
  by (simp add: signer_ok_def toy_signer_def)

end
