(* ===== verification/Did.thy ===== *)
theory Did
  imports Signer
begin

text \<open>
  \<^verbatim>\<open>internal/did\<close>: JSON Web Keys, DID documents and key resolution.  A resolver (the
  \<^verbatim>\<open>Resolver\<close> interface) is a function from DIDs to documents or errors.  The lemmas show
  that a supported public key survives encoding as a JWK and decoding, and that a document
  made for a key resolves to that key.
\<close>

record JWK =
  jwk_Kty :: string
  jwk_Crv :: string
  jwk_X :: string
  jwk_Y :: string

record VerificationMethod =
  vm_ID :: string
  vm_Type :: string
  vm_Controller :: DID
  vm_PublicKeyJwk :: "JWK option"

record Document =
  doc_Context :: "string list"
  doc_ID :: DID
  doc_VerificationMethod :: "VerificationMethod list"
  doc_Authentication :: "string list"
  doc_AssertionMethod :: "string list"

datatype did_err =
    NilJWK
  | DecodeX
  | DecodeY
  | KeyLength nat
  | CoordLength nat nat
  | InvalidPoint
  | UnsupportedJWK string string
  | NoVerificationMethods DID
  | MethodNotFound string DID
  | ResolveFailed DID

type_synonym Resolver = "DID \<Rightarrow> did_err + Document"

section \<open>Keys\<close>

text \<open>\<^verbatim>\<open>big.Int.Bytes\<close> and \<^verbatim>\<open>SetBytes\<close>: big-endian, no leading zero byte.\<close>

fun nat_bytes :: "nat \<Rightarrow> bytes" where
  "nat_bytes n = (if n = 0 then [] else nat_bytes (n div 256) @ [char_of (n mod 256)])"

declare nat_bytes.simps [simp del]

definition be_nat :: "bytes \<Rightarrow> nat" where
  "be_nat s = foldl (\<lambda>n c. n * 256 + ord c) 0 s"

definition p256CoordSize :: nat where "p256CoordSize = 32"

definition leftPad :: "bytes \<Rightarrow> nat \<Rightarrow> bytes" where
  "leftPad b sz = (if length b \<ge> sz then b else replicate (sz - length b) NUL @ b)"

text \<open>\<open>None\<close> is the panic on a key that has no JWK form.\<close>

definition PublicKeyToJWK :: "public_key \<Rightarrow> JWK option" where
  "PublicKeyToJWK pub =
     (case pub of
        Ed25519Key k \<Rightarrow>
          Some \<lparr>jwk_Kty = ''OKP'', jwk_Crv = ''Ed25519'', jwk_X = RawURLEncode k, jwk_Y = []\<rparr>
      | ECDSAKey cv x y \<Rightarrow>
          if cv \<noteq> P256 then None
          else Some \<lparr>jwk_Kty = ''EC'', jwk_Crv = ''P-256'',
                     jwk_X = RawURLEncode (leftPad (nat_bytes x) p256CoordSize),
                     jwk_Y = RawURLEncode (leftPad (nat_bytes y) p256CoordSize)\<rparr>
      | UnknownKey \<Rightarrow> None)"

definition decodeBase64URL :: "string \<Rightarrow> bytes option" where
  "decodeBase64URL s = (case RawURLDecode s of Some b \<Rightarrow> Some b | None \<Rightarrow> URLDecode s)"

definition JWK_PublicKey :: "crypto \<Rightarrow> JWK option \<Rightarrow> did_err + public_key" where
  "JWK_PublicKey C jo =
     (case jo of
        None \<Rightarrow> Inl NilJWK
      | Some j \<Rightarrow>
          if jwk_Kty j = ''OKP'' \<and> jwk_Crv j = ''Ed25519'' then
            (case decodeBase64URL (jwk_X j) of
               None \<Rightarrow> Inl DecodeX
             | Some b \<Rightarrow> if length b \<noteq> 32 then Inl (KeyLength (length b)) else Inr (Ed25519Key b))
          else if jwk_Kty j = ''EC'' \<and> jwk_Crv j = ''P-256'' then
            (case decodeBase64URL (jwk_X j) of
               None \<Rightarrow> Inl DecodeX
             | Some xb \<Rightarrow>
                 (case decodeBase64URL (jwk_Y j) of
                    None \<Rightarrow> Inl DecodeY
                  | Some yb \<Rightarrow>
                      if length xb \<noteq> p256CoordSize \<or> length yb \<noteq> p256CoordSize
                      then Inl (CoordLength (length xb) (length yb))
                      else if \<not> p256_on_curve C (be_nat xb) (be_nat yb) then Inl InvalidPoint
                      else Inr (ECDSAKey P256 (be_nat xb) (be_nat yb))))
          else Inl (UnsupportedJWK (jwk_Kty j) (jwk_Crv j)))"

definition jwk_json :: "JWK \<Rightarrow> json" where
  "jwk_json j =
     JObj ([(''kty'', JStr (jwk_Kty j)), (''crv'', JStr (jwk_Crv j)), (''x'', JStr (jwk_X j))] @
           omitempty ''y'' (jwk_Y j = []) (JStr (jwk_Y j)))"

section \<open>Documents\<close>

definition NewDocument :: "DID \<Rightarrow> public_key \<Rightarrow> Document option" where
  "NewDocument d pub =
     (case PublicKeyToJWK pub of
        None \<Rightarrow> None
      | Some jwk \<Rightarrow>
          let vmID = d @ ''#key-1'' in
          Some \<lparr>doc_Context = [''https://www.w3.org/ns/did/v1'',
                              ''https://w3id.org/security/suites/jws-2020/v1''],
                doc_ID = d,
                doc_VerificationMethod =
                  [\<lparr>vm_ID = vmID, vm_Type = ''JsonWebKey2020'', vm_Controller = d,
                    vm_PublicKeyJwk = Some jwk\<rparr>],
                doc_Authentication = [vmID], doc_AssertionMethod = [vmID]\<rparr>)"

definition FirstKey :: "crypto \<Rightarrow> Document \<Rightarrow> did_err + public_key" where
  "FirstKey C d =
     (case doc_VerificationMethod d of
        [] \<Rightarrow> Inl (NoVerificationMethods (doc_ID d))
      | vm # _ \<Rightarrow> JWK_PublicKey C (vm_PublicKeyJwk vm))"

definition Document_Key :: "crypto \<Rightarrow> Document \<Rightarrow> string \<Rightarrow> did_err + public_key" where
  "Document_Key C d vmID =
     (let want = (if CHR ''#'' \<notin> set vmID then doc_ID d @ ''#'' @ vmID
                  else if HasPrefix vmID ''#'' then doc_ID d @ vmID else vmID)
      in case find (\<lambda>vm. vm_ID vm = want) (doc_VerificationMethod d) of
           None \<Rightarrow> Inl (MethodNotFound want (doc_ID d))
         | Some vm \<Rightarrow> JWK_PublicKey C (vm_PublicKeyJwk vm))"

definition ResolveKey :: "crypto \<Rightarrow> Resolver \<Rightarrow> DID \<Rightarrow> did_err + public_key" where
  "ResolveKey C r d = (case r d of Inl e \<Rightarrow> Inl e | Inr doc \<Rightarrow> FirstKey C doc)"

section \<open>Round trips\<close>

lemma be_nat_append: "be_nat (s @ t) = be_nat s * 256 ^ length t + be_nat t"
proof (induction t rule: rev_induct)
  case (snoc c t)
  then show ?case by (simp add: be_nat_def algebra_simps flip: append_assoc)
qed (simp add: be_nat_def)

lemma be_nat_zeros: "be_nat (replicate k NUL) = 0"
  by (induction k) (simp_all add: be_nat_def NUL_def)

lemma be_nat_nat_bytes: "be_nat (nat_bytes n) = n"
proof (induction n rule: nat_bytes.induct)
  case (1 n)
  then show ?case
  proof (cases "n = 0")
    case True
    then show ?thesis by (simp add: nat_bytes.simps [of 0] be_nat_def)
  next
    case False
    with 1 show ?thesis
      by (simp add: nat_bytes.simps [of n] be_nat_append) (simp add: be_nat_def)
  qed
qed

lemma length_nat_bytes: "n < 256 ^ k \<Longrightarrow> length (nat_bytes n) \<le> k"
proof (induction k arbitrary: n)
  case 0
  then show ?case by (simp add: nat_bytes.simps)
next
  case (Suc k)
  then have "n div 256 < 256 ^ k" by (simp add: less_mult_imp_div_less mult.commute)
  with Suc.IH [of "n div 256"] show ?case by (simp add: nat_bytes.simps [of n])
qed

lemma leftPad_length: "length b \<le> sz \<Longrightarrow> length (leftPad b sz) = sz"
  by (simp add: leftPad_def)

lemma be_nat_leftPad: "be_nat (leftPad b sz) = be_nat b"
  by (simp add: leftPad_def be_nat_append be_nat_zeros)

text \<open>The keys a JWK can carry.\<close>

definition key_supported :: "crypto \<Rightarrow> public_key \<Rightarrow> bool" where
  "key_supported C k \<longleftrightarrow>
     (case k of
        Ed25519Key b \<Rightarrow> length b = 32
      | ECDSAKey cv x y \<Rightarrow> cv = P256 \<and> x < 256 ^ 32 \<and> y < 256 ^ 32 \<and> p256_on_curve C x y
      | UnknownKey \<Rightarrow> False)"

lemma JWK_round_trip_aux:
  assumes "key_supported C k"
  shows "\<exists>j. PublicKeyToJWK k = Some j \<and> JWK_PublicKey C (Some j) = Inr k"
  using assms
  by (cases k)
     (auto simp: key_supported_def PublicKeyToJWK_def JWK_PublicKey_def decodeBase64URL_def
        p256CoordSize_def leftPad_length length_nat_bytes be_nat_leftPad be_nat_nat_bytes)

lemma JWK_PublicKey_supported:
  "JWK_PublicKey C jo = Inr k \<Longrightarrow> k \<noteq> UnknownKey"
  by (auto simp: JWK_PublicKey_def split: res_splits)

text \<open>
  A supported public key (32-byte Ed25519, or a P-256 point) survives the JWK encoding, so
  a document created for it resolves to exactly that key.
\<close>

theorem NewDocument_resolves:
  assumes "key_supported C k"
  shows "\<exists>doc. NewDocument d k = Some doc \<and> doc_ID doc = d \<and> FirstKey C doc = Inr k \<and>
    Document_Key C doc ''key-1'' = Inr k"
  using JWK_round_trip_aux [OF assms]
  by (auto simp: NewDocument_def FirstKey_def Document_Key_def HasPrefix_def Let_def)

theorem NewDocument_resolves_witness:
  "\<exists>doc. NewDocument ''did:web:a'' (Ed25519Key (toy_key CHR ''k'')) = Some doc \<and>
     FirstKey toy_crypto doc = Inr (Ed25519Key (toy_key CHR ''k''))"
  using NewDocument_resolves [of toy_crypto "Ed25519Key (toy_key CHR ''k'')" "''did:web:a''"]
  by (auto simp: key_supported_def toy_key_def)

end
