(* ===== verification/Status.thy ===== *)
theory Status
  imports Did
begin

unbundle bit_operations_syntax

text \<open>
  \<^verbatim>\<open>internal/status\<close>: the signed revocation bitstring.  A list is a sequence of bytes, bit 0
  being the top bit of byte 0; \<open>Set\<close> and \<open>Lookup\<close> mask one bit after a range check,
  \<open>Status_Verify\<close> checks authority, size, presence and signature in that order.  The wire form
  \<open>published\<close> is the struct \<^verbatim>\<open>encoding/json\<close> writes and reads.  The locale \<open>bit_store\<close> is what
  revocation needs of the bitstring: a set bit reads back, every other bit keeps its value.
\<close>

section \<open>Bit stores\<close>

text \<open>Setting a list of bits, stopping at the first refusal.\<close>

fun put_all :: "('l \<Rightarrow> int \<Rightarrow> bool \<Rightarrow> 'l option) \<Rightarrow> 'l \<Rightarrow> int list \<Rightarrow> 'l option" where
  "put_all put l [] = Some l"
| "put_all put l (i # is) = (case put l i True of None \<Rightarrow> None | Some l' \<Rightarrow> put_all put l' is)"

locale bit_store =
  fixes put :: "'l \<Rightarrow> int \<Rightarrow> bool \<Rightarrow> 'l option"
    and get :: "'l \<Rightarrow> int \<Rightarrow> bool option"
    and size_of :: "'l \<Rightarrow> int"
  assumes get_defined: "get l i \<noteq> None \<longleftrightarrow> 0 \<le> i \<and> i < size_of l"
    and put_defined: "put l i b \<noteq> None \<longleftrightarrow> 0 \<le> i \<and> i < size_of l"
    and put_size: "put l i b = Some l' \<Longrightarrow> size_of l' = size_of l"
    and get_put: "put l i b = Some l' \<Longrightarrow> get l' j = (if j = i then Some b else get l j)"
begin

lemma put_all_get:
  "put_all put l is = Some l' \<Longrightarrow>
     get l' j = (if j \<in> set is then Some True else get l j) \<and> size_of l' = size_of l"
  by (induction "is" arbitrary: l) (auto simp: get_put put_size split: option.splits if_splits)

lemma put_all_defined:
  "\<forall>i \<in> set is. 0 \<le> i \<and> i < size_of l \<Longrightarrow> \<exists>l'. put_all put l is = Some l'"
proof (induction "is" arbitrary: l)
  case (Cons i "is")
  then obtain l1 where "put l i True = Some l1" using put_defined [of l i True] by auto
  moreover from this Cons have "\<exists>l'. put_all put l1 is = Some l'" by (simp add: put_size)
  ultimately show ?case by simp
qed simp

end

section \<open>Lists\<close>

record Reference =
  ref_ListURL :: string
  ref_Index :: int
  ref_Issuer :: DID

record StatusList =
  sl_Issuer :: DID
  sl_Purpose :: string
  sl_Bits :: "8 word list"
  sl_Signature :: bytes

datatype status_err =
    IndexOutOfRange int int
  | StatusSign
  | NoAuthority
  | WrongAuthority DID DID
  | BelowFloor int
  | Unsigned
  | StatusSignature
  | UnsignedMarshal
  | BadEncoding string
  | DecodeBits
  | DecodeSig
  | StatusJSON

definition MinBits :: int where "MinBits = 131072"
definition status_signingDomain :: string where "status_signingDomain = ''kessa/status-list/v1''"
definition PurposeRevocation :: string where "PurposeRevocation = ''revocation''"
definition PurposeSuspension :: string where "PurposeSuspension = ''suspension''"

definition byte_of :: "8 word \<Rightarrow> char" where
  "byte_of w = char_of (unat w)"

definition of_byte :: "char \<Rightarrow> 8 word" where
  "of_byte c = of_nat (ord c)"

definition Status_New :: "int \<Rightarrow> StatusList" where
  "Status_New minBits =
     (let m = (if minBits < MinBits then MinBits else minBits);
          nbytes = (m + 7) div 8
      in \<lparr>sl_Issuer = [], sl_Purpose = PurposeRevocation, sl_Bits = replicate (nat nbytes) 0,
          sl_Signature = []\<rparr>)"

definition Status_Len :: "StatusList \<Rightarrow> int" where
  "Status_Len l = int (length (sl_Bits l)) * 8"

definition checkIndex :: "StatusList \<Rightarrow> int \<Rightarrow> status_err + unit" where
  "checkIndex l index =
     (if index < 0 \<or> index \<ge> Status_Len l then Inl (IndexOutOfRange index (Status_Len l)) else Inr ())"

definition bit_mask :: "int \<Rightarrow> 8 word" where
  "bit_mask index = push_bit (nat (7 - index mod 8)) 1"

definition Status_Set :: "StatusList \<Rightarrow> int \<Rightarrow> bool \<Rightarrow> status_err + StatusList" where
  "Status_Set l index revoked =
     (case checkIndex l index of
        Inl e \<Rightarrow> Inl e
      | Inr _ \<Rightarrow>
          let k = nat (index div 8); b = sl_Bits l ! k; mask = bit_mask index in
          Inr (l\<lparr>sl_Bits := (sl_Bits l)[k := (if revoked then b OR mask else b AND NOT mask)]\<rparr>))"

definition Status_Lookup :: "StatusList \<Rightarrow> int \<Rightarrow> status_err + bool" where
  "Status_Lookup l index =
     (case checkIndex l index of
        Inl e \<Rightarrow> Inl e
      | Inr _ \<Rightarrow> Inr (sl_Bits l ! nat (index div 8) AND bit_mask index \<noteq> 0))"

section \<open>Signing\<close>

definition status_signingInput :: "StatusList \<Rightarrow> bytes" where
  "status_signingInput l =
     status_signingDomain @ NUL # sl_Issuer l @ NUL # sl_Purpose l @ NUL # map byte_of (sl_Bits l)"

definition Status_Sign :: "Signer \<Rightarrow> StatusList \<Rightarrow> status_err + StatusList" where
  "Status_Sign s l0 =
     (let l = l0\<lparr>sl_Issuer := s_DID s\<rparr> in
      case s_Sign s (status_signingInput l) of
        None \<Rightarrow> Inl StatusSign
      | Some sig \<Rightarrow> Inr (l\<lparr>sl_Signature := sig\<rparr>))"

definition Status_Verify :: "crypto \<Rightarrow> StatusList \<Rightarrow> DID \<Rightarrow> public_key \<Rightarrow> status_err + unit" where
  "Status_Verify C l authority pub =
     (if authority = [] then Inl NoAuthority
      else if sl_Issuer l \<noteq> authority then Inl (WrongAuthority (sl_Issuer l) authority)
      else if Status_Len l < MinBits then Inl (BelowFloor (Status_Len l))
      else if sl_Signature l = [] then Inl Unsigned
      else if \<not> Signer_Verify C pub (status_signingInput l) (sl_Signature l) then Inl StatusSignature
      else Inr ())"

section \<open>Publication format\<close>

record published =
  pb_Issuer :: DID
  pb_Purpose :: string
  pb_Encoding :: string
  pb_Bitstring :: string
  pb_Signature :: string

definition Status_Marshal :: "StatusList \<Rightarrow> status_err + published" where
  "Status_Marshal l =
     (if sl_Signature l = [] then Inl UnsignedMarshal
      else Inr \<lparr>pb_Issuer = sl_Issuer l, pb_Purpose = sl_Purpose l, pb_Encoding = ''base64url'',
                pb_Bitstring = RawURLEncode (map byte_of (sl_Bits l)),
                pb_Signature = RawURLEncode (sl_Signature l)\<rparr>)"

definition Status_Parse :: "published \<Rightarrow> status_err + StatusList" where
  "Status_Parse p =
     (if pb_Encoding p \<noteq> ''base64url'' then Inl (BadEncoding (pb_Encoding p))
      else case RawURLDecode (pb_Bitstring p) of
          None \<Rightarrow> Inl DecodeBits
        | Some bits \<Rightarrow>
            (case RawURLDecode (pb_Signature p) of
               None \<Rightarrow> Inl DecodeSig
             | Some sig \<Rightarrow>
                 Inr \<lparr>sl_Issuer = pb_Issuer p, sl_Purpose = pb_Purpose p,
                      sl_Bits = map of_byte bits, sl_Signature = sig\<rparr>))"

section \<open>The list is a bit store\<close>

definition bit_pos :: "int \<Rightarrow> nat" where
  "bit_pos index = nat (7 - index mod 8)"

lemma bit_pos_less [simp]: "bit_pos i < 8"
  by (simp add: bit_pos_def)

lemma bit_mask_exp: "bit_mask i = 2 ^ bit_pos i"
  by (simp add: bit_mask_def bit_pos_def push_bit_of_1)

lemma masked_bit: "(w AND bit_mask i \<noteq> 0) = bit w (bit_pos i)"
  by (simp add: bit_mask_exp and_exp_eq_0_iff_not_bit)

lemma bit_set_mask: "m < 8 \<Longrightarrow> bit (w OR bit_mask i) m \<longleftrightarrow> bit w m \<or> m = bit_pos i"
  by (auto simp: bit_mask_exp bit_or_iff bit_exp_iff)

lemma bit_clear_mask: "m < 8 \<Longrightarrow> bit (w AND NOT (bit_mask i)) m \<longleftrightarrow> bit w m \<and> m \<noteq> bit_pos i"
  by (auto simp: bit_mask_exp bit_and_iff bit_not_iff bit_exp_iff)

lemma same_slot: "i div 8 = j div 8 \<Longrightarrow> bit_pos i = bit_pos j \<Longrightarrow> i = (j :: int)"
proof -
  assume "i div 8 = j div 8" "bit_pos i = bit_pos j"
  moreover from this(2) have "i mod 8 = j mod 8" by (simp add: bit_pos_def)
  ultimately show "i = j" by (metis div_mult_mod_eq)
qed

definition set_opt :: "StatusList \<Rightarrow> int \<Rightarrow> bool \<Rightarrow> StatusList option" where
  "set_opt l i b = (case Status_Set l i b of Inl _ \<Rightarrow> None | Inr l' \<Rightarrow> Some l')"

definition lookup_opt :: "StatusList \<Rightarrow> int \<Rightarrow> bool option" where
  "lookup_opt l i = (case Status_Lookup l i of Inl _ \<Rightarrow> None | Inr b \<Rightarrow> Some b)"

lemma Status_Lookup_eq:
  "Status_Lookup l i =
     (if 0 \<le> i \<and> i < Status_Len l then Inr (bit (sl_Bits l ! nat (i div 8)) (bit_pos i))
      else Inl (IndexOutOfRange i (Status_Len l)))"
  by (simp add: Status_Lookup_def checkIndex_def masked_bit)

lemma byte_index: "0 \<le> i \<Longrightarrow> i < Status_Len l \<Longrightarrow> nat (i div 8) < length (sl_Bits l)"
  by (simp add: Status_Len_def nat_less_iff)

lemma Status_Set_Lookup:
  assumes "Status_Set l i b = Inr l'"
  shows "Status_Lookup l' j = (if j = i then Inr b else Status_Lookup l j)"
    and "Status_Len l' = Status_Len l" and "0 \<le> i" and "i < Status_Len l"
proof -
  from assms show r: "0 \<le> i" "i < Status_Len l"
    by (auto simp: Status_Set_def checkIndex_def not_le)
  let ?k = "nat (i div 8)"
  let ?w = "sl_Bits l ! ?k"
  let ?v = "if b then ?w OR bit_mask i else ?w AND NOT (bit_mask i)"
  from assms r have l': "l' = l\<lparr>sl_Bits := (sl_Bits l)[?k := ?v]\<rparr>"
    by (auto simp: Status_Set_def checkIndex_def Let_def)
  then show len: "Status_Len l' = Status_Len l" by (simp add: Status_Len_def)
  show "Status_Lookup l' j = (if j = i then Inr b else Status_Lookup l j)"
  proof (cases "0 \<le> j \<and> j < Status_Len l")
    case True
    show ?thesis
    proof (cases "nat (j div 8) = ?k")
      case same: True
      have "0 \<le> j div 8" "0 \<le> i div 8" using True r by (simp_all add: pos_imp_zdiv_nonneg_iff)
      with same have d: "j div 8 = i div 8" by (simp only: eq_nat_nat_iff)
      with same_slot have "bit_pos j = bit_pos i \<longleftrightarrow> j = i" by blast
      with True d byte_index [of i l] r len show ?thesis
        by (simp add: Status_Lookup_eq l' bit_set_mask bit_clear_mask)
    next
      case False
      then have "j \<noteq> i" by auto
      with True False len show ?thesis by (simp add: Status_Lookup_eq l')
    qed
  next
    case False
    with r len show ?thesis by (auto simp: Status_Lookup_eq)
  qed
qed

interpretation status_bits: bit_store set_opt lookup_opt Status_Len
proof
  fix l i b l' j
  show "lookup_opt l i \<noteq> None \<longleftrightarrow> 0 \<le> i \<and> i < Status_Len l"
    by (simp add: lookup_opt_def Status_Lookup_eq)
  show "set_opt l i b \<noteq> None \<longleftrightarrow> 0 \<le> i \<and> i < Status_Len l"
    by (auto simp: set_opt_def Status_Set_def checkIndex_def Let_def)
  assume "set_opt l i b = Some l'"
  then have s: "Status_Set l i b = Inr l'" by (auto simp: set_opt_def split: sum.splits)
  from Status_Set_Lookup [OF s]
  show "Status_Len l' = Status_Len l" and "lookup_opt l' j = (if j = i then Some b else lookup_opt l j)"
    by (simp_all add: lookup_opt_def)
qed

section \<open>Properties\<close>

lemma of_byte_byte_of [simp]: "of_byte (byte_of w) = w"
proof -
  have "unat w < 256" using unsigned_less [of w] by simp
  then show ?thesis by (simp add: of_byte_def byte_of_def of_char_of)
qed

lemma of_byte_comp_byte_of [simp]: "of_byte \<circ> byte_of = id"
  by (rule ext) simp

lemma Status_Marshal_Parse:
  "sl_Signature l \<noteq> [] \<Longrightarrow> \<exists>p. Status_Marshal l = Inr p \<and> Status_Parse p = Inr (l :: StatusList)"
  by (simp add: Status_Marshal_def Status_Parse_def)

lemma Status_New_Len:
  "MinBits \<le> Status_Len (Status_New n)" "n \<le> Status_Len (Status_New n)"
  by (auto simp: Status_Len_def Status_New_def MinBits_def Let_def)

lemma Status_New_clear:
  "0 \<le> i \<Longrightarrow> i < Status_Len (Status_New n) \<Longrightarrow> Status_Lookup (Status_New n) i = Inr False"
  using byte_index [of i "Status_New n"]
  by (simp add: Status_Lookup_eq Status_New_def Let_def)

text \<open>
  Revocation touches one bit: after a successful \<open>Status_Set\<close> the bit reads back as written,
  every other index, in range or not, answers as before, and the length is unchanged.
\<close>

theorem Status_Set_touches_one_bit:
  assumes "Status_Set l i b = Inr l'"
  shows "Status_Lookup l' j = (if j = i then Inr b else Status_Lookup l j) \<and>
    Status_Len l' = Status_Len l"
  using Status_Set_Lookup [OF assms] by simp

theorem Status_Set_touches_one_bit_witness:
  "\<exists>l'. Status_Set (Status_New 8) 5 True = Inr l' \<and>
     Status_Lookup l' 5 = Inr True \<and> Status_Lookup l' 6 = Inr False"
proof -
  have len: "MinBits \<le> Status_Len (Status_New 8)" by (rule Status_New_Len)
  then have "set_opt (Status_New 8) 5 True \<noteq> None"
    by (subst status_bits.put_defined) (simp add: MinBits_def)
  then obtain l' where l': "Status_Set (Status_New 8) 5 True = Inr l'"
    by (auto simp: set_opt_def split: sum.splits)
  have "Status_Lookup (Status_New 8) 6 = Inr False"
    using len by (intro Status_New_clear) (simp_all add: MinBits_def)
  with l' Status_Set_touches_one_bit [OF l', of 5] Status_Set_touches_one_bit [OF l', of 6]
  show ?thesis by auto
qed

text \<open>
  A fresh list meets the herd-privacy floor and revokes nobody; after any sequence of
  revocations that were all accepted, exactly the named indices read as revoked.
\<close>

theorem revocations_exact:
  assumes "put_all set_opt (Status_New n) is = Some l"
  shows "MinBits \<le> Status_Len l \<and>
    (0 \<le> j \<and> j < Status_Len l \<longrightarrow> Status_Lookup l j = Inr (j \<in> set is))"
proof -
  have len: "Status_Len l = Status_Len (Status_New n)"
    and get: "lookup_opt l j = (if j \<in> set is then Some True else lookup_opt (Status_New n) j)"
    using status_bits.put_all_get [OF assms] by auto
  have "Status_Lookup l j = Inr (j \<in> set is)" if "0 \<le> j \<and> j < Status_Len l"
    using get that len Status_New_clear [of j n] status_bits.get_defined [of l j]
    by (auto simp: lookup_opt_def split: sum.splits if_splits)
  with len Status_New_Len(1) [of n] show ?thesis by simp
qed

theorem revocations_exact_witness:
  "\<exists>l. put_all set_opt (Status_New 0) [7, 3] = Some l \<and>
     Status_Lookup l 3 = Inr True \<and> Status_Lookup l 4 = Inr False"
proof -
  have len: "MinBits \<le> Status_Len (Status_New 0)" by (rule Status_New_Len)
  then obtain l where l: "put_all set_opt (Status_New 0) [7, 3] = Some l"
    using status_bits.put_all_defined [of "[7, 3]" "Status_New 0"] by (auto simp: MinBits_def)
  from revocations_exact [OF l, of 3] revocations_exact [OF l, of 4] l show ?thesis
    by (auto simp: MinBits_def)
qed

text \<open>
  A list an authority signs verifies under that authority's name and key, survives the
  publication format unchanged, and verifies under no other authority name.
\<close>

theorem signed_list_verifies:
  assumes "signer_ok C s" and "Status_Sign s l = Inr l'" and "s_DID s \<noteq> []"
    and "MinBits \<le> Status_Len l" and "sl_Signature l' \<noteq> []"
  shows "Status_Verify C l' (s_DID s) (s_Public s) = Inr () \<and>
    (\<exists>p. Status_Marshal l' = Inr p \<and> Status_Parse p = Inr l') \<and>
    (authority \<noteq> s_DID s \<longrightarrow> \<not> is_ok (Status_Verify C l' authority pub))"
proof -
  let ?l = "l\<lparr>sl_Issuer := s_DID s\<rparr>"
  from assms(2) obtain sig where sig: "s_Sign s (status_signingInput ?l) = Some sig"
    and l': "l' = ?l\<lparr>sl_Signature := sig\<rparr>"
    by (auto simp: Status_Sign_def Let_def split: option.splits)
  have "status_signingInput l' = status_signingInput ?l" "Status_Len l' = Status_Len l"
    by (simp_all add: l' status_signingInput_def Status_Len_def)
  with signer_okD [OF assms(1) sig] assms(3-5) l'
  have "Status_Verify C l' (s_DID s) (s_Public s) = Inr ()"
    "authority \<noteq> s_DID s \<longrightarrow> \<not> is_ok (Status_Verify C l' authority pub)"
    by (auto simp: Status_Verify_def not_less)
  with Status_Marshal_Parse [OF assms(5)] show ?thesis by blast
qed

theorem signed_list_verifies_witness:
  "\<exists>l'. Status_Sign (toy_signer ''did:web:org'' CHR ''o'') (Status_New 0) = Inr l' \<and>
     Status_Verify toy_crypto l' ''did:web:org'' (Ed25519Key (toy_key CHR ''o'')) = Inr ()"
proof -
  let ?s = "toy_signer ''did:web:org'' CHR ''o''"
  obtain l' where l': "Status_Sign ?s (Status_New 0) = Inr l'" "sl_Signature l' \<noteq> []"
    by (simp add: Status_Sign_def toy_signer_def Let_def status_signingInput_def)
  from signed_list_verifies [OF toy_signer_ok l'(1) _ _ l'(2)] Status_New_Len(1) [of 0] l'(1)
  show ?thesis by (simp add: toy_signer_def)
qed

end
