(* ===== verification/Credential.thy ===== *)
theory Credential
  imports Macaroon Status
begin

text \<open>
  \<^verbatim>\<open>internal/vc\<close> and \<^verbatim>\<open>internal/credential\<close>: the W3C-shaped wrapper and the credential that
  travels down a delegation chain, with the holder binding and the proof of possession.  The
  wrapped \<^verbatim>\<open>credentialSubject\<close> is a \<^typ>\<open>json\<close> tree (a raw message is written compacted, which
  is the tree's text); a caller's value enters as the tree it marshals to.  A proof of
  possession signs the action and the position of the log entry that will record it.
\<close>

section \<open>Verifiable credentials\<close>

record Proof =
  pr_Type :: string
  pr_Created :: gotime
  pr_VerificationMethod :: string
  pr_ProofPurpose :: string
  pr_ProofValue :: string

record VerifiableCredential =
  vc_Context :: "string list"
  vc_Type :: "string list"
  vc_Issuer :: DID
  vc_IssuanceDate :: gotime
  vc_ExpirationDate :: "gotime option"
  vc_CredentialSubject :: json
  vc_Proof :: "Proof option"

record IssueOptions =
  io_IssuedAt :: gotime
  io_Expires :: "gotime option"
  io_ExtraTypes :: "string list"
  io_VerificationMethod :: string

datatype vc_err =
    VcCanonicalize
  | VcSign
  | NoProof
  | UnsupportedProof string
  | DecodeProof
  | ProofFailed
  | NotYetValid
  | Expired

definition ProofType :: string where "ProofType = ''Ed25519Signature2020''"
definition vc_signingDomain :: string where "vc_signingDomain = ''kessa/vc/v1''"

text \<open>The zero \<^verbatim>\<open>time.Time\<close>: the first of January of year 1, UTC.\<close>

definition IsZero :: "gotime \<Rightarrow> bool" where
  "IsZero t \<longleftrightarrow> unix_ns t = - 62135596800000000000"

definition proof_json :: "Proof \<Rightarrow> json" where
  "proof_json p =
     JObj [(''type'', JStr (pr_Type p)), (''created'', JStr (RFC3339Nano (pr_Created p))),
           (''verificationMethod'', JStr (pr_VerificationMethod p)),
           (''proofPurpose'', JStr (pr_ProofPurpose p)), (''proofValue'', JStr (pr_ProofValue p))]"

definition vc_json :: "VerifiableCredential \<Rightarrow> json" where
  "vc_json c =
     JObj ([(''@context'', JList JStr (vc_Context c)), (''type'', JList JStr (vc_Type c)),
            (''issuer'', JStr (vc_Issuer c)),
            (''issuanceDate'', JStr (RFC3339Nano (vc_IssuanceDate c)))] @
           (case vc_ExpirationDate c of None \<Rightarrow> [] | Some t \<Rightarrow> [(''expirationDate'', JStr (RFC3339Nano t))]) @
           [(''credentialSubject'', vc_CredentialSubject c)] @
           (case vc_Proof c of None \<Rightarrow> [] | Some p \<Rightarrow> [(''proof'', proof_json p)]))"

definition vc_marshals :: "VerifiableCredential \<Rightarrow> bool" where
  "vc_marshals c \<longleftrightarrow>
     time_marshals (vc_IssuanceDate c) \<and>
     (case vc_ExpirationDate c of None \<Rightarrow> True | Some t \<Rightarrow> time_marshals t) \<and>
     (case vc_Proof c of None \<Rightarrow> True | Some p \<Rightarrow> time_marshals (pr_Created p))"

definition vc_signingInput :: "VerifiableCredential \<Rightarrow> vc_err + bytes" where
  "vc_signingInput c =
     (let cp = c\<lparr>vc_Proof := map_option (\<lambda>p. p\<lparr>pr_ProofValue := []\<rparr>) (vc_Proof c)\<rparr> in
      if \<not> vc_marshals cp then Inl VcCanonicalize
      else Inr (vc_signingDomain @ NUL # json_enc (vc_json cp)))"

text \<open>The credential before its proof value is set.\<close>

definition vc_draft :: "gotime \<Rightarrow> Signer \<Rightarrow> json \<Rightarrow> IssueOptions \<Rightarrow> Proof \<times> VerifiableCredential" where
  "vc_draft now s subject opts =
     (let issuedAt = (if IsZero (io_IssuedAt opts) then UTC now else io_IssuedAt opts);
          vm = (if io_VerificationMethod opts = [] then s_DID s @ ''#key-1'' else io_VerificationMethod opts);
          p = \<lparr>pr_Type = ProofType, pr_Created = issuedAt, pr_VerificationMethod = vm,
               pr_ProofPurpose = ''assertionMethod'', pr_ProofValue = []\<rparr>
      in (p, \<lparr>vc_Context = [''https://www.w3.org/2018/credentials/v1''],
              vc_Type = ''VerifiableCredential'' # io_ExtraTypes opts, vc_Issuer = s_DID s,
              vc_IssuanceDate = issuedAt, vc_ExpirationDate = io_Expires opts,
              vc_CredentialSubject = subject, vc_Proof = Some p\<rparr>))"

definition vc_Issue ::
  "gotime \<Rightarrow> Signer \<Rightarrow> json \<Rightarrow> IssueOptions \<Rightarrow> vc_err + VerifiableCredential" where
  "vc_Issue now s subject opts =
     (let (p, c) = vc_draft now s subject opts in
      case vc_signingInput c of
        Inl e \<Rightarrow> Inl e
      | Inr input \<Rightarrow>
          (case s_Sign s input of
             None \<Rightarrow> Inl VcSign
           | Some sig \<Rightarrow> Inr (c\<lparr>vc_Proof := Some (p\<lparr>pr_ProofValue := RawURLEncode sig\<rparr>)\<rparr>)))"

definition vc_Verify :: "crypto \<Rightarrow> VerifiableCredential \<Rightarrow> public_key \<Rightarrow> vc_err + unit" where
  "vc_Verify C c pub =
     (case vc_Proof c of
        None \<Rightarrow> Inl NoProof
      | Some p \<Rightarrow>
          if pr_Type p \<noteq> ProofType then Inl (UnsupportedProof (pr_Type p))
          else case RawURLDecode (pr_ProofValue p) of
              None \<Rightarrow> Inl DecodeProof
            | Some sig \<Rightarrow>
                (case vc_signingInput c of
                   Inl e \<Rightarrow> Inl e
                 | Inr input \<Rightarrow> if \<not> Signer_Verify C pub input sig then Inl ProofFailed else Inr ()))"

definition vc_Valid :: "VerifiableCredential \<Rightarrow> gotime \<Rightarrow> vc_err + unit" where
  "vc_Valid c now =
     (if unix_ns now < unix_ns (vc_IssuanceDate c) then Inl NotYetValid
      else case vc_ExpirationDate c of
          None \<Rightarrow> Inr ()
        | Some t \<Rightarrow> if unix_ns now > unix_ns t then Inl Expired else Inr ())"

section \<open>Credentials\<close>

record Credential =
  cr_Subject :: DID
  cr_Issuer :: DID
  cr_Macaroon :: Macaroon
  cr_StatusRef :: Reference
  cr_HolderKey :: "JWK option"
  cr_VCWrapper :: "VerifiableCredential option"

record Options =
  o_Subject :: DID
  o_Issuer :: DID
  o_Macaroon :: Macaroon
  o_HolderKey :: "public_key option"
  o_StatusRef :: Reference
  o_VCWrapper :: "VerifiableCredential option"

record PoP =
  pop_Nonce :: bytes
  pop_Signature :: bytes

datatype credential_err =
    EmptySubject
  | EmptyIssuer
  | HolderKeyLength nat
  | HolderCurve
  | HolderRequired
  | HolderUnsupported
  | HolderInvalid did_err
  | MacaroonEmpty
  | HolderMacaroon macaroon_err
  | PopCanonicalize
  | PopSign
  | NoHolderKey
  | HolderKeyBad did_err
  | EmptyNonce
  | PopFailed

definition HolderField :: string where "HolderField = ''holder''"
definition popDomain :: string where "popDomain = ''kessa/pop/v2''"

definition holderJWK :: "crypto \<Rightarrow> public_key option \<Rightarrow> credential_err + JWK" where
  "holderJWK C pub =
     (case pub of
        None \<Rightarrow> Inl HolderRequired
      | Some UnknownKey \<Rightarrow> Inl HolderUnsupported
      | Some k \<Rightarrow>
          if (case k of Ed25519Key b \<Rightarrow> length b \<noteq> 32 | _ \<Rightarrow> False)
          then Inl (HolderKeyLength (case k of Ed25519Key b \<Rightarrow> length b | _ \<Rightarrow> 0))
          else (case PublicKeyToJWK k of
              None \<Rightarrow> Inl HolderCurve
            | Some jwk \<Rightarrow>
                (case JWK_PublicKey C (Some jwk) of
                   Inl e \<Rightarrow> Inl (HolderInvalid e)
                 | Inr _ \<Rightarrow> Inr jwk)))"

definition Credential_New :: "crypto \<Rightarrow> Options \<Rightarrow> credential_err + Credential" where
  "Credential_New C opts =
     (if o_Subject opts = [] then Inl EmptySubject
      else if o_Issuer opts = [] then Inl EmptyIssuer
      else case holderJWK C (o_HolderKey opts) of
          Inl e \<Rightarrow> Inl e
        | Inr jwk \<Rightarrow>
            if m_Identifier (o_Macaroon opts) = [] \<or> m_Signature (o_Macaroon opts) = []
            then Inl MacaroonEmpty
            else Inr \<lparr>cr_Subject = o_Subject opts, cr_Issuer = o_Issuer opts,
                      cr_Macaroon = o_Macaroon opts, cr_StatusRef = o_StatusRef opts,
                      cr_HolderKey = Some jwk, cr_VCWrapper = o_VCWrapper opts\<rparr>)"

definition jwkValue :: "JWK \<Rightarrow> string" where
  "jwkValue j = RawURLEncode (json_enc (jwk_json j))"

definition HolderValue :: "crypto \<Rightarrow> public_key option \<Rightarrow> credential_err + string" where
  "HolderValue C holder =
     (case holderJWK C holder of Inl e \<Rightarrow> Inl e | Inr jwk \<Rightarrow> Inr (jwkValue jwk))"

definition HolderCaveat :: "crypto \<Rightarrow> public_key option \<Rightarrow> credential_err + Caveat" where
  "HolderCaveat C holder =
     (case HolderValue C holder of
        Inl e \<Rightarrow> Inl e
      | Inr v \<Rightarrow> Inr \<lparr>c_Field = HolderField, c_Op = OpEq, c_Value = v\<rparr>)"

definition BindHolder :: "crypto \<Rightarrow> Macaroon \<Rightarrow> public_key option \<Rightarrow> credential_err + Macaroon" where
  "BindHolder C m holder =
     (case HolderCaveat C holder of
        Inl e \<Rightarrow> Inl e
      | Inr cav \<Rightarrow> map_err HolderMacaroon (Attenuate (hmac_sha256 C) m cav))"

definition HolderContext :: "Credential \<Rightarrow> context_map" where
  "HolderContext c =
     (case cr_HolderKey c of None \<Rightarrow> Map.empty | Some j \<Rightarrow> [HolderField \<mapsto> jwkValue j])"

definition StatusAuthority :: "Credential \<Rightarrow> DID" where
  "StatusAuthority c =
     (if ref_Issuer (cr_StatusRef c) \<noteq> [] then ref_Issuer (cr_StatusRef c) else cr_Issuer c)"

section \<open>Proof of possession\<close>

definition popInput :: "Credential \<Rightarrow> bytes \<Rightarrow> Action \<Rightarrow> u64 \<Rightarrow> bytes \<Rightarrow> credential_err + bytes" where
  "popInput c nonce a seq prevHash =
     (if \<not> action_marshals a then Inl PopCanonicalize
      else Inr (popDomain @ NUL # cr_Subject c @ NUL # m_Identifier (cr_Macaroon c) @ NUL #
                nonce @ NUL # json_enc (action_json a) @ NUL # be64 seq @ NUL # prevHash))"

definition ProvePossession ::
  "Credential \<Rightarrow> Signer \<Rightarrow> bytes \<Rightarrow> Action \<Rightarrow> u64 \<Rightarrow> bytes \<Rightarrow> credential_err + PoP" where
  "ProvePossession c holder nonce a seq prevHash =
     (case popInput c nonce a seq prevHash of
        Inl e \<Rightarrow> Inl e
      | Inr input \<Rightarrow>
          (case s_Sign holder input of
             None \<Rightarrow> Inl PopSign
           | Some sig \<Rightarrow> Inr \<lparr>pop_Nonce = nonce, pop_Signature = sig\<rparr>))"

definition VerifyPossession ::
  "crypto \<Rightarrow> Credential \<Rightarrow> PoP \<Rightarrow> Action \<Rightarrow> u64 \<Rightarrow> bytes \<Rightarrow> credential_err + unit" where
  "VerifyPossession C c pop a seq prevHash =
     (if cr_HolderKey c = None then Inl NoHolderKey
      else case JWK_PublicKey C (cr_HolderKey c) of
          Inl e \<Rightarrow> Inl (HolderKeyBad e)
        | Inr pub \<Rightarrow>
            if pop_Nonce pop = [] then Inl EmptyNonce
            else (case popInput c (pop_Nonce pop) a seq prevHash of
                Inl e \<Rightarrow> Inl e
              | Inr input \<Rightarrow>
                  if \<not> Signer_Verify C pub input (pop_Signature pop) then Inl PopFailed else Inr ()))"

section \<open>Holder binding\<close>

lemma holderJWK_ok:
  assumes "holderJWK C pub = Inr j"
  obtains k where "pub = Some k" and "PublicKeyToJWK k = Some j" and "is_ok (JWK_PublicKey C (Some j))"
  using assms
  by (auto simp: holderJWK_def split: option.splits public_key.splits sum.splits if_splits)

lemma jwk_ascii:
  assumes "PublicKeyToJWK k = Some j"
  shows "json_valid (jwk_json j)"
proof -
  have "utf8_valid (RawURLEncode b)" for b
    by (rule utf8_valid_ascii) (auto simp: RawURLEncode_def dest: b64_encode_chars)
  with assms show ?thesis
    by (auto simp: PublicKeyToJWK_def jwk_json_def omitempty_def split: public_key.splits if_splits)
qed

lemma jwk_json_inject: "jwk_json i = jwk_json j \<Longrightarrow> i = (j :: JWK)"
  by (cases i; cases j) (auto simp: jwk_json_def omitempty_def split: if_splits)

lemma jwkValue_inject:
  "jwkValue i = jwkValue j \<Longrightarrow> PublicKeyToJWK k = Some i \<Longrightarrow> PublicKeyToJWK l = Some j \<Longrightarrow> i = j"
  using json_enc_inject [of "jwk_json i" "jwk_json j"] jwk_ascii jwk_json_inject
  by (auto simp: jwkValue_def)

lemma JWK_determines_key:
  assumes "PublicKeyToJWK k = Some j" and "PublicKeyToJWK l = Some j"
    and "is_ok (JWK_PublicKey C (Some j))"
  shows "JWK_PublicKey C (Some j) = Inr k \<and> k = l"
proof -
  have dec: "JWK_PublicKey C (Some j) = Inr k" if "PublicKeyToJWK k = Some j"
      "is_ok (JWK_PublicKey C (Some j))" for k
    using that
    by (auto simp: PublicKeyToJWK_def JWK_PublicKey_def decodeBase64URL_def be_nat_leftPad
        be_nat_nat_bytes split: public_key.splits if_splits)
  from dec [OF assms(1,3)] dec [OF assms(2,3)] show ?thesis by simp
qed

lemma Credential_New_ok:
  assumes "Credential_New C opts = Inr c"
  shows "cr_Subject c = o_Subject opts" "cr_Issuer c = o_Issuer opts" "cr_Macaroon c = o_Macaroon opts"
    "cr_StatusRef c = o_StatusRef opts"
    "\<exists>k. o_HolderKey opts = Some k \<and> JWK_PublicKey C (cr_HolderKey c) = Inr k"
proof -
  from assms obtain j where j: "holderJWK C (o_HolderKey opts) = Inr j"
    and c: "c = \<lparr>cr_Subject = o_Subject opts, cr_Issuer = o_Issuer opts, cr_Macaroon = o_Macaroon opts,
      cr_StatusRef = o_StatusRef opts, cr_HolderKey = Some j, cr_VCWrapper = o_VCWrapper opts\<rparr>"
    by (auto simp: Credential_New_def bind_Inr_iff)
  from c show "cr_Subject c = o_Subject opts" "cr_Issuer c = o_Issuer opts"
    "cr_Macaroon c = o_Macaroon opts" "cr_StatusRef c = o_StatusRef opts" by simp_all
  from holderJWK_ok [OF j] obtain k where "o_HolderKey opts = Some k" "PublicKeyToJWK k = Some j"
    "is_ok (JWK_PublicKey C (Some j))" by blast
  with JWK_determines_key show "\<exists>k. o_HolderKey opts = Some k \<and> JWK_PublicKey C (cr_HolderKey c) = Inr k"
    by (simp add: c)
qed

section \<open>Properties\<close>

text \<open>
  The holder caveat admits exactly its holder: for two accepted holder keys, the caveat
  written for one is satisfied by the holder context of a credential composed for the other
  exactly when the keys are equal.
\<close>

theorem holder_caveat_exact:
  assumes "HolderCaveat C (Some k) = Inr cav" and "Credential_New C opts = Inr c"
    and "o_HolderKey opts = Some l"
  shows "is_ok (satisfied cav (HolderContext c)) \<longleftrightarrow> k = l"
proof -
  from assms(1) obtain j where j: "holderJWK C (Some k) = Inr j"
    and cav: "cav = \<lparr>c_Field = HolderField, c_Op = OpEq, c_Value = jwkValue j\<rparr>"
    by (auto simp: HolderCaveat_def HolderValue_def bind_Inr_iff)
  from assms(2,3) obtain i where i: "holderJWK C (Some l) = Inr i" and hk: "cr_HolderKey c = Some i"
    by (auto simp: Credential_New_def bind_Inr_iff split: if_splits)
  have kj: "PublicKeyToJWK k = Some j" "is_ok (JWK_PublicKey C (Some j))"
    and li: "PublicKeyToJWK l = Some i"
    using j i by (auto elim!: holderJWK_ok)
  have "jwkValue i = jwkValue j \<longleftrightarrow> k = l"
  proof
    assume "jwkValue i = jwkValue j"
    then have "i = j" by (rule jwkValue_inject [OF _ li kj(1)])
    with JWK_determines_key [OF kj(1) _ kj(2)] li show "k = l" by blast
  next
    assume "k = l"
    with kj li show "jwkValue i = jwkValue j" by simp
  qed
  then show ?thesis
    by (simp add: satisfied_def cav HolderContext_def hk)
qed

definition sample_macaroon :: Macaroon where
  "sample_macaroon =
     \<lparr>m_Location = ''loc'', m_Identifier = ''id'', m_Caveats = [], m_Signature = ''sig''\<rparr>"

definition sample_options :: "DID \<Rightarrow> DID \<Rightarrow> char \<Rightarrow> Options" where
  "sample_options iss sub k =
     \<lparr>o_Subject = sub, o_Issuer = iss, o_Macaroon = sample_macaroon,
      o_HolderKey = Some (Ed25519Key (toy_key k)),
      o_StatusRef = \<lparr>ref_ListURL = [], ref_Index = 0, ref_Issuer = []\<rparr>, o_VCWrapper = None\<rparr>"

lemma toy_holderJWK: "\<exists>j. holderJWK toy_crypto (Some (Ed25519Key (toy_key k))) = Inr j"
  using JWK_round_trip_aux [of toy_crypto "Ed25519Key (toy_key k)"]
  by (auto simp: holderJWK_def key_supported_def toy_key_def)

lemma sample_credential:
  "iss \<noteq> [] \<Longrightarrow> sub \<noteq> [] \<Longrightarrow> \<exists>c. Credential_New toy_crypto (sample_options iss sub k) = Inr c"
  using toy_holderJWK [of k]
  by (auto simp: Credential_New_def sample_options_def sample_macaroon_def)

theorem holder_caveat_exact_witness:
  "\<exists>cav c. HolderCaveat toy_crypto (Some (Ed25519Key (toy_key CHR ''a''))) = Inr cav \<and>
     \<not> is_ok (satisfied cav (HolderContext c)) \<and>
     Credential_New toy_crypto (sample_options ''i'' ''s'' CHR ''b'') = Inr c"
proof -
  obtain c where c: "Credential_New toy_crypto (sample_options ''i'' ''s'' CHR ''b'') = Inr c"
    using sample_credential [of "''i''" "''s''" "CHR ''b''"] by auto
  obtain cav where cav: "HolderCaveat toy_crypto (Some (Ed25519Key (toy_key CHR ''a''))) = Inr cav"
    using toy_holderJWK [of "CHR ''a''"] by (auto simp: HolderCaveat_def HolderValue_def)
  have "toy_key CHR ''a'' \<noteq> toy_key CHR ''b''" by (simp add: toy_key_def)
  with holder_caveat_exact [OF cav c] c cav show ?thesis by (auto simp: sample_options_def)
qed

text \<open>
  A proof of possession made by the bound holder verifies for the same action and
  position.
\<close>

theorem ProvePossession_verifies:
  assumes "signer_ok C holder" and "ProvePossession c holder nonce a seq ph = Inr pop"
    and "JWK_PublicKey C (cr_HolderKey c) = Inr (s_Public holder)" and "nonce \<noteq> []"
  shows "VerifyPossession C c pop a seq ph = Inr ()"
proof -
  from assms(3) have "cr_HolderKey c \<noteq> None"
    by (cases "cr_HolderKey c") (simp_all add: JWK_PublicKey_def)
  moreover from assms(2) obtain input sig where "popInput c nonce a seq ph = Inr input"
    and sig: "s_Sign holder input = Some sig" and "pop = \<lparr>pop_Nonce = nonce, pop_Signature = sig\<rparr>"
    by (auto simp: ProvePossession_def bind_Inr_iff split: option.splits)
  moreover note signer_okD [OF assms(1) sig]
  ultimately show ?thesis
    using assms(3,4) by (simp add: VerifyPossession_def)
qed

definition epoch_action :: Action where
  "epoch_action =
     \<lparr>a_Type = ''post.publish'', a_Target = ''blog'', a_Attributes = [],
      a_Timestamp = \<lparr>unix_ns = 0, zone_off = 0\<rparr>\<rparr>"

lemma epoch_action_ok [simp]: "action_marshals epoch_action" "action_clean epoch_action"
  by (simp_all add: action_marshals_def action_clean_def epoch_action_def time_marshals_def
      time_exact_def year_of_def Let_def)

theorem ProvePossession_verifies_witness:
  "\<exists>c pop. Credential_New toy_crypto (sample_options ''i'' ''s'' CHR ''h'') = Inr c \<and>
     ProvePossession c (toy_signer ''s'' CHR ''h'') ''n'' epoch_action 0 ''p'' = Inr pop \<and>
     VerifyPossession toy_crypto c pop epoch_action 0 ''p'' = Inr ()"
proof -
  obtain c where c: "Credential_New toy_crypto (sample_options ''i'' ''s'' CHR ''h'') = Inr c"
    using sample_credential [of "''i''" "''s''" "CHR ''h''"] by auto
  then have k: "JWK_PublicKey toy_crypto (cr_HolderKey c) = Inr (s_Public (toy_signer ''s'' CHR ''h''))"
    using Credential_New_ok(5) [OF c] by (simp add: sample_options_def toy_signer_def)
  obtain pop where pop: "ProvePossession c (toy_signer ''s'' CHR ''h'') ''n'' epoch_action 0 ''p'' = Inr pop"
    by (simp add: ProvePossession_def popInput_def toy_signer_def)
  from ProvePossession_verifies [OF toy_signer_ok pop k] c pop show ?thesis by auto
qed

text \<open>
  A proof of possession is good for one action at one log position: equal signing inputs,
  whatever credentials and nonces they were made for, come from the same action, sequence
  number and previous hash when the two hashes have the same width.
\<close>

theorem popInput_binds:
  assumes "popInput c n a seq ph = Inr x" and "popInput c' n' a' seq' ph' = Inr x"
    and "length ph = length ph'" and "action_clean a" and "action_clean a'"
  shows "action_eq a a' \<and> seq = seq' \<and> ph = ph'"
proof -
  let ?h = "\<lambda>c n. popDomain @ NUL # cr_Subject c @ NUL # m_Identifier (cr_Macaroon c) @ NUL # n"
  have "?h c n @ NUL # json_enc (action_json a) @ NUL # be64 seq @ NUL # ph =
      ?h c' n' @ NUL # json_enc (action_json a') @ NUL # be64 seq' @ NUL # ph'"
    using assms(1,2) by (auto simp: popInput_def)
  then have "json_enc (action_json a) = json_enc (action_json a')" "seq = seq'" "ph = ph'"
    using position_frame_inject assms(3) NUL_json_enc by blast+
  then show ?thesis
    using action_json_inject json_enc_inject json_valid_action assms(4,5) by auto
qed

theorem popInput_binds_witness:
  "\<exists>c x. Credential_New toy_crypto (sample_options ''i'' ''s'' CHR ''h'') = Inr c \<and>
     popInput c ''n'' epoch_action 4 ''p'' = Inr x \<and> popInput c ''n'' epoch_action 5 ''p'' \<noteq> Inr x"
proof -
  obtain c where c: "Credential_New toy_crypto (sample_options ''i'' ''s'' CHR ''h'') = Inr c"
    using sample_credential [of "''i''" "''s''" "CHR ''h''"] by auto
  obtain x where x: "popInput c ''n'' epoch_action 4 ''p'' = Inr x" by (simp add: popInput_def)
  have "popInput c ''n'' epoch_action 5 ''p'' \<noteq> Inr x"
  proof
    assume "popInput c ''n'' epoch_action 5 ''p'' = Inr x"
    from popInput_binds [OF x this] show False by simp
  qed
  with c x show ?thesis by blast
qed

text \<open>
  A credential wrapper issued by a signer verifies under its key, and the issuance time is
  inside its validity window unless it was issued already expired.
\<close>

theorem vc_Issue_verifies:
  assumes "signer_ok C s" and "vc_Issue now s subj opts = Inr c"
  shows "vc_Verify C c (s_Public s) = Inr () \<and> vc_Issuer c = s_DID s \<and>
    (vc_ExpirationDate c = None \<longrightarrow> vc_Valid c (vc_IssuanceDate c) = Inr ())"
proof -
  obtain p c0 where d: "vc_draft now s subj opts = (p, c0)" by (metis surj_pair)
  then have p: "vc_Proof c0 = Some p" "pr_Type p = ProofType" "vc_Issuer c0 = s_DID s" "pr_ProofValue p = []"
    by (auto simp: vc_draft_def Let_def)
  from assms(2) d obtain input sig where c0: "vc_signingInput c0 = Inr input"
    and sig: "s_Sign s input = Some sig"
    and c: "c = c0\<lparr>vc_Proof := Some (p\<lparr>pr_ProofValue := RawURLEncode sig\<rparr>)\<rparr>"
    by (auto simp: vc_Issue_def bind_Inr_iff split: option.splits)
  have "vc_signingInput c = vc_signingInput c0"
    using p by (simp add: c vc_signingInput_def Let_def)
  with c0 signer_okD [OF assms(1) sig] p c show ?thesis
    by (simp add: vc_Verify_def vc_Valid_def)
qed

definition sample_issue :: IssueOptions where
  "sample_issue =
     \<lparr>io_IssuedAt = \<lparr>unix_ns = 0, zone_off = 0\<rparr>, io_Expires = None, io_ExtraTypes = [],
      io_VerificationMethod = []\<rparr>"

theorem vc_Issue_verifies_witness:
  "\<exists>c. vc_Issue \<lparr>unix_ns = 0, zone_off = 0\<rparr> (toy_signer ''org'' CHR ''o'') JNull sample_issue = Inr c \<and>
     vc_Verify toy_crypto c (Ed25519Key (toy_key CHR ''o'')) = Inr ()"
proof -
  let ?s = "toy_signer ''org'' CHR ''o''"
  have t: "time_marshals \<lparr>unix_ns = 0, zone_off = 0\<rparr>"
    by (simp add: time_marshals_def year_of_def Let_def)
  obtain p c0 where d: "vc_draft \<lparr>unix_ns = 0, zone_off = 0\<rparr> ?s JNull sample_issue = (p, c0)"
    by (metis surj_pair)
  then have "vc_marshals (c0\<lparr>vc_Proof := map_option (\<lambda>p. p\<lparr>pr_ProofValue := []\<rparr>) (vc_Proof c0)\<rparr>)"
    using t by (auto simp: vc_draft_def sample_issue_def IsZero_def vc_marshals_def Let_def)
  then obtain input where "vc_signingInput c0 = Inr input"
    by (simp only: vc_signingInput_def Let_def) simp
  moreover have "s_Sign ?s input = Some (toy_key CHR ''o'' @ input)" by (simp add: toy_signer_def)
  ultimately obtain c where c: "vc_Issue \<lparr>unix_ns = 0, zone_off = 0\<rparr> ?s JNull sample_issue = Inr c"
    using d by (simp add: vc_Issue_def)
  from vc_Issue_verifies [OF toy_signer_ok c] c show ?thesis by (simp add: toy_signer_def)
qed

end
