(* ===== verification/Chain.thy ===== *)
theory Chain
  imports Credential
begin

text \<open>
  \<^verbatim>\<open>internal/chain\<close>: delegation chains.  Each hop is a credential and its issuer's signature
  over the whole credential; verification walks at most \<open>MaxDepth\<close> hops and checks issuance
  signature, holder key, continuity and attenuation.  The lemmas show what an accepted chain
  guarantees hop by hop, that authority only shrinks along it, that the issuance signature
  pins every field of the credential, and that a legitimate delegation extends it.
\<close>

record Link =
  lk_Credential :: Credential
  lk_IssuerProof :: bytes

record Chain =
  Links :: "Link list"

datatype chain_err =
    EmptyChain
  | TooDeep nat
  | ResolveIssuer nat DID did_err
  | IssuanceCanonicalize
  | HopCanonicalize nat
  | IssuanceInvalid nat DID
  | ResolveSubject nat DID did_err
  | HopNoHolderKey nat
  | HopHolderKey nat did_err
  | HolderMismatch nat DID
  | ContinuityBroken nat DID DID
  | NotAttenuation nat macaroon_err
  | IssuerMismatch DID DID
  | IssuanceSign

definition issuanceDomain :: string where "issuanceDomain = ''kessa/issuance/v2''"
definition MaxDepth :: nat where "MaxDepth = 8"

section \<open>What an issuer signs\<close>

definition caveat_json :: "Caveat \<Rightarrow> json" where
  "caveat_json c =
     JObj [(''Field'', JStr (c_Field c)), (''Op'', JStr (c_Op c)), (''Value'', JStr (c_Value c))]"

definition macaroon_json :: "Macaroon \<Rightarrow> json" where
  "macaroon_json m =
     JObj [(''Location'', JStr (m_Location m)), (''Identifier'', JStr (m_Identifier m)),
           (''Caveats'', JList caveat_json (m_Caveats m)), (''Signature'', JBytes (m_Signature m))]"

definition reference_json :: "Reference \<Rightarrow> json" where
  "reference_json r =
     JObj ([(''listURL'', JStr (ref_ListURL r)), (''index'', JInt (ref_Index r))] @
           omitempty ''issuer'' (ref_Issuer r = []) (JStr (ref_Issuer r)))"

definition credential_json :: "Credential \<Rightarrow> json" where
  "credential_json c =
     JObj ([(''subject'', JStr (cr_Subject c)), (''issuer'', JStr (cr_Issuer c)),
            (''macaroon'', macaroon_json (cr_Macaroon c)),
            (''statusRef'', reference_json (cr_StatusRef c)),
            (''holderKey'', (case cr_HolderKey c of None \<Rightarrow> JNull | Some j \<Rightarrow> jwk_json j))] @
           (case cr_VCWrapper c of None \<Rightarrow> [] | Some v \<Rightarrow> [(''vcWrapper'', vc_json v)]))"

definition credential_marshals :: "Credential \<Rightarrow> bool" where
  "credential_marshals c \<longleftrightarrow> (case cr_VCWrapper c of None \<Rightarrow> True | Some v \<Rightarrow> vc_marshals v)"

definition IssuanceInput :: "Credential \<Rightarrow> chain_err + bytes" where
  "IssuanceInput c =
     (if \<not> credential_marshals c then Inl IssuanceCanonicalize
      else Inr (issuanceDomain @ NUL # json_enc (credential_json c)))"

definition SignIssuance :: "Signer \<Rightarrow> Credential \<Rightarrow> chain_err + bytes" where
  "SignIssuance issuer c =
     (if s_DID issuer \<noteq> cr_Issuer c then Inl (IssuerMismatch (s_DID issuer) (cr_Issuer c))
      else case IssuanceInput c of
          Inl e \<Rightarrow> Inl e
        | Inr input \<Rightarrow>
            (case s_Sign issuer input of None \<Rightarrow> Inl IssuanceSign | Some sig \<Rightarrow> Inr sig))"

section \<open>Verification\<close>

definition verify_hop ::
  "crypto \<Rightarrow> Resolver \<Rightarrow> nat \<Rightarrow> Link option \<Rightarrow> Link \<Rightarrow> chain_err + unit" where
  "verify_hop C r i parent lk =
     (let c = lk_Credential lk in
      case ResolveKey C r (cr_Issuer c) of
        Inl e \<Rightarrow> Inl (ResolveIssuer i (cr_Issuer c) e)
      | Inr issuerKey \<Rightarrow>
          (case IssuanceInput c of
             Inl _ \<Rightarrow> Inl (HopCanonicalize i)
           | Inr input \<Rightarrow>
               if \<not> Signer_Verify C issuerKey input (lk_IssuerProof lk)
               then Inl (IssuanceInvalid i (cr_Subject c))
               else (case ResolveKey C r (cr_Subject c) of
                   Inl e \<Rightarrow> Inl (ResolveSubject i (cr_Subject c) e)
                 | Inr subjectKey \<Rightarrow>
                     if cr_HolderKey c = None then Inl (HopNoHolderKey i)
                     else (case JWK_PublicKey C (cr_HolderKey c) of
                         Inl e \<Rightarrow> Inl (HopHolderKey i e)
                       | Inr holderKey \<Rightarrow>
                           if \<not> KeysEqual (Some subjectKey) (Some holderKey)
                           then Inl (HolderMismatch i (cr_Subject c))
                           else (case parent of
                               None \<Rightarrow> Inr ()
                             | Some p \<Rightarrow>
                                 if cr_Issuer c \<noteq> cr_Subject (lk_Credential p)
                                 then Inl (ContinuityBroken i (cr_Issuer c) (cr_Subject (lk_Credential p)))
                                 else map_err (NotAttenuation i)
                                        (Extends (cr_Macaroon c) (cr_Macaroon (lk_Credential p))))))))"

fun verify_hops ::
  "crypto \<Rightarrow> Resolver \<Rightarrow> nat \<Rightarrow> Link option \<Rightarrow> Link list \<Rightarrow> chain_err + unit" where
  "verify_hops C r i parent [] = Inr ()"
| "verify_hops C r i parent (lk # lks) =
     (case verify_hop C r i parent lk of
        Inl e \<Rightarrow> Inl e
      | Inr _ \<Rightarrow> verify_hops C r (Suc i) (Some lk) lks)"

definition Chain_Verify :: "crypto \<Rightarrow> Resolver \<Rightarrow> Chain \<Rightarrow> chain_err + unit" where
  "Chain_Verify C r ch =
     (if Links ch = [] then Inl EmptyChain
      else if length (Links ch) > MaxDepth then Inl (TooDeep (length (Links ch)))
      else verify_hops C r 0 None (Links ch))"

definition Principals :: "Chain \<Rightarrow> DID list" where
  "Principals ch =
     (case Links ch of
        [] \<Rightarrow> []
      | lk # _ \<Rightarrow> cr_Issuer (lk_Credential lk) # map (\<lambda>l. cr_Subject (lk_Credential l)) (Links ch))"

definition Chain_Root :: "Chain \<Rightarrow> DID" where
  "Chain_Root ch = (case Links ch of [] \<Rightarrow> [] | lk # _ \<Rightarrow> cr_Issuer (lk_Credential lk))"

definition Chain_Actor :: "Chain \<Rightarrow> DID" where
  "Chain_Actor ch = (if Links ch = [] then [] else cr_Subject (lk_Credential (last (Links ch))))"

section \<open>What acceptance means\<close>

text \<open>The conditions on one hop, without the order in which the code checks them.\<close>

definition hop_sound :: "crypto \<Rightarrow> Resolver \<Rightarrow> Link \<Rightarrow> bool" where
  "hop_sound C r lk \<longleftrightarrow>
     (let c = lk_Credential lk in
      (\<exists>key input. ResolveKey C r (cr_Issuer c) = Inr key \<and> IssuanceInput c = Inr input \<and>
         Signer_Verify C key input (lk_IssuerProof lk)) \<and>
      (\<exists>key. ResolveKey C r (cr_Subject c) = Inr key \<and> JWK_PublicKey C (cr_HolderKey c) = Inr key))"

definition hop_follows :: "Link \<Rightarrow> Link \<Rightarrow> bool" where
  "hop_follows p lk \<longleftrightarrow>
     cr_Issuer (lk_Credential lk) = cr_Subject (lk_Credential p) \<and>
     is_ok (Extends (cr_Macaroon (lk_Credential lk)) (cr_Macaroon (lk_Credential p)))"

lemma JWK_PublicKey_None [simp]: "JWK_PublicKey C None = Inl NilJWK"
  by (simp add: JWK_PublicKey_def)

lemma ResolveKey_known: "ResolveKey C r d = Inr k \<Longrightarrow> k \<noteq> UnknownKey"
  by (auto simp: ResolveKey_def FirstKey_def neq_Nil_conv bind_Inr_iff split: list.split_asm
      dest: JWK_PublicKey_supported)

lemma verify_hop_ok:
  "is_ok (verify_hop C r i parent lk) \<longleftrightarrow>
     hop_sound C r lk \<and> (case parent of None \<Rightarrow> True | Some p \<Rightarrow> hop_follows p lk)"
proof -
  let ?c = "lk_Credential lk"
  show ?thesis
  proof (cases "ResolveKey C r (cr_Issuer ?c)")
    case (Inr k)
    note issuer = this
    show ?thesis
    proof (cases "IssuanceInput ?c")
      case (Inr input)
      note input = this
      show ?thesis
      proof (cases "ResolveKey C r (cr_Subject ?c)")
        case (Inr sk)
        note known = ResolveKey_known [OF Inr]
        show ?thesis
          using issuer input Inr known
          by (cases "cr_HolderKey ?c"; cases "JWK_PublicKey C (cr_HolderKey ?c)"; cases parent)
             (auto simp: verify_hop_def hop_sound_def hop_follows_def Let_def KeysEqual_iff)
      qed (use issuer input in \<open>auto simp: verify_hop_def hop_sound_def Let_def\<close>)
    qed (use issuer in \<open>auto simp: verify_hop_def hop_sound_def Let_def\<close>)
  qed (auto simp: verify_hop_def hop_sound_def Let_def)
qed

lemma verify_hops_ok:
  "is_ok (verify_hops C r i parent lks) \<longleftrightarrow>
     list_all (hop_sound C r) lks \<and>
     successively hop_follows (case parent of None \<Rightarrow> lks | Some p \<Rightarrow> p # lks)"
proof (induction lks arbitrary: i parent)
  case Nil
  then show ?case by (cases parent) auto
next
  case (Cons lk lks)
  show ?case
    by (cases parent) (auto simp: verify_hop_ok Cons.IH)
qed

lemma Chain_Verify_ok:
  "is_ok (Chain_Verify C r ch) \<longleftrightarrow>
     Links ch \<noteq> [] \<and> length (Links ch) \<le> MaxDepth \<and>
     list_all (hop_sound C r) (Links ch) \<and> successively hop_follows (Links ch)"
  by (auto simp: Chain_Verify_def verify_hops_ok)

lemma Chain_macaroons:
  "is_ok (Chain_Verify C r ch) \<Longrightarrow>
     successively (\<lambda>p m. is_ok (Extends m p)) (map (\<lambda>l. cr_Macaroon (lk_Credential l)) (Links ch))"
  by (auto simp: Chain_Verify_ok successively_map hop_follows_def elim: successively_mono)

lemma Principals_eq:
  assumes "successively hop_follows lks" and "lks \<noteq> []"
  shows "cr_Issuer (lk_Credential (hd lks)) # map (\<lambda>l. cr_Subject (lk_Credential l)) lks =
    map (\<lambda>l. cr_Issuer (lk_Credential l)) lks @ [cr_Subject (lk_Credential (last lks))]"
  using assms
  by (induction lks rule: induct_list012) (auto simp: hop_follows_def)

section \<open>What the issuance signature pins\<close>

definition vc_clean :: "VerifiableCredential \<Rightarrow> bool" where
  "vc_clean v \<longleftrightarrow>
     json_valid (vc_json v) \<and> time_exact (vc_IssuanceDate v) \<and>
     (case vc_ExpirationDate v of None \<Rightarrow> True | Some t \<Rightarrow> time_exact t) \<and>
     (case vc_Proof v of None \<Rightarrow> True | Some p \<Rightarrow> time_exact (pr_Created p))"

definition credential_clean :: "Credential \<Rightarrow> bool" where
  "credential_clean c \<longleftrightarrow>
     json_valid (credential_json c) \<and> (case cr_VCWrapper c of None \<Rightarrow> True | Some v \<Rightarrow> vc_clean v)"

lemma proof_json_inject:
  "proof_json p = proof_json q \<Longrightarrow> time_exact (pr_Created p) \<Longrightarrow> time_exact (pr_Created q) \<Longrightarrow> p = (q :: Proof)"
  by (cases p; cases q) (auto simp: proof_json_def dest: RFC3339Nano_inject)

lemma vc_json_inject:
  "vc_json v = vc_json w \<Longrightarrow> vc_clean v \<Longrightarrow> vc_clean w \<Longrightarrow> v = (w :: VerifiableCredential)"
  by (cases v; cases w)
     (auto simp: vc_json_def vc_clean_def dest!: RFC3339Nano_inject JList_inject proof_json_inject
       split: option.splits)

lemma caveat_json_inject [simp]: "caveat_json c = caveat_json d \<longleftrightarrow> c = (d :: Caveat)"
  by (cases c; cases d) (auto simp: caveat_json_def)

lemma macaroon_json_inject: "macaroon_json m = macaroon_json n \<Longrightarrow> m = (n :: Macaroon)"
  by (cases m; cases n) (auto simp: macaroon_json_def dest: JList_inject)

lemma reference_json_inject: "reference_json r = reference_json s \<Longrightarrow> r = (s :: Reference)"
  by (cases r; cases s) (auto simp: reference_json_def omitempty_def split: if_splits)

lemma jwk_json_not_null [simp]: "jwk_json j \<noteq> JNull" "JNull \<noteq> jwk_json j"
  by (simp_all add: jwk_json_def)

lemma credential_json_inject:
  "credential_json c = credential_json d \<Longrightarrow> credential_clean c \<Longrightarrow> credential_clean d \<Longrightarrow> c = (d :: Credential)"
  by (cases c; cases d)
     (auto simp: credential_json_def credential_clean_def split: option.splits
       dest: macaroon_json_inject reference_json_inject jwk_json_inject vc_json_inject)

section \<open>A concrete chain\<close>

definition toy_resolver :: "(DID \<Rightarrow> char) \<Rightarrow> Resolver" where
  "toy_resolver keys d =
     (case NewDocument d (Ed25519Key (toy_key (keys d))) of
        None \<Rightarrow> Inl (ResolveFailed d) | Some doc \<Rightarrow> Inr doc)"

lemma toy_ResolveKey [simp]:
  "ResolveKey toy_crypto (toy_resolver keys) d = Inr (Ed25519Key (toy_key (keys d)))"
proof -
  have "key_supported toy_crypto (Ed25519Key (toy_key (keys d)))"
    by (simp add: key_supported_def toy_key_def)
  from JWK_round_trip_aux [OF this] show ?thesis
    by (auto simp: ResolveKey_def toy_resolver_def NewDocument_def FirstKey_def Let_def)
qed

definition sample_keys :: "DID \<Rightarrow> char" where
  "sample_keys d = (if d = ''org'' then CHR ''o'' else CHR ''a'')"

lemma sample_link:
  assumes "iss \<noteq> []" and "sub \<noteq> []"
  shows "\<exists>c sig. SignIssuance (toy_signer iss (keys iss)) c = Inr sig \<and>
    cr_Issuer c = iss \<and> cr_Subject c = sub \<and> cr_Macaroon c = sample_macaroon \<and>
    JWK_PublicKey toy_crypto (cr_HolderKey c) = Inr (Ed25519Key (toy_key (keys sub))) \<and>
    ref_ListURL (cr_StatusRef c) = [] \<and> cr_VCWrapper c = None \<and>
    hop_sound toy_crypto (toy_resolver keys) \<lparr>lk_Credential = c, lk_IssuerProof = sig\<rparr>"
proof -
  obtain c where c: "Credential_New toy_crypto (sample_options iss sub (keys sub)) = Inr c"
    using sample_credential [OF assms] by blast
  have vc: "cr_VCWrapper c = None"
    using c by (auto simp: Credential_New_def sample_options_def bind_Inr_iff)
  then obtain input where i: "IssuanceInput c = Inr input"
    by (simp add: IssuanceInput_def credential_marshals_def)
  note p = Credential_New_ok [OF c]
  have s: "SignIssuance (toy_signer iss (keys iss)) c = Inr (toy_key (keys iss) @ input)"
    using i p(2) by (simp add: SignIssuance_def toy_signer_def sample_options_def)
  with i p vc show ?thesis
    by (intro exI [of _ c] exI [of _ "toy_key (keys iss) @ input"])
       (auto simp: hop_sound_def sample_options_def Let_def)
qed

lemma sample_chain:
  "\<exists>lk. Chain_Verify toy_crypto (toy_resolver sample_keys) \<lparr>Links = [lk]\<rparr> = Inr () \<and>
     cr_Issuer (lk_Credential lk) = ''org'' \<and> cr_Subject (lk_Credential lk) = ''agent'' \<and>
     cr_Macaroon (lk_Credential lk) = sample_macaroon \<and>
     ref_ListURL (cr_StatusRef (lk_Credential lk)) = []"
proof -
  obtain c sig where c: "cr_Issuer c = ''org''" "cr_Subject c = ''agent''" "cr_Macaroon c = sample_macaroon"
    "ref_ListURL (cr_StatusRef c) = []"
    "hop_sound toy_crypto (toy_resolver sample_keys) \<lparr>lk_Credential = c, lk_IssuerProof = sig\<rparr>"
    using sample_link [of "''org''" "''agent''" sample_keys] by auto
  then show ?thesis
    by (intro exI [of _ "\<lparr>lk_Credential = c, lk_IssuerProof = sig\<rparr>"])
       (simp add: Inr_unit_iff Chain_Verify_ok MaxDepth_def)
qed

section \<open>Properties\<close>

text \<open>
  C19. A verified chain has between one and eight hops, and at every hop the issuer's published
  key signed the whole credential, the bound holder key is the subject's published key, the
  issuer is the previous hop's subject, and the macaroon attenuates the previous hop's; these
  conditions are also sufficient.
\<close>

theorem Chain_Verify_exact:
  "Chain_Verify C r ch = Inr () \<longleftrightarrow>
     1 \<le> length (Links ch) \<and> length (Links ch) \<le> 8 \<and>
     list_all (hop_sound C r) (Links ch) \<and> successively hop_follows (Links ch)"
  using Chain_Verify_ok [of C r ch] by (auto simp: Inr_unit_iff MaxDepth_def Suc_le_eq)

text \<open>
  C20. Authority only shrinks along a verified chain: a context the actor's macaroon permits is
  permitted by every hop's macaroon up to the root, and the principals listed are the issuers
  of the hops in order followed by the actor.
\<close>

theorem Chain_authority_shrinks:
  assumes "Chain_Verify C r ch = Inr ()"
    and "is_ok (Macaroon_Satisfies (cr_Macaroon (lk_Credential (last (Links ch)))) ctx)"
  shows "list_all (\<lambda>l. is_ok (Macaroon_Satisfies (cr_Macaroon (lk_Credential l)) ctx)) (Links ch) \<and>
    Principals ch = map (\<lambda>l. cr_Issuer (lk_Credential l)) (Links ch) @ [Chain_Actor ch]"
proof -
  let ?ms = "map (\<lambda>l. cr_Macaroon (lk_Credential l)) (Links ch)"
  from assms(1) have ok: "is_ok (Chain_Verify C r ch)" by simp
  then have ne: "Links ch \<noteq> []" and f: "successively hop_follows (Links ch)"
    by (auto simp: Chain_Verify_ok)
  from ne assms(2) have "is_ok (Macaroon_Satisfies (last ?ms) ctx)" by (simp add: last_map)
  then have "\<forall>m \<in> set ?ms. is_ok (Macaroon_Satisfies m ctx)"
    using macaroon.terminal_allows [OF Chain_macaroons [OF ok]] by blast
  moreover have "Principals ch = map (\<lambda>l. cr_Issuer (lk_Credential l)) (Links ch) @ [Chain_Actor ch]"
    using Principals_eq [OF f ne] ne
    by (auto simp: Principals_def Chain_Actor_def split: list.splits)
  ultimately show ?thesis by (simp add: list_all_iff)
qed

theorem Chain_authority_shrinks_witness:
  "\<exists>lk. Chain_Verify toy_crypto (toy_resolver sample_keys) \<lparr>Links = [lk]\<rparr> = Inr () \<and>
     Principals \<lparr>Links = [lk]\<rparr> = [''org'', ''agent'']"
proof -
  obtain lk where lk: "Chain_Verify toy_crypto (toy_resolver sample_keys) \<lparr>Links = [lk]\<rparr> = Inr ()"
    "cr_Issuer (lk_Credential lk) = ''org''" "cr_Subject (lk_Credential lk) = ''agent''"
    "cr_Macaroon (lk_Credential lk) = sample_macaroon"
    using sample_chain by blast
  then have "is_ok (Macaroon_Satisfies (cr_Macaroon (lk_Credential (last (Links \<lparr>Links = [lk]\<rparr>)))) Map.empty)"
    by (simp add: Macaroon_Satisfies_def sample_macaroon_def)
  from Chain_authority_shrinks [OF lk(1) this] lk show ?thesis by (auto simp: Chain_Actor_def)
qed

text \<open>
  An issuance signature pins the whole credential: equal signing inputs come from equal
  credentials, in every field including the status reference, the holder key and the wrapper.
\<close>

theorem IssuanceInput_binds:
  assumes "IssuanceInput c = Inr x" and "IssuanceInput d = Inr x"
    and "credential_clean c" and "credential_clean d"
  shows "c = d"
proof -
  have "json_enc (credential_json c) = json_enc (credential_json d)"
    using assms(1,2) by (auto simp: IssuanceInput_def)
  then have "credential_json c = credential_json d"
    using json_enc_inject assms(3,4) by (auto simp: credential_clean_def)
  then show ?thesis using credential_json_inject assms(3,4) by blast
qed

theorem IssuanceInput_binds_witness:
  "\<exists>c x. IssuanceInput c = Inr x \<and> IssuanceInput (c\<lparr>cr_Subject := ''b''\<rparr>) \<noteq> Inr x"
proof -
  let ?c = "\<lparr>cr_Subject = ''a'', cr_Issuer = ''o'', cr_Macaroon = sample_macaroon,
    cr_StatusRef = \<lparr>ref_ListURL = [], ref_Index = 0, ref_Issuer = []\<rparr>, cr_HolderKey = None,
    cr_VCWrapper = None\<rparr>"
  have clean: "credential_clean ?c" "credential_clean (?c\<lparr>cr_Subject := ''b''\<rparr>)"
    by (simp_all add: credential_clean_def credential_json_def macaroon_json_def sample_macaroon_def
        reference_json_def omitempty_def JList_def)
  obtain x where x: "IssuanceInput ?c = Inr x" by (simp add: IssuanceInput_def credential_marshals_def)
  have "IssuanceInput (?c\<lparr>cr_Subject := ''b''\<rparr>) \<noteq> Inr x"
    using IssuanceInput_binds [OF x _ clean] by auto
  with x show ?thesis by blast
qed

text \<open>
  Delegation works: when the current actor's signer issues a further credential to a
  subject whose published key is the bound holder key, with a macaroon that extends the
  actor's, the lengthened chain verifies as long as it stays within eight hops.
\<close>

theorem delegation_extends_chain:
  assumes "Chain_Verify C r ch = Inr ()" and "length (Links ch) < 8"
    and "signer_ok C s" and "s_DID s = Chain_Actor ch" and "SignIssuance s c = Inr sig"
    and "ResolveKey C r (s_DID s) = Inr (s_Public s)"
    and "ResolveKey C r (cr_Subject c) = Inr k" and "JWK_PublicKey C (cr_HolderKey c) = Inr k"
    and "is_ok (Extends (cr_Macaroon c) (cr_Macaroon (lk_Credential (last (Links ch)))))"
  shows "Chain_Verify C r \<lparr>Links = Links ch @ [\<lparr>lk_Credential = c, lk_IssuerProof = sig\<rparr>]\<rparr> = Inr ()"
proof -
  let ?lk = "\<lparr>lk_Credential = c, lk_IssuerProof = sig\<rparr>"
  have ch: "Links ch \<noteq> []" "list_all (hop_sound C r) (Links ch)" "successively hop_follows (Links ch)"
    using assms(1) by (auto simp: Chain_Verify_exact)
  obtain input where iss: "cr_Issuer c = s_DID s" and input: "IssuanceInput c = Inr input"
    and sig: "s_Sign s input = Some sig"
    using assms(5) by (auto simp: SignIssuance_def bind_Inr_iff split: option.splits)
  have "hop_sound C r ?lk"
    using input iss signer_okD [OF assms(3) sig] assms(6-8) by (auto simp: hop_sound_def Let_def)
  moreover have "hop_follows (last (Links ch)) ?lk"
    using iss assms(4,9) ch(1) by (simp add: hop_follows_def Chain_Actor_def)
  ultimately show ?thesis
    using ch assms(2) by (auto simp: Chain_Verify_exact successively_append_iff)
qed

theorem delegation_extends_chain_witness:
  "\<exists>lk lk'. Chain_Verify toy_crypto (toy_resolver sample_keys) \<lparr>Links = [lk, lk']\<rparr> = Inr ()"
proof -
  obtain lk where lk: "Chain_Verify toy_crypto (toy_resolver sample_keys) \<lparr>Links = [lk]\<rparr> = Inr ()"
    "cr_Subject (lk_Credential lk) = ''agent''" "cr_Macaroon (lk_Credential lk) = sample_macaroon"
    using sample_chain by blast
  let ?s = "toy_signer ''agent'' (sample_keys ''agent'')"
  obtain c sig where c: "SignIssuance ?s c = Inr sig" "cr_Subject c = ''helper''"
    "cr_Macaroon c = sample_macaroon"
    "JWK_PublicKey toy_crypto (cr_HolderKey c) = Inr (Ed25519Key (toy_key (sample_keys ''helper'')))"
    using sample_link [of "''agent''" "''helper''" sample_keys] by auto
  have "Chain_Verify toy_crypto (toy_resolver sample_keys)
      \<lparr>Links = Links \<lparr>Links = [lk]\<rparr> @ [\<lparr>lk_Credential = c, lk_IssuerProof = sig\<rparr>]\<rparr> = Inr ()"
    by (rule delegation_extends_chain [OF lk(1) _ toy_signer_ok _ c(1)])
      (use lk c in \<open>auto simp: Chain_Actor_def toy_signer_def Extends_refl\<close>)
  then show ?thesis by auto
qed

end
