(* ===== verification/Policy.thy ===== *)
theory Policy
  imports Macaroon "HOL-Library.Multiset"
begin

text \<open>
  \<^verbatim>\<open>internal/policy\<close>: an ordered rule list classifies an action.  A condition has three
  outcomes (holds, does not hold, cannot be evaluated), and a rule that cannot be evaluated
  denies before any later rule or the default answers.  The parameter \<open>q\<close> is the \<^verbatim>\<open>%q\<close>
  quoting of \<^verbatim>\<open>fmt\<close>, whose output depends on Unicode tables and only enters a reason text.
  \<open>Policy_Parse\<close> takes the decoded JSON members; decoding them from bytes is
  \<^verbatim>\<open>encoding/json\<close>'s work and its result is an argument.  The locale \<open>evaluator\<close> is the
  \<^verbatim>\<open>Evaluator\<close> interface the proxy and the verifier call.
\<close>

section \<open>The evaluator interface\<close>

locale evaluator =
  fixes evaluate :: "Action \<Rightarrow> Decision"
    and version :: string
  assumes evaluate_version: "d_PolicyVersion (evaluate a) = version"
    and evaluate_hops: "d_StatusCheckedHops (evaluate a) = 0"
    and evaluate_context: "Context a = Context b \<Longrightarrow> evaluate a = evaluate b"
begin

lemma evaluate_action_eq: "action_eq a b \<Longrightarrow> evaluate a = evaluate b"
  by (rule evaluate_context) (rule action_eq_Context)

lemma evaluate_with_hops:
  "(evaluate a)\<lparr>d_StatusCheckedHops := 0\<rparr> = evaluate a"
  by (rule Decision.equality) (simp_all add: evaluate_hops)

end

section \<open>Policies\<close>

record Condition =
  cn_Field :: string
  cn_Op :: string
  cn_Value :: string

record Rule =
  r_Name :: string
  r_When :: "Condition list"
  r_Deny :: bool
  r_Consequential :: bool
  r_Reason :: string

record Default =
  df_Allowed :: bool
  df_Consequential :: bool
  df_Reason :: string

record Policy =
  Ver :: string
  Rules :: "Rule list"
  pDefault :: Default
  defaultPresent :: bool

record raw_policy =
  raw_Ver :: string
  raw_Rules :: "Rule list"
  raw_Default :: "Default option"

definition DefaultRule :: string where "DefaultRule = ''default''"

definition zero_Default :: Default where
  "zero_Default = \<lparr>df_Allowed = False, df_Consequential = False, df_Reason = []\<rparr>"

definition Policy_UnmarshalJSON :: "raw_policy \<Rightarrow> Policy" where
  "Policy_UnmarshalJSON raw =
     \<lparr>Ver = raw_Ver raw, Rules = raw_Rules raw,
      pDefault = (case raw_Default raw of None \<Rightarrow> zero_Default | Some d \<Rightarrow> d),
      defaultPresent = (raw_Default raw \<noteq> None)\<rparr>"

datatype policy_err =
    PolicyDecode
  | MissingVersion
  | MissingDefault
  | EmptyDefaultReason
  | RuleNoName nat
  | RuleNoConditions string
  | RuleCondition string policy_err
  | RuleNoReason string
  | CondEmptyField
  | CondEmptyValue string string
  | CondNotScalar string string string
  | CondUnknownOp string string

section \<open>Validation\<close>

definition Condition_validate :: "Condition \<Rightarrow> policy_err + unit" where
  "Condition_validate c =
     (if TrimSpace (cn_Field c) = [] then Inl CondEmptyField
      else if cn_Op c = OpEq \<or> cn_Op c = OpNe \<or> cn_Op c = OpIn then
        (if cn_Value c = [] then Inl (CondEmptyValue (cn_Field c) (cn_Op c)) else Inr ())
      else if is_order_op (cn_Op c) then
        (if scalar_Parse (cn_Value c) = None
         then Inl (CondNotScalar (cn_Field c) (cn_Op c) (cn_Value c)) else Inr ())
      else Inl (CondUnknownOp (cn_Field c) (cn_Op c)))"

fun validate_conditions :: "string \<Rightarrow> Condition list \<Rightarrow> policy_err + unit" where
  "validate_conditions name [] = Inr ()"
| "validate_conditions name (c # cs) =
     (case Condition_validate c of
        Inl e \<Rightarrow> Inl (RuleCondition name e)
      | Inr _ \<Rightarrow> validate_conditions name cs)"

fun validate_rules :: "nat \<Rightarrow> Rule list \<Rightarrow> policy_err + unit" where
  "validate_rules i [] = Inr ()"
| "validate_rules i (r # rs) =
     (if TrimSpace (r_Name r) = [] then Inl (RuleNoName i)
      else if r_When r = [] then Inl (RuleNoConditions (r_Name r))
      else case validate_conditions (r_Name r) (r_When r) of
          Inl e \<Rightarrow> Inl e
        | Inr _ \<Rightarrow>
            if TrimSpace (r_Reason r) = [] then Inl (RuleNoReason (r_Name r))
            else validate_rules (Suc i) rs)"

definition Policy_Validate :: "Policy \<Rightarrow> policy_err + unit" where
  "Policy_Validate p =
     (if TrimSpace (Ver p) = [] then Inl MissingVersion
      else if \<not> defaultPresent p then Inl MissingDefault
      else if TrimSpace (df_Reason (pDefault p)) = [] then Inl EmptyDefaultReason
      else validate_rules 0 (Rules p))"

definition Policy_Parse :: "(bytes \<Rightarrow> raw_policy option) \<Rightarrow> bytes \<Rightarrow> policy_err + Policy" where
  "Policy_Parse unmarshal data =
     (case unmarshal data of
        None \<Rightarrow> Inl PolicyDecode
      | Some raw \<Rightarrow>
          let p = Policy_UnmarshalJSON raw in
          (case Policy_Validate p of Inl e \<Rightarrow> Inl e | Inr _ \<Rightarrow> Inr p))"

section \<open>Evaluation\<close>

definition Condition_eval :: "Condition \<Rightarrow> context_map \<Rightarrow> bool \<times> bool" where
  "Condition_eval c ctx =
     (case ctx (cn_Field c) of
        None \<Rightarrow> (False, False)
      | Some got \<Rightarrow>
          if cn_Op c = OpEq then (got = cn_Value c, False)
          else if cn_Op c = OpNe then (got \<noteq> cn_Value c, False)
          else if is_order_op (cn_Op c) then
            (case (scalar_Parse got, scalar_Parse (cn_Value c)) of
               (Some gs, Some vs) \<Rightarrow> (scalar_Satisfies gs (cn_Op c) vs, False)
             | _ \<Rightarrow> (False, True))
          else if cn_Op c = OpIn then
            (list_ex (\<lambda>m. TrimSpace m \<noteq> [] \<and> got = TrimSpace m) (Split CHR '','' (cn_Value c)), False)
          else (False, False))"

fun rule_loop :: "Condition list \<Rightarrow> context_map \<Rightarrow> bool \<Rightarrow> bool \<Rightarrow> bool \<times> bool" where
  "rule_loop [] ctx matched indet = (matched \<and> \<not> indet, indet)"
| "rule_loop (c # cs) ctx matched indet =
     (let (ok, ind) = Condition_eval c ctx in
      rule_loop cs ctx (if \<not> ok then False else matched) (if ind then True else indet))"

definition Rule_eval :: "Rule \<Rightarrow> context_map \<Rightarrow> bool \<times> bool" where
  "Rule_eval r ctx = rule_loop (r_When r) ctx True False"

definition indeterminateFields :: "Rule \<Rightarrow> context_map \<Rightarrow> string" where
  "indeterminateFields r ctx =
     Join '', '' (map cn_Field (filter (\<lambda>c. snd (Condition_eval c ctx)) (r_When r)))"

fun evaluate_rules ::
  "(string \<Rightarrow> string) \<Rightarrow> string \<Rightarrow> context_map \<Rightarrow> Rule list \<Rightarrow> Decision option" where
  "evaluate_rules q ver ctx [] = None"
| "evaluate_rules q ver ctx (r # rs) =
     (let (matched, indeterminate) = Rule_eval r ctx in
      if indeterminate then
        Some \<lparr>d_Allowed = False, d_Consequential = True, d_RuleFired = r_Name r,
              d_PolicyVersion = ver, d_StatusCheckedHops = 0,
              d_Reason = ''rule '' @ q (r_Name r) @ '' could not be evaluated: '' @
                         indeterminateFields r ctx @ '' is not comparable''\<rparr>
      else if matched then
        Some \<lparr>d_Allowed = (\<not> r_Deny r), d_Consequential = r_Consequential r,
              d_RuleFired = r_Name r, d_PolicyVersion = ver, d_StatusCheckedHops = 0,
              d_Reason = r_Reason r\<rparr>
      else evaluate_rules q ver ctx rs)"

definition Policy_Evaluate :: "(string \<Rightarrow> string) \<Rightarrow> Policy \<Rightarrow> Action \<Rightarrow> Decision" where
  "Policy_Evaluate q p a =
     (case evaluate_rules q (Ver p) (Context a) (Rules p) of
        Some d \<Rightarrow> d
      | None \<Rightarrow>
          \<lparr>d_Allowed = df_Allowed (pDefault p), d_Consequential = df_Consequential (pDefault p),
           d_RuleFired = DefaultRule, d_PolicyVersion = Ver p, d_StatusCheckedHops = 0,
           d_Reason = df_Reason (pDefault p)\<rparr>)"

definition Policy_Version :: "Policy \<Rightarrow> string" where
  "Policy_Version p = Ver p"

section \<open>Evaluation of rules\<close>

lemma rule_loop_eq:
  "rule_loop cs ctx m i =
     (let ind = i \<or> list_ex (\<lambda>c. snd (Condition_eval c ctx)) cs in
      (m \<and> list_all (\<lambda>c. fst (Condition_eval c ctx)) cs \<and> \<not> ind, ind))"
  by (induction cs arbitrary: m i) (auto simp: Let_def split_beta)

lemma Rule_eval_eq:
  "Rule_eval r ctx =
     (list_all (\<lambda>c. Condition_eval c ctx = (True, False)) (r_When r),
      list_ex (\<lambda>c. snd (Condition_eval c ctx)) (r_When r))"
  by (auto simp: Rule_eval_def rule_loop_eq Let_def list_all_iff list_ex_iff prod_eq_iff)

lemma evaluate_rules_fields:
  "evaluate_rules q ver ctx rs = Some d \<Longrightarrow>
     d_PolicyVersion d = ver \<and> d_StatusCheckedHops d = 0"
  by (induction rs) (auto simp: Let_def split: prod.splits if_splits)

interpretation policy: evaluator "Policy_Evaluate q p" "Policy_Version p" for q p
proof
  show "d_PolicyVersion (Policy_Evaluate q p a) = Policy_Version p"
    and "d_StatusCheckedHops (Policy_Evaluate q p a) = 0" for a
    by (auto simp: Policy_Evaluate_def Policy_Version_def dest: evaluate_rules_fields split: option.split)
  show "Policy_Evaluate q p a = Policy_Evaluate q p b" if "Context a = Context b" for a b
    using that by (simp add: Policy_Evaluate_def)
qed

lemma Condition_eval_exclusive: "snd (Condition_eval c ctx) \<Longrightarrow> \<not> fst (Condition_eval c ctx)"
  by (auto simp: Condition_eval_def split: res_splits)

lemma validate_rules_ok:
  "is_ok (validate_rules i rs) \<Longrightarrow> r \<in> set rs \<Longrightarrow> TrimSpace (r_Reason r) \<noteq> []"
  by (induction i rs rule: validate_rules.induct) auto

lemma evaluate_rules_reason:
  assumes "evaluate_rules q ver ctx rs = Some d"
    and "\<And>r. r \<in> set rs \<Longrightarrow> TrimSpace (r_Reason r) \<noteq> []"
  shows "TrimSpace (d_Reason d) \<noteq> []"
  using assms
proof (induction rs)
  case (Cons r rs)
  have "TrimSpace (CHR ''r'' # s) \<noteq> []" for s
    by (rule TrimSpace_visible) (simp_all add: ascii_space_def)
  with Cons show ?case by (auto simp: Let_def split: prod.splits if_splits)
qed simp

section \<open>Properties\<close>

text \<open>
  First match wins, and a rule that cannot be evaluated is a match that denies: the
  decision is the one of the first rule that matches or is indeterminate, and the default's
  when there is none.
\<close>

theorem Policy_Evaluate_first_match:
  "Policy_Evaluate q p a =
     (case find (\<lambda>r. fst (Rule_eval r (Context a)) \<or> snd (Rule_eval r (Context a))) (Rules p) of
        None \<Rightarrow>
          \<lparr>d_Allowed = df_Allowed (pDefault p), d_Consequential = df_Consequential (pDefault p),
           d_RuleFired = DefaultRule, d_PolicyVersion = Ver p, d_StatusCheckedHops = 0,
           d_Reason = df_Reason (pDefault p)\<rparr>
      | Some r \<Rightarrow>
          \<lparr>d_Allowed = (\<not> snd (Rule_eval r (Context a)) \<and> \<not> r_Deny r),
           d_Consequential = (snd (Rule_eval r (Context a)) \<or> r_Consequential r),
           d_RuleFired = r_Name r, d_PolicyVersion = Ver p, d_StatusCheckedHops = 0,
           d_Reason =
             (if snd (Rule_eval r (Context a))
              then ''rule '' @ q (r_Name r) @ '' could not be evaluated: '' @
                   indeterminateFields r (Context a) @ '' is not comparable''
              else r_Reason r)\<rparr>)"
proof -
  have "evaluate_rules q (Ver p) ctx rs =
      map_option (\<lambda>r.
          \<lparr>d_Allowed = (\<not> snd (Rule_eval r ctx) \<and> \<not> r_Deny r),
           d_Consequential = (snd (Rule_eval r ctx) \<or> r_Consequential r),
           d_RuleFired = r_Name r, d_PolicyVersion = Ver p, d_StatusCheckedHops = 0,
           d_Reason =
             (if snd (Rule_eval r ctx)
              then ''rule '' @ q (r_Name r) @ '' could not be evaluated: '' @
                   indeterminateFields r ctx @ '' is not comparable''
              else r_Reason r)\<rparr>)
        (find (\<lambda>r. fst (Rule_eval r ctx) \<or> snd (Rule_eval r ctx)) rs)" for ctx rs
    by (induction rs) (auto simp: Let_def split_beta)
  then show ?thesis
    by (simp add: Policy_Evaluate_def split: option.split)
qed

text \<open>
  The outcome of a rule does not depend on the order its conditions are written in, and
  neither does whether it is indeterminate.
\<close>

theorem Rule_eval_order_independent:
  assumes "mset (r_When r) = mset (r_When s)"
  shows "Rule_eval r ctx = Rule_eval s ctx"
  using mset_eq_setD [OF assms] by (simp add: Rule_eval_eq list_all_iff list_ex_iff)

definition sample_rule :: "Condition list \<Rightarrow> Rule" where
  "sample_rule cs =
     \<lparr>r_Name = ''n'', r_When = cs, r_Deny = False, r_Consequential = True, r_Reason = ''r''\<rparr>"

definition amount_cond :: Condition where
  "amount_cond = \<lparr>cn_Field = ''amount'', cn_Op = OpLe, cn_Value = ''25''\<rparr>"

definition usd_cond :: Condition where
  "usd_cond = \<lparr>cn_Field = ''currency'', cn_Op = OpEq, cn_Value = ''USD''\<rparr>"

theorem Rule_eval_order_independent_witness:
  "Rule_eval (sample_rule [amount_cond, usd_cond]) [''amount'' \<mapsto> ''7''] =
   Rule_eval (sample_rule [usd_cond, amount_cond]) [''amount'' \<mapsto> ''7'']"
  by (rule Rule_eval_order_independent) (simp add: sample_rule_def)

text \<open>
  A policy condition and a macaroon caveat over the same field, operator and value agree:
  the condition holds on a context exactly when the caveat is satisfied by it.
\<close>

theorem condition_agrees_with_caveat:
  "fst (Condition_eval \<lparr>cn_Field = f, cn_Op = op, cn_Value = v\<rparr> ctx) \<longleftrightarrow>
   is_ok (satisfied \<lparr>c_Field = f, c_Op = op, c_Value = v\<rparr> ctx)"
  by (auto simp: Condition_eval_def satisfied_def compareOK_def splitSet_def list_ex_iff
      split: option.splits)

text \<open>
  C24. A policy accepted by \<open>Policy_Parse\<close> never produces a decision without a stated reason,
  whichever rule fires and however the rule names are quoted.
\<close>

theorem parsed_policy_states_reason:
  assumes "Policy_Parse unmarshal data = Inr p"
  shows "TrimSpace (d_Reason (Policy_Evaluate q p a)) \<noteq> []"
proof -
  from assms have "is_ok (Policy_Validate p)"
    by (auto simp: Policy_Parse_def Let_def split: option.splits)
  then have "TrimSpace (df_Reason (pDefault p)) \<noteq> []" "is_ok (validate_rules 0 (Rules p))"
    by (auto simp: Policy_Validate_def)
  then show ?thesis
    using evaluate_rules_reason [of q "Ver p" "Context a" "Rules p"] validate_rules_ok [of 0 "Rules p"]
    by (cases "evaluate_rules q (Ver p) (Context a) (Rules p)") (simp_all add: Policy_Evaluate_def)
qed

definition sample_default :: Default where
  "sample_default = \<lparr>df_Allowed = True, df_Consequential = True, df_Reason = ''unlisted''\<rparr>"

definition sample_raw_policy :: raw_policy where
  "sample_raw_policy = \<lparr>raw_Ver = ''v1'', raw_Rules = [], raw_Default = Some sample_default\<rparr>"

theorem parsed_policy_states_reason_witness:
  "\<exists>p. Policy_Parse (\<lambda>_. Some sample_raw_policy) ''{}'' = Inr p \<and>
     TrimSpace (d_Reason (Policy_Evaluate id p
       \<lparr>a_Type = ''t'', a_Target = ''x'', a_Attributes = [],
        a_Timestamp = \<lparr>unix_ns = 0, zone_off = 0\<rparr>\<rparr>)) \<noteq> []"
proof -
  have "\<exists>p. Policy_Parse (\<lambda>_. Some sample_raw_policy) ''{}'' = Inr p"
    by (simp add: Policy_Parse_def sample_raw_policy_def sample_default_def Policy_UnmarshalJSON_def
        Policy_Validate_def trim_eval Let_def)
  with parsed_policy_states_reason [of "\<lambda>_. Some sample_raw_policy" "''{}''"] show ?thesis by blast
qed

end
