(* ===== verification/Audit_Log.thy ===== *)
theory Audit_Log
  imports Signer
begin

text \<open>
  \<^verbatim>\<open>internal/audit\<close>: the append-only, hash-chained, signed log.  An entry's hash covers its
  JSON form without hash and signature; each entry carries its predecessor's hash and the
  enforcement point's signature over its own.  \<open>Seal\<close> produces the next entry, \<open>Commit\<close>
  admits it if its slot is still the tip, \<open>VerifyEntries\<close> re-derives everything.  A verifier's
  result is \<open>Inl (i, err)\<close> for failure at index \<open>i\<close> and \<open>Inr ()\<close> for Go's \<^verbatim>\<open>(-1, nil)\<close>.  The
  locale \<open>hash_chain\<close> holds the tamper-evidence argument once, for any linked list whose
  entries carry a hash of their content.
\<close>

section \<open>Linked hashes\<close>

definition collision :: "(bytes \<Rightarrow> bytes) \<Rightarrow> bytes \<Rightarrow> bytes \<Rightarrow> bool" where
  "collision h m n \<longleftrightarrow> m \<noteq> n \<and> h m = h n"

definition hash_linked ::
  "('e \<Rightarrow> 'h option) \<Rightarrow> ('e \<Rightarrow> 'h) \<Rightarrow> ('e \<Rightarrow> 'h) \<Rightarrow> 'h \<Rightarrow> ('e \<Rightarrow> bool) \<Rightarrow> 'e list \<Rightarrow> bool" where
  "hash_linked hash stored link genesis ok es \<longleftrightarrow>
     (\<forall>i < length es. hash (es ! i) = Some (stored (es ! i)) \<and> ok (es ! i) \<and>
        link (es ! i) = (if i = 0 then genesis else stored (es ! (i - 1))))"

locale hash_chain =
  fixes hash :: "'e \<Rightarrow> 'h option"
    and stored :: "'e \<Rightarrow> 'h"
    and link :: "'e \<Rightarrow> 'h"
    and genesis :: 'h
    and ok :: "'e \<Rightarrow> bool"
    and same :: "'e \<Rightarrow> 'e \<Rightarrow> bool"
    and coll :: "'e \<Rightarrow> 'e \<Rightarrow> bool"
  assumes hash_binds:
    "\<lbrakk>hash e = Some h; hash f = Some h; ok e; ok f\<rbrakk> \<Longrightarrow> same e f \<and> link e = link f \<or> coll e f"
begin

abbreviation linked :: "'e list \<Rightarrow> bool" where
  "linked \<equiv> hash_linked hash stored link genesis ok"

lemma linked_nth:
  assumes "linked es" and "i < length es"
  shows "hash (es ! i) = Some (stored (es ! i))" "ok (es ! i)"
    "link (es ! i) = (if i = 0 then genesis else stored (es ! (i - 1)))"
  using assms unfolding hash_linked_def by blast+

lemma linked_butlast:
  assumes "linked (es @ [e])"
  shows "linked es"
  unfolding hash_linked_def
proof (intro allI impI)
  fix i
  assume "i < length es"
  with linked_nth [OF assms, of i]
  show "hash (es ! i) = Some (stored (es ! i)) \<and> ok (es ! i) \<and>
      link (es ! i) = (if i = 0 then genesis else stored (es ! (i - 1)))"
    by (simp add: nth_append less_imp_diff_less)
qed

lemma linked_snoc:
  assumes "linked (es @ [e])"
  shows "hash e = Some (stored e)" "ok e" "link e = (if es = [] then genesis else stored (last es))"
  using linked_nth [OF assms, of "length es"]
  by (auto simp: nth_append last_conv_nth)

text \<open>
  Two linked lists of the same length that end in the same hash hold the same content at
  every position, unless some position exhibits a collision.
\<close>

lemma tamper_evident:
  assumes "linked es" and "linked fs" and "length es = length fs"
    and "es \<noteq> [] \<Longrightarrow> stored (last es) = stored (last fs)"
  shows "list_all2 same es fs \<or> (\<exists>i < length es. coll (es ! i) (fs ! i))"
  using assms
proof (induction es arbitrary: fs rule: rev_induct)
  case (snoc e es)
  then obtain gs f where fs: "fs = gs @ [f]" and len: "length es = length gs"
    by (metis length_append_singleton length_Suc_conv_rev)
  note E = snoc.prems(1) and F = snoc.prems(2) [unfolded fs]
  have "stored e = stored f" using snoc.prems(4) fs by simp
  with linked_snoc(1,2) [OF E] linked_snoc(1,2) [OF F] have "same e f \<and> link e = link f \<or> coll e f"
    using hash_binds by metis
  then show ?case
  proof
    assume "coll e f"
    then have "coll ((es @ [e]) ! length es) (fs ! length es)" by (simp add: fs nth_append len)
    then show ?thesis by (metis length_append_singleton lessI)
  next
    assume sl: "same e f \<and> link e = link f"
    then have "es \<noteq> [] \<Longrightarrow> stored (last es) = stored (last gs)"
      using linked_snoc(3) [OF E] linked_snoc(3) [OF F] len by auto
    with snoc.IH [of gs] linked_butlast [OF E] linked_butlast [OF F] len
    have "list_all2 same es gs \<or> (\<exists>i < length es. coll (es ! i) (gs ! i))" by blast
    then show ?thesis
    proof
      assume "list_all2 same es gs"
      with sl show ?thesis by (simp add: fs list_all2_appendI)
    next
      assume "\<exists>i < length es. coll (es ! i) (gs ! i)"
      then obtain i where "i < length es" "coll (es ! i) (gs ! i)" by blast
      with len have "coll ((es @ [e]) ! i) (fs ! i)" "i < length (es @ [e])"
        by (simp_all add: fs nth_append)
      then show ?thesis by blast
    qed
  qed
qed simp

end

section \<open>Entries\<close>

record Entry =
  e_Seq :: u64
  e_PrevHash :: bytes
  e_Action :: Action
  e_ResolvedChain :: "DID list"
  e_ChainCredentialIDs :: "string list"
  e_Decision :: Decision
  e_PolicyID :: string
  e_PoPNonce :: bytes
  e_PoPSignature :: bytes
  e_ApprovedBy :: DID
  e_Approval :: bytes
  e_Timestamp :: gotime
  e_EntryHash :: bytes
  e_Signature :: bytes

record EntryDraft =
  dr_Action :: Action
  dr_ResolvedChain :: "DID list"
  dr_ChainCredentialIDs :: "string list"
  dr_Decision :: Decision
  dr_PolicyID :: string
  dr_PoPNonce :: bytes
  dr_PoPSignature :: bytes
  dr_ApprovedBy :: DID
  dr_Approval :: bytes
  dr_Timestamp :: gotime

record Log =
  l_signer :: Signer
  l_entries :: "Entry list"

record AuditExport =
  ax_Version :: string
  ax_Signer :: DID
  ax_Entries :: "Entry list"

datatype audit_err =
    Canonicalize
  | SignEntry u64
  | StaleCommit u64 u64
  | OutOfOrder u64
  | BadLink
  | HashMismatch
  | BadSignature
  | RecoverFailed nat audit_err
  | UnsupportedVersion string
  | ApprovalCanonicalize
  | ApprovalSign
  | ApprovalInvalid DID

definition ExportVersion :: string where "ExportVersion = ''kessa-audit-export/v1''"
definition hashDomain :: string where "hashDomain = ''kessa/audit-entry/v2''"
definition sigDomain :: string where "sigDomain = ''kessa/audit-sig/v1''"
definition approvalDomain :: string where "approvalDomain = ''kessa/action-approval/v2''"

definition GenesisHash :: bytes where "GenesisHash = replicate 32 NUL"

definition entry_json :: "Entry \<Rightarrow> json" where
  "entry_json e =
     JObj ([(''seq'', JInt (uint (e_Seq e))), (''prevHash'', JBytes (e_PrevHash e)),
            (''action'', action_json (e_Action e)),
            (''resolvedChain'', JList JStr (e_ResolvedChain e))] @
           omitempty ''chainCredentialIDs'' (e_ChainCredentialIDs e = []) (JList JStr (e_ChainCredentialIDs e)) @
           [(''decision'', decision_json (e_Decision e))] @
           omitempty ''policyID'' (e_PolicyID e = []) (JStr (e_PolicyID e)) @
           omitempty ''popNonce'' (e_PoPNonce e = []) (JBytes (e_PoPNonce e)) @
           omitempty ''popSignature'' (e_PoPSignature e = []) (JBytes (e_PoPSignature e)) @
           omitempty ''approvedBy'' (e_ApprovedBy e = []) (JStr (e_ApprovedBy e)) @
           omitempty ''approval'' (e_Approval e = []) (JBytes (e_Approval e)) @
           [(''timestamp'', JStr (RFC3339Nano (e_Timestamp e)))] @
           omitempty ''entryHash'' (e_EntryHash e = []) (JBytes (e_EntryHash e)) @
           omitempty ''signature'' (e_Signature e = []) (JBytes (e_Signature e)))"

definition entry_marshals :: "Entry \<Rightarrow> bool" where
  "entry_marshals e \<longleftrightarrow> action_marshals (e_Action e) \<and> time_marshals (e_Timestamp e)"

text \<open>The bytes hashed: domain, zero byte, compact JSON with hash and signature cleared.\<close>

definition entry_preimage :: "Entry \<Rightarrow> bytes" where
  "entry_preimage e = hashDomain @ NUL # json_enc (entry_json (e\<lparr>e_EntryHash := [], e_Signature := []\<rparr>))"

definition entryHash :: "crypto \<Rightarrow> Entry \<Rightarrow> audit_err + bytes" where
  "entryHash C e = (if \<not> entry_marshals e then Inl Canonicalize else Inr (sha256 C (entry_preimage e)))"

definition sigInput :: "bytes \<Rightarrow> bytes" where
  "sigInput h = sigDomain @ NUL # h"

section \<open>The log\<close>

definition NewLog :: "Signer \<Rightarrow> Log" where
  "NewLog s = \<lparr>l_signer = s, l_entries = []\<rparr>"

definition Tip :: "Log \<Rightarrow> u64 \<times> bytes" where
  "Tip l =
     (let n = length (l_entries l) in
      if n > 0 then (of_nat n, e_EntryHash (l_entries l ! (n - 1))) else (0, GenesisHash))"

definition draft_entry :: "u64 \<Rightarrow> bytes \<Rightarrow> EntryDraft \<Rightarrow> Entry" where
  "draft_entry seq prev r =
     \<lparr>e_Seq = seq, e_PrevHash = prev, e_Action = dr_Action r, e_ResolvedChain = dr_ResolvedChain r,
      e_ChainCredentialIDs = dr_ChainCredentialIDs r, e_Decision = dr_Decision r,
      e_PolicyID = dr_PolicyID r, e_PoPNonce = dr_PoPNonce r, e_PoPSignature = dr_PoPSignature r,
      e_ApprovedBy = dr_ApprovedBy r, e_Approval = dr_Approval r, e_Timestamp = dr_Timestamp r,
      e_EntryHash = [], e_Signature = []\<rparr>"

definition Seal :: "crypto \<Rightarrow> Log \<Rightarrow> EntryDraft \<Rightarrow> audit_err + Entry" where
  "Seal C l r =
     (let (seq, prev) = Tip l; e = draft_entry seq prev r in
      case entryHash C e of
        Inl err \<Rightarrow> Inl err
      | Inr h \<Rightarrow>
          (case s_Sign (l_signer l) (sigInput h) of
             None \<Rightarrow> Inl (SignEntry seq)
           | Some sig \<Rightarrow> Inr (e\<lparr>e_EntryHash := h, e_Signature := sig\<rparr>)))"

definition Commit :: "Log \<Rightarrow> Entry \<Rightarrow> audit_err + Log" where
  "Commit l e =
     (let (seq, prev) = Tip l in
      if e_Seq e \<noteq> seq \<or> e_PrevHash e \<noteq> prev then Inl (StaleCommit (e_Seq e) seq)
      else Inr (l\<lparr>l_entries := l_entries l @ [e]\<rparr>))"

definition Append :: "crypto \<Rightarrow> Log \<Rightarrow> EntryDraft \<Rightarrow> audit_err + Entry \<times> Log" where
  "Append C l r =
     (case Seal C l r of
        Inl err \<Rightarrow> Inl err
      | Inr e \<Rightarrow> (case Commit l e of Inl err \<Rightarrow> Inl err | Inr l' \<Rightarrow> Inr (e, l')))"

definition Entries :: "Log \<Rightarrow> Entry list" where
  "Entries l = l_entries l"

definition Log_Export :: "Log \<Rightarrow> AuditExport" where
  "Log_Export l = \<lparr>ax_Version = ExportVersion, ax_Signer = s_DID (l_signer l), ax_Entries = l_entries l\<rparr>"

section \<open>Verification\<close>

definition verify_entry_at ::
  "crypto \<Rightarrow> public_key \<Rightarrow> nat \<Rightarrow> bytes \<Rightarrow> Entry \<Rightarrow> audit_err + unit" where
  "verify_entry_at C pub i prev e =
     (if e_Seq e \<noteq> of_nat i then Inl (OutOfOrder (e_Seq e))
      else if e_PrevHash e \<noteq> prev then Inl BadLink
      else case entryHash C e of
          Inl err \<Rightarrow> Inl err
        | Inr want \<Rightarrow>
            if want \<noteq> e_EntryHash e then Inl HashMismatch
            else if \<not> Signer_Verify C pub (sigInput (e_EntryHash e)) (e_Signature e)
            then Inl BadSignature
            else Inr ())"

fun verify_from ::
  "crypto \<Rightarrow> public_key \<Rightarrow> nat \<Rightarrow> bytes \<Rightarrow> Entry list \<Rightarrow> (nat \<times> audit_err) + unit" where
  "verify_from C pub i prev [] = Inr ()"
| "verify_from C pub i prev (e # es) =
     (case verify_entry_at C pub i prev e of
        Inl err \<Rightarrow> Inl (i, err)
      | Inr _ \<Rightarrow> verify_from C pub (Suc i) (e_EntryHash e) es)"

definition VerifyEntries :: "crypto \<Rightarrow> Entry list \<Rightarrow> public_key \<Rightarrow> (nat \<times> audit_err) + unit" where
  "VerifyEntries C es pub = verify_from C pub 0 GenesisHash es"

definition VerifyChain :: "crypto \<Rightarrow> AuditExport \<Rightarrow> public_key \<Rightarrow> (nat \<times> audit_err) + unit" where
  "VerifyChain C ex pub =
     (if ax_Version ex \<noteq> ExportVersion then Inl (0, UnsupportedVersion (ax_Version ex))
      else VerifyEntries C (ax_Entries ex) pub)"

definition LoadLog :: "crypto \<Rightarrow> Signer \<Rightarrow> Entry list \<Rightarrow> audit_err + Log" where
  "LoadLog C s es =
     (case VerifyEntries C es (s_Public s) of
        Inl (fi, err) \<Rightarrow> Inl (RecoverFailed fi err)
      | Inr _ \<Rightarrow> Inr \<lparr>l_signer = s, l_entries = es\<rparr>)"

section \<open>Approvals\<close>

definition ApprovalInput :: "DID \<Rightarrow> Action \<Rightarrow> u64 \<Rightarrow> bytes \<Rightarrow> audit_err + bytes" where
  "ApprovalInput actor a seq prevHash =
     (if \<not> action_marshals a then Inl ApprovalCanonicalize
      else Inr (approvalDomain @ NUL # actor @ NUL # json_enc (action_json a) @
                NUL # be64 seq @ NUL # prevHash))"

definition SignApproval :: "Signer \<Rightarrow> DID \<Rightarrow> Action \<Rightarrow> u64 \<Rightarrow> bytes \<Rightarrow> audit_err + bytes" where
  "SignApproval human actor a seq prevHash =
     (case ApprovalInput actor a seq prevHash of
        Inl err \<Rightarrow> Inl err
      | Inr input \<Rightarrow>
          (case s_Sign human input of None \<Rightarrow> Inl ApprovalSign | Some sig \<Rightarrow> Inr sig))"

definition VerifyApproval ::
  "crypto \<Rightarrow> public_key \<Rightarrow> DID \<Rightarrow> Action \<Rightarrow> u64 \<Rightarrow> bytes \<Rightarrow> bytes \<Rightarrow> audit_err + unit" where
  "VerifyApproval C pub actor a seq prevHash sig =
     (case ApprovalInput actor a seq prevHash of
        Inl err \<Rightarrow> Inl err
      | Inr input \<Rightarrow>
          if \<not> Signer_Verify C pub input sig then Inl (ApprovalInvalid actor) else Inr ())"

section \<open>Appending keeps the log verifiable\<close>

definition prev_of :: "Entry list \<Rightarrow> bytes \<Rightarrow> bytes" where
  "prev_of es p = (if es = [] then p else e_EntryHash (last es))"

lemma verify_from_append:
  "is_ok (verify_from C pub i p (es @ fs)) \<longleftrightarrow>
     is_ok (verify_from C pub i p es) \<and> is_ok (verify_from C pub (i + length es) (prev_of es p) fs)"
  by (induction es arbitrary: i p) (auto simp: prev_of_def)

lemma Tip_eq: "Tip l = (of_nat (length (l_entries l)), prev_of (l_entries l) GenesisHash)"
  by (auto simp: Tip_def prev_of_def Let_def last_conv_nth)

lemma entryHash_cleared [simp]:
  "entryHash C (e\<lparr>e_EntryHash := h, e_Signature := s\<rparr>) = entryHash C e"
  by (simp add: entryHash_def entry_preimage_def entry_marshals_def)

lemma Seal_Inr:
  "Seal C l r = Inr e \<longleftrightarrow>
     (\<exists>h sig. entryHash C (draft_entry (fst (Tip l)) (snd (Tip l)) r) = Inr h \<and>
        s_Sign (l_signer l) (sigInput h) = Some sig \<and>
        e = (draft_entry (fst (Tip l)) (snd (Tip l)) r)\<lparr>e_EntryHash := h, e_Signature := sig\<rparr>)"
  by (auto simp: Seal_def split_beta Let_def bind_Inr_iff split: option.splits)

lemma Seal_fields:
  assumes "Seal C l r = Inr e"
  shows "e_Seq e = fst (Tip l)" "e_PrevHash e = snd (Tip l)" "e_Action e = dr_Action r"
    "e_ResolvedChain e = dr_ResolvedChain r" "e_ChainCredentialIDs e = dr_ChainCredentialIDs r"
    "e_Decision e = dr_Decision r" "e_PolicyID e = dr_PolicyID r" "e_PoPNonce e = dr_PoPNonce r"
    "e_PoPSignature e = dr_PoPSignature r" "e_ApprovedBy e = dr_ApprovedBy r"
    "e_Approval e = dr_Approval r" "e_Timestamp e = dr_Timestamp r"
  using assms by (auto simp: Seal_Inr draft_entry_def)

lemma Seal_ok:
  assumes "Seal C l r = Inr e" and "signer_ok C (l_signer l)"
  shows "is_ok (verify_entry_at C (s_Public (l_signer l)) (length (l_entries l))
           (prev_of (l_entries l) GenesisHash) e)"
    and "is_ok (Commit l e)"
proof -
  let ?d = "draft_entry (fst (Tip l)) (snd (Tip l)) r"
  from assms(1) obtain h sig where h: "entryHash C ?d = Inr h"
    and sig: "s_Sign (l_signer l) (sigInput h) = Some sig"
    and e: "e = ?d\<lparr>e_EntryHash := h, e_Signature := sig\<rparr>"
    by (auto simp: Seal_Inr)
  have slot: "e_Seq e = of_nat (length (l_entries l))" "e_PrevHash e = prev_of (l_entries l) GenesisHash"
    using Seal_fields(1,2) [OF assms(1)] by (simp_all add: Tip_eq)
  have "entryHash C e = Inr h" "e_EntryHash e = h" "e_Signature e = sig" using h e by simp_all
  with slot signer_okD [OF assms(2) sig]
  show "is_ok (verify_entry_at C (s_Public (l_signer l)) (length (l_entries l))
      (prev_of (l_entries l) GenesisHash) e)"
    by (simp add: verify_entry_at_def)
  show "is_ok (Commit l e)" using slot by (simp add: Commit_def Tip_eq)
qed

lemma Commit_ok:
  "Commit l e = Inr l' \<longleftrightarrow>
     e_Seq e = fst (Tip l) \<and> e_PrevHash e = snd (Tip l) \<and> l' = l\<lparr>l_entries := l_entries l @ [e]\<rparr>"
  by (auto simp: Commit_def split: prod.splits)

lemma Append_ok:
  "Append C l r = Inr (e, l') \<longleftrightarrow> Seal C l r = Inr e \<and> Commit l e = Inr l'"
  by (auto simp: Append_def bind_Inr_iff)

lemma VerifyEntries_snoc:
  "is_ok (VerifyEntries C (es @ [e]) pub) \<longleftrightarrow>
     is_ok (VerifyEntries C es pub) \<and>
     is_ok (verify_entry_at C pub (length es) (prev_of es GenesisHash) e)"
  by (simp add: VerifyEntries_def verify_from_append)

lemma seal_commit_verifies:
  assumes "Seal C l r = Inr e" and "Commit l e = Inr l'" and "signer_ok C (l_signer l)"
    and "is_ok (VerifyEntries C (l_entries l) (s_Public (l_signer l)))"
  shows "is_ok (VerifyEntries C (l_entries l') (s_Public (l_signer l')))" "l_signer l' = l_signer l"
  using Seal_ok(1) [OF assms(1,3)] assms(2,4) by (auto simp: Commit_ok VerifyEntries_snoc)

text \<open>The logs an enforcement point can reach: a fresh log, then appends that succeeded.\<close>

inductive reachable_log :: "crypto \<Rightarrow> Signer \<Rightarrow> Log \<Rightarrow> bool" for C :: crypto and s :: Signer where
  new: "reachable_log C s (NewLog s)"
| append: "reachable_log C s l \<Longrightarrow> Append C l r = Inr (e, l') \<Longrightarrow> reachable_log C s l'"

lemma reachable_log_signer: "reachable_log C s l \<Longrightarrow> l_signer l = s"
  by (induction rule: reachable_log.induct) (auto simp: NewLog_def Append_ok Commit_ok)

lemma reachable_log_verifies:
  "reachable_log C s l \<Longrightarrow> signer_ok C s \<Longrightarrow> is_ok (VerifyEntries C (l_entries l) (s_Public s))"
proof (induction rule: reachable_log.induct)
  case new
  then show ?case by (simp add: NewLog_def VerifyEntries_def)
next
  case (append l r e l')
  then show ?case
    using seal_commit_verifies [of C l r e l'] reachable_log_signer [of C s l] by (auto simp: Append_ok)
qed

section \<open>Failure index\<close>

lemma verify_from_fail:
  "verify_from C pub i p es = Inl (k, err) \<Longrightarrow>
     \<exists>j. k = i + j \<and> j < length es \<and> is_ok (verify_from C pub i p (take j es)) \<and>
         verify_entry_at C pub k (prev_of (take j es) p) (es ! j) = Inl err"
proof (induction es arbitrary: i p)
  case (Cons e es)
  show ?case
  proof (cases "verify_entry_at C pub i p e")
    case (Inl err')
    with Cons.prems show ?thesis by (intro exI [of _ 0]) (auto simp: prev_of_def)
  next
    case (Inr u)
    with Cons obtain j where "k = Suc i + j" "j < length es"
      "is_ok (verify_from C pub (Suc i) (e_EntryHash e) (take j es))"
      "verify_entry_at C pub k (prev_of (take j es) (e_EntryHash e)) (es ! j) = Inl err"
      by fastforce
    with Inr show ?thesis by (intro exI [of _ "Suc j"]) (auto simp: prev_of_def)
  qed
qed simp

section \<open>What an entry hash binds\<close>

definition entry_clean :: "Entry \<Rightarrow> bool" where
  "entry_clean e \<longleftrightarrow>
     action_clean (e_Action e) \<and> decision_clean (e_Decision e) \<and> time_exact (e_Timestamp e) \<and>
     list_all utf8_valid (e_ResolvedChain e) \<and> list_all utf8_valid (e_ChainCredentialIDs e) \<and>
     utf8_valid (e_PolicyID e) \<and> utf8_valid (e_ApprovedBy e)"

definition entry_same :: "Entry \<Rightarrow> Entry \<Rightarrow> bool" where
  "entry_same e f \<longleftrightarrow>
     e_Seq e = e_Seq f \<and> e_PrevHash e = e_PrevHash f \<and> action_eq (e_Action e) (e_Action f) \<and>
     e_ResolvedChain e = e_ResolvedChain f \<and> e_ChainCredentialIDs e = e_ChainCredentialIDs f \<and>
     e_Decision e = e_Decision f \<and> e_PolicyID e = e_PolicyID f \<and> e_PoPNonce e = e_PoPNonce f \<and>
     e_PoPSignature e = e_PoPSignature f \<and> e_ApprovedBy e = e_ApprovedBy f \<and>
     e_Approval e = e_Approval f \<and> e_Timestamp e = e_Timestamp f"

definition members :: "json \<Rightarrow> string \<rightharpoonup> json" where
  "members v = (case v of JObj ms \<Rightarrow> map_of ms | _ \<Rightarrow> Map.empty)"

lemma members_JObj [simp]: "members (JObj ms) = map_of ms"
  by (simp add: members_def)

lemma map_of_omitempty [simp]: "map_of (omitempty k b v) = (if b then Map.empty else [k \<mapsto> v])"
  by (simp add: omitempty_def)

lemma omitted_eq:
  "(if b then None else Some v) = (if c then None else Some w) \<longleftrightarrow> b = c \<and> (b \<or> v = w)"
  by auto

lemma JList_JStr_inject [simp]: "JList JStr xs = JList JStr ys \<longleftrightarrow> xs = ys"
  by (auto dest: JList_inject)

lemma entry_members:
  "members (entry_json e) ''seq'' = Some (JInt (uint (e_Seq e)))"
  "members (entry_json e) ''prevHash'' = Some (JBytes (e_PrevHash e))"
  "members (entry_json e) ''action'' = Some (action_json (e_Action e))"
  "members (entry_json e) ''resolvedChain'' = Some (JList JStr (e_ResolvedChain e))"
  "members (entry_json e) ''chainCredentialIDs'' =
     (if e_ChainCredentialIDs e = [] then None else Some (JList JStr (e_ChainCredentialIDs e)))"
  "members (entry_json e) ''decision'' = Some (decision_json (e_Decision e))"
  "members (entry_json e) ''policyID'' = (if e_PolicyID e = [] then None else Some (JStr (e_PolicyID e)))"
  "members (entry_json e) ''popNonce'' = (if e_PoPNonce e = [] then None else Some (JBytes (e_PoPNonce e)))"
  "members (entry_json e) ''popSignature'' =
     (if e_PoPSignature e = [] then None else Some (JBytes (e_PoPSignature e)))"
  "members (entry_json e) ''approvedBy'' = (if e_ApprovedBy e = [] then None else Some (JStr (e_ApprovedBy e)))"
  "members (entry_json e) ''approval'' = (if e_Approval e = [] then None else Some (JBytes (e_Approval e)))"
  "members (entry_json e) ''timestamp'' = Some (JStr (RFC3339Nano (e_Timestamp e)))"
  by (simp_all add: entry_json_def map_add_def split: option.split)

lemma entry_json_inject:
  assumes "entry_json e = entry_json f" and "entry_clean e" and "entry_clean f"
  shows "entry_same e f"
proof -
  have m: "members (entry_json e) k = members (entry_json f) k" for k using assms(1) by simp
  have "action_eq (e_Action e) (e_Action f)"
    using m [of "''action''"] assms(2,3)
    by (auto simp: entry_members entry_clean_def intro: action_json_inject)
  moreover have "e_Decision e = e_Decision f"
    using m [of "''decision''"] by (auto simp: entry_members intro: decision_json_inject)
  moreover have "e_Timestamp e = e_Timestamp f"
    using m [of "''timestamp''"] assms(2,3)
    by (auto simp: entry_members entry_clean_def intro: RFC3339Nano_inject)
  moreover have "e_Seq e = e_Seq f" "e_PrevHash e = e_PrevHash f" "e_ResolvedChain e = e_ResolvedChain f"
    using m [of "''seq''"] m [of "''prevHash''"] m [of "''resolvedChain''"]
    by (simp_all add: entry_members word_uint_eq_iff)
  moreover have "e_ChainCredentialIDs e = e_ChainCredentialIDs f" "e_PolicyID e = e_PolicyID f"
    "e_PoPNonce e = e_PoPNonce f"
    using m [of "''chainCredentialIDs''"] m [of "''policyID''"] m [of "''popNonce''"]
    by (auto simp: entry_members omitted_eq)
  moreover have "e_PoPSignature e = e_PoPSignature f" "e_ApprovedBy e = e_ApprovedBy f"
    "e_Approval e = e_Approval f"
    using m [of "''popSignature''"] m [of "''approvedBy''"] m [of "''approval''"]
    by (auto simp: entry_members omitted_eq)
  ultimately show ?thesis by (simp add: entry_same_def)
qed

lemma json_valid_omitempty:
  "list_all (\<lambda>(k, v). utf8_valid k \<and> json_valid v) (omitempty k b v) \<longleftrightarrow>
     b \<or> utf8_valid k \<and> json_valid v"
  by (simp add: omitempty_def)

lemma json_valid_entry: "entry_clean e \<Longrightarrow> json_valid (entry_json e)"
  by (simp add: entry_json_def entry_clean_def json_valid_omitempty json_valid_action
      json_valid_decision json_valid_JList)

lemma entryHash_binds:
  assumes "entryHash C e = Inr h" and "entryHash C f = Inr h" and "entry_clean e" and "entry_clean f"
  shows "entry_same e f \<or> collision (sha256 C) (entry_preimage e) (entry_preimage f)"
proof (cases "entry_preimage e = entry_preimage f")
  case True
  let ?c = "\<lambda>e. e\<lparr>e_EntryHash := [], e_Signature := []\<rparr>"
  from True have "json_enc (entry_json (?c e)) = json_enc (entry_json (?c f))"
    by (simp add: entry_preimage_def)
  moreover have "entry_clean (?c e)" "entry_clean (?c f)"
    using assms(3,4) by (simp_all add: entry_clean_def)
  ultimately have "entry_same (?c e) (?c f)"
    using json_enc_inject json_valid_entry entry_json_inject by metis
  then show ?thesis by (simp add: entry_same_def)
next
  case False
  with assms(1,2) show ?thesis
    by (auto simp: entryHash_def collision_def split: if_splits)
qed

interpretation audit: hash_chain
  "\<lambda>e. case entryHash C e of Inr h \<Rightarrow> Some h | Inl _ \<Rightarrow> None" e_EntryHash e_PrevHash GenesisHash
  entry_clean entry_same "\<lambda>e f. collision (sha256 C) (entry_preimage e) (entry_preimage f)" for C
proof
  fix e h f
  assume "(case entryHash C e of Inr h \<Rightarrow> Some h | Inl _ \<Rightarrow> None) = Some h"
    and "(case entryHash C f of Inr h \<Rightarrow> Some h | Inl _ \<Rightarrow> None) = Some h"
    and clean: "entry_clean e" "entry_clean f"
  then have "entryHash C e = Inr h" "entryHash C f = Inr h" by (auto split: sum.splits)
  from entryHash_binds [OF this clean]
  show "entry_same e f \<and> e_PrevHash e = e_PrevHash f \<or>
      collision (sha256 C) (entry_preimage e) (entry_preimage f)"
    by (auto simp: entry_same_def)
qed

lemma verify_from_nth:
  "is_ok (verify_from C pub i p es) \<Longrightarrow> j < length es \<Longrightarrow>
     is_ok (verify_entry_at C pub (i + j) (if j = 0 then p else e_EntryHash (es ! (j - 1))) (es ! j))"
proof (induction es arbitrary: i p j)
  case (Cons e es)
  show ?case
  proof (cases j)
    case 0
    with Cons.prems show ?thesis by simp
  next
    case (Suc k)
    with Cons.prems have "is_ok (verify_from C pub (Suc i) (e_EntryHash e) es)" "k < length es" by auto
    note IH = Cons.IH [OF this]
    have "(if k = 0 then e_EntryHash e else e_EntryHash (es ! (k - 1))) = e_EntryHash ((e # es) ! k)"
      by (cases k) auto
    with IH Suc show ?thesis by simp
  qed
qed simp

lemma VerifyEntries_linked:
  assumes "is_ok (VerifyEntries C es pub)" and "list_all entry_clean es"
  shows "hash_linked (\<lambda>e. case entryHash C e of Inr h \<Rightarrow> Some h | Inl _ \<Rightarrow> None)
    e_EntryHash e_PrevHash GenesisHash entry_clean es"
  unfolding hash_linked_def
proof (intro allI impI)
  fix i
  assume i: "i < length es"
  from verify_from_nth [OF assms(1) [unfolded VerifyEntries_def] i] assms(2) i
  show "(case entryHash C (es ! i) of Inr h \<Rightarrow> Some h | Inl _ \<Rightarrow> None) = Some (e_EntryHash (es ! i)) \<and>
      entry_clean (es ! i) \<and>
      e_PrevHash (es ! i) = (if i = 0 then GenesisHash else e_EntryHash (es ! (i - 1)))"
    by (auto simp: verify_entry_at_def list_all_length split: sum.splits)
qed

section \<open>Properties\<close>

text \<open>
  Every log reachable by appending to a fresh one verifies against the enforcement
  point's key: sequence numbers, links, hashes and signatures all re-derive.
\<close>

theorem reachable_log_VerifyEntries:
  assumes "reachable_log C s l" and "signer_ok C s"
  shows "VerifyEntries C (Entries l) (s_Public s) = Inr ()"
  using reachable_log_verifies [OF assms] by (simp add: Entries_def Inr_unit_iff)

definition sample_time :: gotime where
  "sample_time = \<lparr>unix_ns = 0, zone_off = 0\<rparr>"

definition sample_action :: Action where
  "sample_action =
     \<lparr>a_Type = ''payment.transfer'', a_Target = ''acct'', a_Attributes = [(''amount'', ''7'')],
      a_Timestamp = sample_time\<rparr>"

definition sample_decision :: Decision where
  "sample_decision =
     \<lparr>d_Allowed = True, d_Consequential = False, d_RuleFired = ''r'', d_PolicyVersion = ''v1'',
      d_StatusCheckedHops = 0, d_Reason = ''ok''\<rparr>"

definition sample_draft :: EntryDraft where
  "sample_draft =
     \<lparr>dr_Action = sample_action, dr_ResolvedChain = [''did:web:a''], dr_ChainCredentialIDs = [],
      dr_Decision = sample_decision, dr_PolicyID = [], dr_PoPNonce = [], dr_PoPSignature = [],
      dr_ApprovedBy = [], dr_Approval = [], dr_Timestamp = sample_time\<rparr>"

abbreviation sample_signer :: Signer where
  "sample_signer \<equiv> toy_signer ''did:web:proxy'' CHR ''k''"

lemma sample_time_marshals [simp]: "time_marshals sample_time" "time_exact sample_time"
  by (simp_all add: time_marshals_def time_exact_def sample_time_def year_of_def Let_def)

lemma sample_append:
  "\<exists>e. Append toy_crypto (NewLog sample_signer) sample_draft =
     Inr (e, \<lparr>l_signer = sample_signer, l_entries = [e]\<rparr>)"
  by (auto simp: Append_ok Seal_Inr Commit_ok Tip_def NewLog_def entryHash_def entry_marshals_def
      action_marshals_def draft_entry_def sample_draft_def sample_action_def toy_signer_def)

theorem reachable_log_VerifyEntries_witness:
  "\<exists>l. length (Entries l) = 1 \<and>
     VerifyEntries toy_crypto (Entries l) (s_Public sample_signer) = Inr ()"
proof -
  obtain e where a: "Append toy_crypto (NewLog sample_signer) sample_draft =
      Inr (e, \<lparr>l_signer = sample_signer, l_entries = [e]\<rparr>)"
    using sample_append by blast
  from reachable_log_VerifyEntries [OF reachable_log.append [OF reachable_log.new a] toy_signer_ok]
  show ?thesis by (intro exI [of _ "\<lparr>l_signer = sample_signer, l_entries = [e]\<rparr>"]) (simp add: Entries_def)
qed

text \<open>
  The failure index is exact: when verification fails at index \<open>k\<close> with error \<open>err\<close>, the
  entries before \<open>k\<close> verify on their own and entry \<open>k\<close> fails its check with that error.
\<close>

theorem VerifyEntries_fail_index:
  assumes "VerifyEntries C es pub = Inl (k, err)"
  shows "k < length es \<and> VerifyEntries C (take k es) pub = Inr () \<and>
    verify_entry_at C pub k (prev_of (take k es) GenesisHash) (es ! k) = Inl err"
  using verify_from_fail [OF assms [unfolded VerifyEntries_def]]
  by (auto simp: VerifyEntries_def Inr_unit_iff)

definition stray_entry :: Entry where
  "stray_entry = draft_entry 5 GenesisHash sample_draft"

theorem VerifyEntries_fail_index_witness:
  "VerifyEntries toy_crypto [stray_entry] UnknownKey = Inl (0, OutOfOrder 5) \<and>
   VerifyEntries toy_crypto (take 0 [stray_entry]) UnknownKey = Inr ()"
proof -
  have f: "VerifyEntries toy_crypto [stray_entry] UnknownKey = Inl (0, OutOfOrder 5)"
    by (simp add: VerifyEntries_def verify_entry_at_def stray_entry_def draft_entry_def)
  with VerifyEntries_fail_index [OF f] show ?thesis by simp
qed



text \<open>
  Recovery resumes exactly where the log stopped: loading the entries of a reachable log
  with its signer gives that log back, and any entry list that is accepted for recovery is
  one that verifies under the signer's key.
\<close>

theorem LoadLog_exact:
  "(reachable_log C s l \<and> signer_ok C s \<longrightarrow> LoadLog C s (Entries l) = Inr l) \<and>
   (LoadLog C s es = Inr l' \<longleftrightarrow>
      VerifyEntries C es (s_Public s) = Inr () \<and> l' = \<lparr>l_signer = s, l_entries = es\<rparr>)"
proof -
  have iff: "LoadLog C s es = Inr l' \<longleftrightarrow>
      VerifyEntries C es (s_Public s) = Inr () \<and> l' = \<lparr>l_signer = s, l_entries = es\<rparr>" for es l'
    by (auto simp: LoadLog_def split: sum.splits)
  moreover have "LoadLog C s (Entries l) = Inr l" if "reachable_log C s l" "signer_ok C s"
    using reachable_log_verifies [OF that] reachable_log_signer [OF that(1)]
    by (simp add: iff Entries_def Inr_unit_iff)
  ultimately show ?thesis by blast
qed

theorem LoadLog_exact_witness:
  "LoadLog toy_crypto sample_signer (Entries (NewLog sample_signer)) = Inr (NewLog sample_signer)"
  using LoadLog_exact [of toy_crypto sample_signer "NewLog sample_signer" "[]" "NewLog sample_signer"]
    reachable_log.new toy_signer_ok by blast

text \<open>
  A slot is filled at most once: of two entries sealed against the same tip, once one is
  committed the other is refused, and a refused commit leaves no log to continue from.
\<close>

theorem stale_commit_refused:
  assumes "Seal C l r = Inr e" and "Seal C l r' = Inr e'" and "Commit l e = Inr l'"
  shows "Commit l' e' = Inl (StaleCommit (e_Seq e') (fst (Tip l')))"
proof -
  have "(of_nat (length (l_entries l)) :: u64) \<noteq> of_nat (Suc (length (l_entries l)))" by simp
  then have "e_Seq e' \<noteq> fst (Tip l')"
    using Seal_fields(1) [OF assms(2)] assms(3) by (auto simp: Commit_ok Tip_eq)
  then show ?thesis by (simp add: Commit_def split_beta)
qed

theorem stale_commit_refused_witness:
  "\<exists>e l'. Commit (NewLog sample_signer) e = Inr l' \<and> Commit l' e = Inl (StaleCommit 0 1)"
proof -
  obtain e where a: "Append toy_crypto (NewLog sample_signer) sample_draft =
      Inr (e, \<lparr>l_signer = sample_signer, l_entries = [e]\<rparr>)"
    using sample_append by blast
  then have s: "Seal toy_crypto (NewLog sample_signer) sample_draft = Inr e"
    and c: "Commit (NewLog sample_signer) e = Inr \<lparr>l_signer = sample_signer, l_entries = [e]\<rparr>"
    by (auto simp: Append_ok)
  from stale_commit_refused [OF s s c] Seal_fields(1) [OF s] c show ?thesis
    by (auto simp: Tip_def NewLog_def)
qed

text \<open>
  An approval signs one actor, one action and one log position: equal signing inputs at
  hashes of equal width come from the same actor, the same action, the same sequence number
  and the same previous hash.
\<close>

theorem ApprovalInput_binds:
  assumes "ApprovalInput actor a seq ph = Inr x" and "ApprovalInput actor' a' seq' ph' = Inr x"
    and "length ph = length ph'" and "action_clean a" and "action_clean a'"
  shows "actor = actor' \<and> action_eq a a' \<and> seq = seq' \<and> ph = ph'"
proof -
  have "(approvalDomain @ NUL # actor) @ NUL # json_enc (action_json a) @ NUL # be64 seq @ NUL # ph =
      (approvalDomain @ NUL # actor') @ NUL # json_enc (action_json a') @ NUL # be64 seq' @ NUL # ph'"
    using assms(1,2) by (auto simp: ApprovalInput_def)
  then have "approvalDomain @ NUL # actor = approvalDomain @ NUL # actor'"
    "json_enc (action_json a) = json_enc (action_json a')" "seq = seq'" "ph = ph'"
    using position_frame_inject assms(3) NUL_json_enc by blast+
  then show ?thesis
    using action_json_inject json_enc_inject json_valid_action assms(4,5) by auto
qed

theorem ApprovalInput_binds_witness:
  "\<exists>x. ApprovalInput ''did:web:a'' sample_action 3 GenesisHash = Inr x \<and>
       action_eq sample_action sample_action"
proof -
  obtain x where x: "ApprovalInput ''did:web:a'' sample_action 3 GenesisHash = Inr x"
    by (simp add: ApprovalInput_def action_marshals_def sample_action_def)
  have "action_clean sample_action" by (simp add: action_clean_def sample_action_def)
  with ApprovalInput_binds [OF x x] x show ?thesis by simp
qed

text \<open>
  An approval a human signs for an actor, action and position verifies under that human's
  key at that position.
\<close>

theorem SignApproval_verifies:
  "signer_ok C human \<Longrightarrow> SignApproval human actor a seq ph = Inr sig \<Longrightarrow>
     VerifyApproval C (s_Public human) actor a seq ph sig = Inr ()"
  by (auto simp: SignApproval_def VerifyApproval_def dest: signer_okD split: sum.splits option.splits)

theorem SignApproval_verifies_witness:
  "\<exists>sig. SignApproval sample_signer ''did:web:a'' sample_action 3 GenesisHash = Inr sig \<and>
     VerifyApproval toy_crypto (s_Public sample_signer) ''did:web:a'' sample_action 3 GenesisHash sig = Inr ()"
proof -
  obtain sig where "SignApproval sample_signer ''did:web:a'' sample_action 3 GenesisHash = Inr sig"
    by (simp add: SignApproval_def ApprovalInput_def action_marshals_def sample_action_def toy_signer_def)
  with SignApproval_verifies [OF toy_signer_ok] show ?thesis by blast
qed

end
