(* ===== verification/Evidence.thy ===== *)
theory Evidence
  imports Chain Policy Audit_Log
begin

text \<open>
  \<^verbatim>\<open>internal/export/export.go\<close>: content addresses for credentials and policies, the
  deduplicated evidence set, and the signed v2 envelope with its parser's version dispatch.
  The locale \<open>content_store\<close> is the contract of the evidence set; the proxy fills it and the
  verifier reads it.
\<close>

section \<open>Content-addressed stores\<close>

locale content_store =
  fixes key :: "'v \<Rightarrow> 'k option"
    and add :: "'v \<Rightarrow> 's \<Rightarrow> ('k \<times> 's) option"
    and get :: "'s \<Rightarrow> 'k \<Rightarrow> 'v option"
  assumes add_defined: "add v s = None \<longleftrightarrow> key v = None"
    and add_key: "add v s = Some (k, s') \<Longrightarrow> key v = Some k"
    and add_get: "add v s = Some (k, s') \<Longrightarrow>
      get s' k' = (if k' = k then (case get s k of None \<Rightarrow> Some v | Some w \<Rightarrow> Some w) else get s k')"
begin

text \<open>The invariant of a store: whatever is stored is stored under its own address.\<close>

lemma add_keeps_addresses:
  assumes "\<And>k v. get s k = Some v \<Longrightarrow> key v = Some k" and "add v s = Some (k, s')"
    and "get s' k' = Some w"
  shows "key w = Some k'"
  using assms add_key [OF assms(2)] add_get [OF assms(2), of k']
  by (auto split: if_splits option.splits)

lemma add_monotone: "add v s = Some (k, s') \<Longrightarrow> get s k' = Some w \<Longrightarrow> get s' k' = Some w"
  by (auto simp: add_get split: option.split)

lemma add_present: "add v s = Some (k, s') \<Longrightarrow> \<exists>w. get s' k = Some w"
  by (simp add: add_get split: option.split)

end

section \<open>Content addresses\<close>

definition Version :: string where "Version = ''kessa-audit-export/v2''"
definition credIDDomain :: string where "credIDDomain = ''kessa/credential-id/v1''"
definition policyIDDomain :: string where "policyIDDomain = ''kessa/policy-id/v1''"
definition envelopeSigDomain :: string where "envelopeSigDomain = ''kessa/audit-export-envelope/v2''"

record CredentialRecord =
  rc_CredentialID :: string
  rc_Credential :: Credential
  rc_IssuerProof :: bytes

record Export =
  x_Version :: string
  x_Signer :: DID
  x_Entries :: "Entry list"
  x_Credentials :: "string \<rightharpoonup> CredentialRecord"
  x_Policy :: "Policy option"
  x_EnvelopeSignature :: bytes

datatype export_err =
    CredentialCanonicalize
  | EnvelopeSign
  | ExportJSON
  | CarriedPolicyInvalid policy_err
  | V1CarriesCredentials
  | V1CarriesPolicy
  | V1CarriesSignature
  | ExportVersionUnsupported string

definition credential_preimage :: "Credential \<Rightarrow> bytes" where
  "credential_preimage c = credIDDomain @ NUL # json_enc (credential_json c)"

definition CredentialID :: "crypto \<Rightarrow> Credential \<Rightarrow> export_err + string" where
  "CredentialID C c =
     (if \<not> credential_marshals c then Inl CredentialCanonicalize
      else Inr (RawURLEncode (sha256 C (credential_preimage c))))"

definition condition_json :: "Condition \<Rightarrow> json" where
  "condition_json c =
     JObj [(''field'', JStr (cn_Field c)), (''op'', JStr (cn_Op c)), (''value'', JStr (cn_Value c))]"

definition rule_json :: "Rule \<Rightarrow> json" where
  "rule_json r =
     JObj ([(''name'', JStr (r_Name r)), (''when'', JList condition_json (r_When r))] @
           omitempty ''deny'' (\<not> r_Deny r) (JBool (r_Deny r)) @
           omitempty ''consequential'' (\<not> r_Consequential r) (JBool (r_Consequential r)) @
           [(''reason'', JStr (r_Reason r))])"

definition policy_json :: "Policy \<Rightarrow> json" where
  "policy_json p =
     JObj [(''version'', JStr (Ver p)), (''rules'', JList rule_json (Rules p)),
           (''default'',
             JObj [(''allowed'', JBool (df_Allowed (pDefault p))),
                   (''consequential'', JBool (df_Consequential (pDefault p))),
                   (''reason'', JStr (df_Reason (pDefault p)))])]"

definition policy_preimage :: "Policy \<Rightarrow> bytes" where
  "policy_preimage p = policyIDDomain @ NUL # json_enc (policy_json p)"

text \<open>A policy holds only strings, booleans and lists, so it always marshals.\<close>

definition PolicyID :: "crypto \<Rightarrow> Policy \<Rightarrow> string" where
  "PolicyID C p = RawURLEncode (sha256 C (policy_preimage p))"

section \<open>The evidence set\<close>

record CredentialSet =
  cs_records :: "string \<rightharpoonup> CredentialRecord"

definition NewCredentialSet :: CredentialSet where
  "NewCredentialSet = \<lparr>cs_records = Map.empty\<rparr>"

definition CredentialSet_Add ::
  "crypto \<Rightarrow> Credential \<Rightarrow> bytes \<Rightarrow> CredentialSet \<Rightarrow> export_err + string \<times> CredentialSet" where
  "CredentialSet_Add C c issuerProof s =
     (case CredentialID C c of
        Inl e \<Rightarrow> Inl e
      | Inr i \<Rightarrow>
          Inr (i,
            if cs_records s i = None then
              s\<lparr>cs_records := (cs_records s)
                 (i \<mapsto> \<lparr>rc_CredentialID = i, rc_Credential = c, rc_IssuerProof = issuerProof\<rparr>)\<rparr>
            else s))"

definition CredentialSet_Has :: "CredentialSet \<Rightarrow> string \<Rightarrow> bool" where
  "CredentialSet_Has s i \<longleftrightarrow> cs_records s i \<noteq> None"

definition CredentialSet_Len :: "CredentialSet \<Rightarrow> nat" where
  "CredentialSet_Len s = card (dom (cs_records s))"

definition CredentialSet_Records :: "CredentialSet \<Rightarrow> string \<rightharpoonup> CredentialRecord" where
  "CredentialSet_Records s = cs_records s"

section \<open>The envelope\<close>

definition envelopeSigningInput :: "string \<Rightarrow> DID \<Rightarrow> string \<Rightarrow> u64 \<Rightarrow> bytes \<Rightarrow> bytes" where
  "envelopeSigningInput version signerDID policyID entryCount tipHash =
     envelopeSigDomain @ NUL # version @ NUL # signerDID @ NUL # policyID @ NUL #
     be64 entryCount @ NUL # tipHash"

definition logTip :: "Entry list \<Rightarrow> bytes" where
  "logTip es = (if length es > 0 then e_EntryHash (es ! (length es - 1)) else GenesisHash)"

definition pid_of :: "crypto \<Rightarrow> Policy option \<Rightarrow> string" where
  "pid_of C pol = (case pol of None \<Rightarrow> [] | Some p \<Rightarrow> PolicyID C p)"

definition Export_Build ::
  "crypto \<Rightarrow> Signer \<Rightarrow> Entry list \<Rightarrow> CredentialSet \<Rightarrow> Policy option \<Rightarrow> export_err + Export" where
  "Export_Build C ep es cset pol =
     (case s_Sign ep (envelopeSigningInput Version (s_DID ep) (pid_of C pol) (of_nat (length es)) (logTip es)) of
        None \<Rightarrow> Inl EnvelopeSign
      | Some sig \<Rightarrow>
          Inr \<lparr>x_Version = Version, x_Signer = s_DID ep, x_Entries = es,
               x_Credentials = CredentialSet_Records cset, x_Policy = pol,
               x_EnvelopeSignature = sig\<rparr>)"

definition IsV1 :: "Export \<Rightarrow> bool" where
  "IsV1 e \<longleftrightarrow> x_Version e = ExportVersion"

text \<open>
  \<^verbatim>\<open>Parse\<close>; the argument \<open>unmarshal\<close> is \<^verbatim>\<open>json.Unmarshal\<close> into the struct.
\<close>

definition Export_Parse :: "(bytes \<Rightarrow> Export option) \<Rightarrow> bytes \<Rightarrow> export_err + Export" where
  "Export_Parse unmarshal data =
     (case unmarshal data of
        None \<Rightarrow> Inl ExportJSON
      | Some e \<Rightarrow>
          if x_Version e = Version then
            (case x_Policy e of
               None \<Rightarrow> Inr e
             | Some p \<Rightarrow>
                 (case Policy_Validate p of
                    Inl err \<Rightarrow> Inl (CarriedPolicyInvalid err)
                  | Inr _ \<Rightarrow> Inr e))
          else if x_Version e = ExportVersion then
            (if x_Credentials e \<noteq> Map.empty then Inl V1CarriesCredentials
             else if x_Policy e \<noteq> None then Inl V1CarriesPolicy
             else if x_EnvelopeSignature e \<noteq> [] then Inl V1CarriesSignature
             else Inr e)
          else Inl (ExportVersionUnsupported (x_Version e)))"

section \<open>The evidence set is a content-addressed store\<close>

definition record_key :: "crypto \<Rightarrow> CredentialRecord \<Rightarrow> string option" where
  "record_key C r =
     (case CredentialID C (rc_Credential r) of
        Inl _ \<Rightarrow> None
      | Inr i \<Rightarrow> if rc_CredentialID r = i then Some i else None)"

definition record_add ::
  "crypto \<Rightarrow> CredentialRecord \<Rightarrow> CredentialSet \<Rightarrow> (string \<times> CredentialSet) option" where
  "record_add C r s =
     (if record_key C r = None then None
      else case CredentialSet_Add C (rc_Credential r) (rc_IssuerProof r) s of
          Inl _ \<Rightarrow> None | Inr x \<Rightarrow> Some x)"

interpretation evidence: content_store "record_key C" "record_add C" cs_records for C
proof
  fix v s k s' k'
  show "record_add C v s = None \<longleftrightarrow> record_key C v = None"
    by (auto simp: record_add_def record_key_def CredentialSet_Add_def split: sum.splits if_splits)
  assume a: "record_add C v s = Some (k, s')"
  then obtain i where i: "CredentialID C (rc_Credential v) = Inr i" "rc_CredentialID v = i"
    by (auto simp: record_add_def record_key_def split: sum.splits if_splits)
  with a show "record_key C v = Some k"
    by (auto simp: record_add_def record_key_def CredentialSet_Add_def)
  have "\<lparr>rc_CredentialID = i, rc_Credential = rc_Credential v, rc_IssuerProof = rc_IssuerProof v\<rparr> = v"
    using i by simp
  with a i show "cs_records s' k' =
      (if k' = k then (case cs_records s k of None \<Rightarrow> Some v | Some w \<Rightarrow> Some w) else cs_records s k')"
    by (auto simp: record_add_def record_key_def CredentialSet_Add_def split: option.splits if_splits)
qed

lemma CredentialSet_Add_record:
  assumes "CredentialSet_Add C c pf s = Inr (i, s')"
  shows "record_add C \<lparr>rc_CredentialID = i, rc_Credential = c, rc_IssuerProof = pf\<rparr> s = Some (i, s')"
  using assms by (auto simp: CredentialSet_Add_def record_add_def record_key_def bind_Inr_iff)

lemma record_key_ID:
  "record_key C r = Some i \<Longrightarrow> CredentialID C (rc_Credential r) = Inr i"
  "record_key C r = Some i \<Longrightarrow> rc_CredentialID r = i"
  by (auto simp: record_key_def split: sum.splits if_splits)

definition set_addressed :: "crypto \<Rightarrow> CredentialSet \<Rightarrow> bool" where
  "set_addressed C s \<longleftrightarrow> (\<forall>i r. cs_records s i = Some r \<longrightarrow> record_key C r = Some i)"

lemma NewCredentialSet_addressed: "set_addressed C NewCredentialSet"
  by (simp add: set_addressed_def NewCredentialSet_def)

lemma CredentialSet_Add_addressed:
  "CredentialSet_Add C c pf s = Inr (i, s') \<Longrightarrow> set_addressed C s \<Longrightarrow> set_addressed C s'"
  using evidence.add_keeps_addresses [OF _ CredentialSet_Add_record]
  unfolding set_addressed_def by blast

section \<open>What the addresses and the envelope signature pin\<close>

definition policy_same :: "Policy \<Rightarrow> Policy \<Rightarrow> bool" where
  "policy_same p p' \<longleftrightarrow> Ver p = Ver p' \<and> Rules p = Rules p' \<and> pDefault p = pDefault p'"

lemma policy_same_Evaluate: "policy_same p p' \<Longrightarrow> Policy_Evaluate q p a = Policy_Evaluate q p' a"
  by (auto simp: policy_same_def Policy_Evaluate_def split: option.split)

lemma condition_json_inject: "condition_json c = condition_json d \<Longrightarrow> c = (d :: Condition)"
  by (cases c; cases d) (simp add: condition_json_def)

lemma rule_json_inject: "rule_json r = rule_json s \<Longrightarrow> r = (s :: Rule)"
  by (cases r; cases s)
     (auto simp: rule_json_def omitempty_def dest: JList_inject condition_json_inject split: if_splits)

lemma policy_json_inject: "policy_json p = policy_json p' \<Longrightarrow> policy_same p p'"
  by (auto simp: policy_json_def policy_same_def dest: JList_inject rule_json_inject
      intro!: Default.equality)

definition policy_clean :: "Policy \<Rightarrow> bool" where
  "policy_clean p = json_valid (policy_json p)"

lemma PolicyID_binds:
  assumes "PolicyID C p = PolicyID C p'" and "policy_clean p" and "policy_clean p'"
  shows "policy_same p p' \<or> collision (sha256 C) (policy_preimage p) (policy_preimage p')"
proof (cases "policy_preimage p = policy_preimage p'")
  case True
  then have "json_enc (policy_json p) = json_enc (policy_json p')" by (simp add: policy_preimage_def)
  with assms(2,3) json_enc_inject policy_json_inject show ?thesis by (auto simp: policy_clean_def)
next
  case False
  with assms(1) show ?thesis by (simp add: PolicyID_def collision_def)
qed

lemma CredentialID_binds:
  assumes "CredentialID C c = Inr i" and "CredentialID C d = Inr i"
    and "credential_clean c" and "credential_clean d"
  shows "c = d \<or> collision (sha256 C) (credential_preimage c) (credential_preimage d)"
proof (cases "credential_preimage c = credential_preimage d")
  case True
  then have "json_enc (credential_json c) = json_enc (credential_json d)"
    by (simp add: credential_preimage_def)
  then have "credential_json c = credential_json d"
    using json_enc_inject assms(3,4) by (auto simp: credential_clean_def)
  then show ?thesis using credential_json_inject assms(3,4) by blast
next
  case False
  have "RawURLEncode (sha256 C (credential_preimage c)) = RawURLEncode (sha256 C (credential_preimage d))"
    using assms(1,2) by (auto simp: CredentialID_def split: if_splits)
  with False show ?thesis by (simp add: collision_def)
qed

lemma envelope_frame:
  assumes "envelopeSigningInput v s p n t = envelopeSigningInput v' s' p' n' t'"
    and "NUL \<notin> set v" and "NUL \<notin> set v'" and "NUL \<notin> set p" and "NUL \<notin> set p'"
    and "length t = length t'"
  shows "v = v' \<and> s = s' \<and> p = p' \<and> n = n' \<and> t = t'"
proof -
  have "(envelopeSigDomain @ NUL # v @ NUL # s) @ NUL # p @ NUL # be64 n @ NUL # t =
      (envelopeSigDomain @ NUL # v' @ NUL # s') @ NUL # p' @ NUL # be64 n' @ NUL # t'"
    using assms(1) by (simp add: envelopeSigningInput_def)
  then have "envelopeSigDomain @ NUL # v @ NUL # s = envelopeSigDomain @ NUL # v' @ NUL # s'"
    and r: "p = p'" "n = n'" "t = t'"
    using position_frame_inject assms(4-6) by blast+
  then have "v @ NUL # s = v' @ NUL # s'" by simp
  from sep_inject [OF this assms(2,3)] r show ?thesis by simp
qed

section \<open>Properties\<close>

text \<open>
  The envelope signature pins the header and both ends of the log: equal signing inputs,
  with versions and policy addresses free of zero bytes and tip hashes of the same width,
  come from the same version, signer, policy address, entry count and tip.
\<close>

theorem envelope_binds:
  assumes "envelopeSigningInput v s p n t = envelopeSigningInput v' s' p' n' t'"
    and "NUL \<notin> set v" and "NUL \<notin> set v'" and "NUL \<notin> set p" and "NUL \<notin> set p'"
    and "length t = length t'"
  shows "v = v' \<and> s = s' \<and> p = p' \<and> n = n' \<and> t = t'"
  by (rule envelope_frame [OF assms])

theorem envelope_binds_witness:
  "envelopeSigningInput Version ''did:web:p'' ''pid'' 2 GenesisHash \<noteq>
   envelopeSigningInput Version ''did:web:p'' ''pid'' 1 GenesisHash"
proof
  assume "envelopeSigningInput Version ''did:web:p'' ''pid'' 2 GenesisHash =
    envelopeSigningInput Version ''did:web:p'' ''pid'' 1 GenesisHash"
  from envelope_binds [OF this] show False by (simp add: Version_def NUL_def)
qed

text \<open>
  Evidence is stored under its content: adding a credential keeps every record under its
  own content address and every earlier record in place, and two credentials under one
  address are the same credential unless their encodings collide under SHA-256.
\<close>

theorem CredentialSet_Add_sound:
  assumes "CredentialSet_Add C c pf s = Inr (i, s')" and "set_addressed C s"
    and "cs_records s' i = Some r" and "credential_clean c" and "credential_clean (rc_Credential r)"
  shows "set_addressed C s' \<and> cs_records s \<subseteq>\<^sub>m cs_records s' \<and>
    (rc_Credential r = c \<or>
     collision (sha256 C) (credential_preimage (rc_Credential r)) (credential_preimage c))"
proof -
  note rec = CredentialSet_Add_record [OF assms(1)]
  have addr: "set_addressed C s'" by (rule CredentialSet_Add_addressed [OF assms(1,2)])
  moreover have "cs_records s \<subseteq>\<^sub>m cs_records s'"
    using evidence.add_monotone [OF rec] by (auto simp: map_le_def dom_def)
  moreover have "CredentialID C (rc_Credential r) = Inr i"
    using addr assms(3) record_key_ID unfolding set_addressed_def by blast
  moreover have "CredentialID C c = Inr i" using assms(1) by (auto simp: CredentialSet_Add_def bind_Inr_iff)
  ultimately show ?thesis using CredentialID_binds assms(4,5) by blast
qed

theorem CredentialSet_Add_sound_witness:
  "\<exists>c i s. CredentialSet_Add toy_crypto c ''pf'' NewCredentialSet = Inr (i, s) \<and> set_addressed toy_crypto s"
proof -
  let ?c = "\<lparr>cr_Subject = ''a'', cr_Issuer = ''o'', cr_Macaroon = sample_macaroon,
    cr_StatusRef = \<lparr>ref_ListURL = [], ref_Index = 0, ref_Issuer = []\<rparr>, cr_HolderKey = None,
    cr_VCWrapper = None\<rparr>"
  have clean: "credential_clean ?c"
    by (simp add: credential_clean_def credential_json_def macaroon_json_def sample_macaroon_def
        reference_json_def omitempty_def JList_def)
  obtain i where i: "CredentialID toy_crypto ?c = Inr i"
    by (simp add: CredentialID_def credential_marshals_def)
  let ?r = "\<lparr>rc_CredentialID = i, rc_Credential = ?c, rc_IssuerProof = ''pf''\<rparr>"
  have a: "CredentialSet_Add toy_crypto ?c ''pf'' NewCredentialSet = Inr (i, \<lparr>cs_records = [i \<mapsto> ?r]\<rparr>)"
    using i by (simp add: CredentialSet_Add_def NewCredentialSet_def)
  from CredentialSet_Add_sound [OF a NewCredentialSet_addressed, of ?r] clean a show ?thesis by auto
qed

text \<open>
  The parser is the only door: it accepts exactly version v2, with a carried policy only
  if the policy would load, and version v1 with no credential, policy or envelope signature.
\<close>

theorem Export_Parse_exact:
  "Export_Parse unmarshal data = Inr e \<longleftrightarrow>
     unmarshal data = Some e \<and>
     (x_Version e = Version \<and> (\<forall>p. x_Policy e = Some p \<longrightarrow> Policy_Validate p = Inr ()) \<or>
      x_Version e = ExportVersion \<and> x_Credentials e = Map.empty \<and> x_Policy e = None \<and>
      x_EnvelopeSignature e = [])"
proof -
  have "Version \<noteq> ExportVersion" by (simp add: Version_def ExportVersion_def)
  then show ?thesis
    by (auto simp: Export_Parse_def Inr_unit_iff split: option.splits if_splits)
qed

theorem Export_Parse_exact_witness:
  "\<exists>e. Export_Parse (\<lambda>_. Some e) ''x'' = Inr e"
proof -
  let ?e = "\<lparr>x_Version = Version, x_Signer = [], x_Entries = [],
    x_Credentials = Map.empty, x_Policy = None, x_EnvelopeSignature = []\<rparr>"
  have "Export_Parse (\<lambda>_. Some ?e) ''x'' = Inr ?e"
    using Export_Parse_exact [of "\<lambda>_. Some ?e" "''x''" ?e] by simp
  then show ?thesis by blast
qed

end
