(* ===== verification/Verifier.thy ===== *)
theory Verifier
  imports Evidence
begin

text \<open>
  \<^verbatim>\<open>internal/export/verify.go\<close>: the independent verifier.  It consults only public DID
  documents and published status lists (\<open>Inputs\<close>), checks the envelope, the hash chain and
  then, entry by entry, the evidence; for an allowed entry it re-derives the policy verdict,
  caveats, revocation, proof of possession and approval.  A verdict's reason is a value of
  \<open>reason\<close>, one constructor per message of the code.  The main theorem says what a clean pass
  proves.
\<close>

datatype Outcome = OutcomePass | OutcomePassDeny | OutcomeIntegrityOnly | OutcomeFail | OutcomeUnverified

datatype hop_err =
    NoStatusProvided string
  | StatusUnresolved string
  | AuthorityUnresolved DID did_err
  | ListInvalid status_err
  | LookupFailed status_err

datatype reason =
    JustifiedAllow
  | DeniedIntact
  | IntegrityVerified
  | ChainBroke audit_err
  | BrokeEarlier nat
  | ShortChain nat
  | WrongIDCount nat nat
  | MissingCredential nat string
  | RecordIDMismatch nat string string
  | HopCredentialID nat export_err
  | ContentMismatch nat string string
  | ChainInvalid chain_err
  | PrincipalCount nat nat
  | PrincipalDiffers nat
  | NoPolicyCarried
  | NoPolicyPinned
  | PolicySubstituted string string
  | PolicyDenies string
  | ConsequentialityMismatch bool bool
  | RuleMismatch string string
  | VersionMismatch string string
  | ExceedsAuthority macaroon_err
  | StatusHopCount nat nat
  | HopStatus nat hop_err
  | HopRevoked nat
  | NoPoP
  | PoPInvalid credential_err
  | NoApproval
  | PartialApproval
  | ApproverUnresolved DID did_err
  | ApprovalBad audit_err

record EntryResult =
  er_Seq :: u64
  er_Outcome :: Outcome
  er_Reason :: reason
  er_Chain :: "DID list"
  er_Limitations :: "(nat \<times> nat) list"

datatype fatal = NoEnvelopeSignature | EnvelopeInvalid

record Result =
  rs_Version :: string
  rs_EvidenceCarried :: bool
  rs_FatalReason :: "fatal option"
  rs_Entries :: "EntryResult list"

definition Result_Pass :: "Result \<Rightarrow> bool" where
  "Result_Pass r =
     (if rs_FatalReason r \<noteq> None \<or> \<not> rs_EvidenceCarried r then False
      else list_all (\<lambda>e. \<not> (er_Outcome e = OutcomeFail \<or> er_Outcome e = OutcomeUnverified)) (rs_Entries r))"

type_synonym StatusResolver = "string \<Rightarrow> StatusList option"

record Inputs =
  in_DIDs :: Resolver
  in_Status :: "StatusResolver option"

section \<open>Revocation of one hop\<close>

definition verifyList :: "crypto \<Rightarrow> StatusList \<Rightarrow> DID \<Rightarrow> public_key \<Rightarrow> hop_err + unit" where
  "verifyList C l authority pub = map_err ListInvalid (Status_Verify C l authority pub)"

definition hopRevoked :: "crypto \<Rightarrow> Inputs \<Rightarrow> Credential \<Rightarrow> hop_err + bool" where
  "hopRevoked C inp c =
     (let url = ref_ListURL (cr_StatusRef c) in
      case in_Status inp of
        None \<Rightarrow> Inl (NoStatusProvided url)
      | Some resolve \<Rightarrow>
          (case resolve url of
             None \<Rightarrow> Inl (StatusUnresolved url)
           | Some l \<Rightarrow>
               (case ResolveKey C (in_DIDs inp) (StatusAuthority c) of
                  Inl e \<Rightarrow> Inl (AuthorityUnresolved (StatusAuthority c) e)
                | Inr key \<Rightarrow>
                    (case verifyList C l (StatusAuthority c) key of
                       Inl e \<Rightarrow> Inl e
                     | Inr _ \<Rightarrow> map_err LookupFailed (Status_Lookup l (ref_Index (cr_StatusRef c)))))))"

section \<open>One entry\<close>

fun collect_links :: "crypto \<Rightarrow> Export \<Rightarrow> nat \<Rightarrow> string list \<Rightarrow> reason + Link list" where
  "collect_links C ex hop [] = Inr []"
| "collect_links C ex hop (i # is) =
     (case x_Credentials ex i of
        None \<Rightarrow> Inl (MissingCredential hop i)
      | Some r \<Rightarrow>
          if rc_CredentialID r \<noteq> i then Inl (RecordIDMismatch hop (rc_CredentialID r) i)
          else (case CredentialID C (rc_Credential r) of
              Inl e \<Rightarrow> Inl (HopCredentialID hop e)
            | Inr got \<Rightarrow>
                if got \<noteq> i then Inl (ContentMismatch hop got i)
                else (case collect_links C ex (Suc hop) is of
                    Inl e \<Rightarrow> Inl e
                  | Inr lks \<Rightarrow>
                      Inr (\<lparr>lk_Credential = rc_Credential r, lk_IssuerProof = rc_IssuerProof r\<rparr> # lks))))"

fun first_difference :: "nat \<Rightarrow> DID list \<Rightarrow> DID list \<Rightarrow> nat option" where
  "first_difference i (x # xs) (y # ys) = (if x \<noteq> y then Some i else first_difference (Suc i) xs ys)"
| "first_difference i _ _ = None"

definition resolve_entry :: "crypto \<Rightarrow> Export \<Rightarrow> Inputs \<Rightarrow> Entry \<Rightarrow> reason + Link list" where
  "resolve_entry C ex inp e =
     (if length (e_ResolvedChain e) < 2 then Inl (ShortChain (length (e_ResolvedChain e)))
      else if length (e_ChainCredentialIDs e) \<noteq> length (e_ResolvedChain e) - 1
      then Inl (WrongIDCount (length (e_ChainCredentialIDs e)) (length (e_ResolvedChain e)))
      else case collect_links C ex 0 (e_ChainCredentialIDs e) of
          Inl err \<Rightarrow> Inl err
        | Inr lks \<Rightarrow>
            (case Chain_Verify C (in_DIDs inp) \<lparr>Links = lks\<rparr> of
               Inl err \<Rightarrow> Inl (ChainInvalid err)
             | Inr _ \<Rightarrow>
                 let principals = Principals \<lparr>Links = lks\<rparr> in
                 if length principals \<noteq> length (e_ResolvedChain e)
                 then Inl (PrincipalCount (length principals) (length (e_ResolvedChain e)))
                 else (case first_difference 0 principals (e_ResolvedChain e) of
                     Some i \<Rightarrow> Inl (PrincipalDiffers i)
                   | None \<Rightarrow> Inr lks)))"

definition check_policy ::
  "crypto \<Rightarrow> (string \<Rightarrow> string) \<Rightarrow> Export \<Rightarrow> Entry \<Rightarrow> reason + Decision" where
  "check_policy C q ex e =
     (case x_Policy ex of
        None \<Rightarrow> Inl NoPolicyCarried
      | Some p \<Rightarrow>
          let wantPID = PolicyID C p; derived = Policy_Evaluate q p (e_Action e); d = e_Decision e in
          if e_PolicyID e = [] then Inl NoPolicyPinned
          else if e_PolicyID e \<noteq> wantPID then Inl (PolicySubstituted (e_PolicyID e) wantPID)
          else if \<not> d_Allowed derived then Inl (PolicyDenies (d_RuleFired derived))
          else if d_Consequential derived \<noteq> d_Consequential d
          then Inl (ConsequentialityMismatch (d_Consequential d) (d_Consequential derived))
          else if d_RuleFired derived \<noteq> d_RuleFired d
          then Inl (RuleMismatch (d_RuleFired d) (d_RuleFired derived))
          else if d_PolicyVersion derived \<noteq> d_PolicyVersion d
          then Inl (VersionMismatch (d_PolicyVersion d) (d_PolicyVersion derived))
          else Inr derived)"

fun sweep_hops :: "crypto \<Rightarrow> Inputs \<Rightarrow> nat \<Rightarrow> Link list \<Rightarrow> reason + unit" where
  "sweep_hops C inp hop [] = Inr ()"
| "sweep_hops C inp hop (lk # lks) =
     (let c = lk_Credential lk in
      if ref_ListURL (cr_StatusRef c) = [] then sweep_hops C inp (Suc hop) lks
      else case hopRevoked C inp c of
          Inl err \<Rightarrow> Inl (HopStatus hop err)
        | Inr revoked \<Rightarrow> if revoked then Inl (HopRevoked hop) else sweep_hops C inp (Suc hop) lks)"

definition listed_hops :: "Link list \<Rightarrow> nat" where
  "listed_hops lks = length (filter (\<lambda>lk. ref_ListURL (cr_StatusRef (lk_Credential lk)) \<noteq> []) lks)"

definition check_status ::
  "crypto \<Rightarrow> Inputs \<Rightarrow> bool \<Rightarrow> Entry \<Rightarrow> Link list \<Rightarrow> reason + (nat \<times> nat) list" where
  "check_status C inp consequential e lks =
     (if \<not> consequential then Inr []
      else let want = listed_hops lks; skipped = length lks - want in
        if d_StatusCheckedHops (e_Decision e) \<noteq> want
        then Inl (StatusHopCount (d_StatusCheckedHops (e_Decision e)) want)
        else (case sweep_hops C inp 0 lks of
            Inl err \<Rightarrow> Inl err
          | Inr _ \<Rightarrow> Inr (if skipped > 0 then [(skipped, length lks)] else [])))"

definition check_pop :: "crypto \<Rightarrow> Credential \<Rightarrow> Entry \<Rightarrow> reason + unit" where
  "check_pop C terminal e =
     (if e_PoPNonce e = [] \<or> e_PoPSignature e = [] then Inl NoPoP
      else map_err PoPInvalid
             (VerifyPossession C terminal
                \<lparr>pop_Nonce = e_PoPNonce e, pop_Signature = e_PoPSignature e\<rparr>
                (e_Action e) (e_Seq e) (e_PrevHash e)))"

definition check_approval ::
  "crypto \<Rightarrow> Inputs \<Rightarrow> bool \<Rightarrow> Credential \<Rightarrow> Entry \<Rightarrow> reason + unit" where
  "check_approval C inp consequential terminal e =
     (if consequential \<and> (e_ApprovedBy e = [] \<or> e_Approval e = []) then Inl NoApproval
      else if e_ApprovedBy e \<noteq> [] \<or> e_Approval e \<noteq> [] then
        (if e_ApprovedBy e = [] \<or> e_Approval e = [] then Inl PartialApproval
         else case ResolveKey C (in_DIDs inp) (e_ApprovedBy e) of
             Inl err \<Rightarrow> Inl (ApproverUnresolved (e_ApprovedBy e) err)
           | Inr key \<Rightarrow>
               map_err ApprovalBad
                 (VerifyApproval C key (cr_Subject terminal) (e_Action e) (e_Seq e) (e_PrevHash e)
                    (e_Approval e)))
      else Inr ())"

text \<open>The checks on an allowed entry, in the order of the code.\<close>

definition verify_allow ::
  "crypto \<Rightarrow> (string \<Rightarrow> string) \<Rightarrow> Export \<Rightarrow> Inputs \<Rightarrow> Entry \<Rightarrow> Link list \<Rightarrow> reason + (nat \<times> nat) list" where
  "verify_allow C q ex inp e lks =
     (let terminal = lk_Credential (last lks) in
      case check_policy C q ex e of
        Inl err \<Rightarrow> Inl err
      | Inr derived \<Rightarrow>
          (case Macaroon_Satisfies (cr_Macaroon terminal) (Context (e_Action e) ++ HolderContext terminal) of
             Inl err \<Rightarrow> Inl (ExceedsAuthority err)
           | Inr _ \<Rightarrow>
               (case check_status C inp (d_Consequential derived) e lks of
                  Inl err \<Rightarrow> Inl err
                | Inr lims \<Rightarrow>
                    (case check_pop C terminal e of
                       Inl err \<Rightarrow> Inl err
                     | Inr _ \<Rightarrow>
                         (case check_approval C inp (d_Consequential derived) terminal e of
                            Inl err \<Rightarrow> Inl err
                          | Inr _ \<Rightarrow> Inr lims)))))"

definition verifyEntry ::
  "crypto \<Rightarrow> (string \<Rightarrow> string) \<Rightarrow> Export \<Rightarrow> Inputs \<Rightarrow> Entry \<Rightarrow> EntryResult" where
  "verifyEntry C q ex inp e =
     (let mk = (\<lambda>out why ch lims. \<lparr>er_Seq = e_Seq e, er_Outcome = out, er_Reason = why,
                                  er_Chain = ch, er_Limitations = lims\<rparr>)
      in if IsV1 ex then mk OutcomeIntegrityOnly IntegrityVerified (e_ResolvedChain e) []
         else (case resolve_entry C ex inp e of
             Inl err \<Rightarrow> mk OutcomeFail err [] []
           | Inr lks \<Rightarrow>
               let principals = Principals \<lparr>Links = lks\<rparr> in
               if \<not> d_Allowed (e_Decision e) then mk OutcomePassDeny DeniedIntact principals []
               else (case verify_allow C q ex inp e lks of
                   Inl err \<Rightarrow> mk OutcomeFail err [] []
                 | Inr lims \<Rightarrow> mk OutcomePass JustifiedAllow principals lims)))"

section \<open>The whole export\<close>

definition verifyEnvelope :: "crypto \<Rightarrow> Export \<Rightarrow> public_key \<Rightarrow> fatal + unit" where
  "verifyEnvelope C ex pub =
     (if x_EnvelopeSignature ex = [] then Inl NoEnvelopeSignature
      else if \<not> Signer_Verify C pub
               (envelopeSigningInput (x_Version ex) (x_Signer ex) (pid_of C (x_Policy ex))
                  (of_nat (length (x_Entries ex))) (logTip (x_Entries ex)))
               (x_EnvelopeSignature ex)
      then Inl EnvelopeInvalid
      else Inr ())"

definition entry_results ::
  "crypto \<Rightarrow> (string \<Rightarrow> string) \<Rightarrow> Export \<Rightarrow> Inputs \<Rightarrow> (nat \<times> audit_err) + unit \<Rightarrow> EntryResult list" where
  "entry_results C q ex inp verdict =
     map (\<lambda>(i, e).
            case verdict of
              Inl (k, err) \<Rightarrow>
                if i = k then \<lparr>er_Seq = e_Seq e, er_Outcome = OutcomeFail, er_Reason = ChainBroke err,
                               er_Chain = [], er_Limitations = []\<rparr>
                else if i > k then \<lparr>er_Seq = e_Seq e, er_Outcome = OutcomeUnverified,
                                    er_Reason = BrokeEarlier k, er_Chain = [], er_Limitations = []\<rparr>
                else verifyEntry C q ex inp e
            | Inr _ \<Rightarrow> verifyEntry C q ex inp e)
         (List.enumerate 0 (x_Entries ex))"

definition Export_Verify ::
  "crypto \<Rightarrow> (string \<Rightarrow> string) \<Rightarrow> Export \<Rightarrow> Inputs \<Rightarrow> did_err + Result" where
  "Export_Verify C q ex inp =
     (let base = \<lparr>rs_Version = x_Version ex, rs_EvidenceCarried = (\<not> IsV1 ex),
                  rs_FatalReason = None, rs_Entries = []\<rparr>
      in case ResolveKey C (in_DIDs inp) (x_Signer ex) of
           Inl e \<Rightarrow> Inl e
         | Inr key \<Rightarrow>
             (case (if IsV1 ex then Inr () else verifyEnvelope C ex key) of
                Inl f \<Rightarrow> Inr (base\<lparr>rs_FatalReason := Some f\<rparr>)
              | Inr _ \<Rightarrow>
                  Inr (base\<lparr>rs_Entries :=
                         entry_results C q ex inp (VerifyEntries C (x_Entries ex) key)\<rparr>)))"

section \<open>What each check establishes\<close>

text \<open>The records of an export that back a list of credential addresses.\<close>

definition evidence_links :: "crypto \<Rightarrow> (string \<rightharpoonup> CredentialRecord) \<Rightarrow> string list \<Rightarrow> Link list \<Rightarrow> bool" where
  "evidence_links C recs ids lks \<longleftrightarrow>
     list_all2 (\<lambda>i lk. \<exists>r. recs i = Some r \<and> record_key C r = Some i \<and>
       lk = \<lparr>lk_Credential = rc_Credential r, lk_IssuerProof = rc_IssuerProof r\<rparr>) ids lks"

lemma record_key_iff:
  "record_key C r = Some i \<longleftrightarrow> rc_CredentialID r = i \<and> CredentialID C (rc_Credential r) = Inr i"
  by (auto simp: record_key_def split: sum.splits if_splits)

lemma collect_links_ok:
  "collect_links C ex hop ids = Inr lks \<longleftrightarrow> evidence_links C (x_Credentials ex) ids lks"
proof (induction ids arbitrary: hop lks)
  case Nil
  then show ?case by (auto simp: evidence_links_def)
next
  case (Cons i ids)
  show ?case
  proof (cases "x_Credentials ex i")
    case None
    then show ?thesis by (auto simp: evidence_links_def list_all2_Cons1)
  next
    case (Some r)
    then show ?thesis
      by (auto simp: evidence_links_def list_all2_Cons1 record_key_iff bind_Inr_iff
          Cons.IH [unfolded evidence_links_def])
  qed
qed

lemma first_difference_None:
  "length xs = length ys \<Longrightarrow> first_difference i xs ys = None \<longleftrightarrow> xs = ys"
  by (induction i xs ys rule: first_difference.induct) auto

lemma first_difference_case:
  "length xs = length ys \<Longrightarrow>
     (case first_difference i xs ys of None \<Rightarrow> Inr l | Some k \<Rightarrow> Inl (f k)) = Inr l' \<longleftrightarrow> xs = ys \<and> l = l'"
  using first_difference_None [of xs ys i] by (auto split: option.splits)

lemma evidence_links_length: "evidence_links C recs ids lks \<Longrightarrow> length lks = length ids"
  by (auto simp: evidence_links_def dest: list_all2_lengthD)

lemma length_Principals: "length (Principals ch) = (if Links ch = [] then 0 else Suc (length (Links ch)))"
  by (auto simp: Principals_def split: list.split)

lemma resolve_entry_ok:
  "resolve_entry C ex inp e = Inr lks \<longleftrightarrow>
     evidence_links C (x_Credentials ex) (e_ChainCredentialIDs e) lks \<and>
     is_ok (Chain_Verify C (in_DIDs inp) \<lparr>Links = lks\<rparr>) \<and> Principals \<lparr>Links = lks\<rparr> = e_ResolvedChain e"
proof -
  have "2 \<le> length (e_ResolvedChain e) \<and> length (e_ChainCredentialIDs e) = length (e_ResolvedChain e) - 1"
    if "evidence_links C (x_Credentials ex) (e_ChainCredentialIDs e) lks"
      "is_ok (Chain_Verify C (in_DIDs inp) \<lparr>Links = lks\<rparr>)" "Principals \<lparr>Links = lks\<rparr> = e_ResolvedChain e"
    using evidence_links_length [OF that(1)] length_Principals [of "\<lparr>Links = lks\<rparr>"] that(2,3)
    by (cases lks) (auto simp: Chain_Verify_ok)
  then show ?thesis
    by (auto simp: resolve_entry_def bind_Inr_iff collect_links_ok Let_def not_less
        first_difference_case cong: conj_cong)
qed

lemma check_policy_ok:
  "check_policy C q ex e = Inr d \<longleftrightarrow>
     (\<exists>p. x_Policy ex = Some p \<and> e_PolicyID e = PolicyID C p \<and> e_PolicyID e \<noteq> [] \<and>
        d = Policy_Evaluate q p (e_Action e) \<and> d_Allowed d \<and>
        d_Consequential d = d_Consequential (e_Decision e) \<and> d_RuleFired d = d_RuleFired (e_Decision e) \<and>
        d_PolicyVersion d = d_PolicyVersion (e_Decision e))"
  by (auto simp: check_policy_def Let_def split: option.splits)

text \<open>
  A hop is proven unrevoked by a list that the credential's revocation authority signed and
  that holds a clear bit at the credential's index.
\<close>

definition hop_unrevoked :: "crypto \<Rightarrow> Inputs \<Rightarrow> Credential \<Rightarrow> bool" where
  "hop_unrevoked C inp c \<longleftrightarrow>
     (\<exists>resolve l key. in_Status inp = Some resolve \<and> resolve (ref_ListURL (cr_StatusRef c)) = Some l \<and>
        ResolveKey C (in_DIDs inp) (StatusAuthority c) = Inr key \<and>
        Status_Verify C l (StatusAuthority c) key = Inr () \<and>
        Status_Lookup l (ref_Index (cr_StatusRef c)) = Inr False)"

lemma hopRevoked_False: "hopRevoked C inp c = Inr False \<longleftrightarrow> hop_unrevoked C inp c"
  by (auto simp: hopRevoked_def hop_unrevoked_def verifyList_def bind_Inr_iff Inr_unit_iff Let_def
      split: option.splits)

lemma sweep_hops_ok:
  "is_ok (sweep_hops C inp hop lks) \<longleftrightarrow>
     list_all (\<lambda>lk. ref_ListURL (cr_StatusRef (lk_Credential lk)) \<noteq> [] \<longrightarrow> hop_unrevoked C inp (lk_Credential lk)) lks"
proof (induction lks arbitrary: hop)
  case (Cons lk lks)
  show ?case
    using Cons.IH [of "Suc hop"] hopRevoked_False [of C inp "lk_Credential lk"]
    by (cases "hopRevoked C inp (lk_Credential lk)") (auto simp: Let_def)
qed simp

lemma check_status_ok:
  "is_ok (check_status C inp b e lks) \<longleftrightarrow>
     (b \<longrightarrow> d_StatusCheckedHops (e_Decision e) = listed_hops lks \<and> is_ok (sweep_hops C inp 0 lks))"
  by (auto simp: check_status_def Let_def)

text \<open>The approval an entry carries is complete and valid for its actor, action and slot.\<close>

definition approval_valid :: "crypto \<Rightarrow> Inputs \<Rightarrow> DID \<Rightarrow> Entry \<Rightarrow> bool" where
  "approval_valid C inp actor e \<longleftrightarrow>
     e_ApprovedBy e \<noteq> [] \<and> e_Approval e \<noteq> [] \<and>
     (\<exists>key. ResolveKey C (in_DIDs inp) (e_ApprovedBy e) = Inr key \<and>
        VerifyApproval C key actor (e_Action e) (e_Seq e) (e_PrevHash e) (e_Approval e) = Inr ())"

lemma check_approval_ok:
  "is_ok (check_approval C inp b c e) \<longleftrightarrow>
     approval_valid C inp (cr_Subject c) e \<or> \<not> b \<and> e_ApprovedBy e = [] \<and> e_Approval e = []"
  by (auto simp: check_approval_def approval_valid_def Inr_unit_iff split: sum.splits)

lemma check_pop_ok:
  "is_ok (check_pop C c e) \<longleftrightarrow>
     e_PoPNonce e \<noteq> [] \<and> e_PoPSignature e \<noteq> [] \<and>
     (\<exists>key input. JWK_PublicKey C (cr_HolderKey c) = Inr key \<and>
        popInput c (e_PoPNonce e) (e_Action e) (e_Seq e) (e_PrevHash e) = Inr input \<and>
        Signer_Verify C key input (e_PoPSignature e))"
  by (cases "cr_HolderKey c")
     (auto simp: check_pop_def VerifyPossession_def split: sum.splits)

lemma verify_allow_ok:
  "is_ok (verify_allow C q ex inp e lks) \<longleftrightarrow>
     (\<exists>d. check_policy C q ex e = Inr d \<and>
        is_ok (Macaroon_Satisfies (cr_Macaroon (lk_Credential (last lks)))
                 (Context (e_Action e) ++ HolderContext (lk_Credential (last lks)))) \<and>
        is_ok (check_status C inp (d_Consequential d) e lks) \<and>
        is_ok (check_pop C (lk_Credential (last lks)) e) \<and>
        is_ok (check_approval C inp (d_Consequential d) (lk_Credential (last lks)) e))"
  by (auto simp: verify_allow_def Let_def split: sum.splits)

lemma verifyEntry_not_fail:
  "\<not> IsV1 ex \<Longrightarrow>
     er_Outcome (verifyEntry C q ex inp e) \<notin> {OutcomeFail, OutcomeUnverified} \<longleftrightarrow>
     (\<exists>lks. resolve_entry C ex inp e = Inr lks \<and>
        (d_Allowed (e_Decision e) \<longrightarrow> is_ok (verify_allow C q ex inp e lks)))"
  by (auto simp: verifyEntry_def Let_def split: sum.splits)

section \<open>What a pass proves\<close>

text \<open>
  The claim behind an allowed entry, over the evidence links \<open>lks\<close>: the pinned policy allows
  the action and classifies it as recorded; the action is within the caveats of every hop's
  macaroon; the actor's published key signed the action at this log position; and, for a
  consequential action, every hop that publishes a revocation list is unrevoked, the recorded
  count says so, and a human approved this action at this position.
\<close>

definition allow_justified ::
  "crypto \<Rightarrow> (string \<Rightarrow> string) \<Rightarrow> Export \<Rightarrow> Inputs \<Rightarrow> Entry \<Rightarrow> Link list \<Rightarrow> bool" where
  "allow_justified C q ex inp e lks \<longleftrightarrow>
     (\<exists>p. x_Policy ex = Some p \<and> e_PolicyID e = PolicyID C p \<and>
        d_Allowed (Policy_Evaluate q p (e_Action e)) \<and>
        d_Consequential (Policy_Evaluate q p (e_Action e)) = d_Consequential (e_Decision e) \<and>
        d_RuleFired (Policy_Evaluate q p (e_Action e)) = d_RuleFired (e_Decision e) \<and>
        d_PolicyVersion (e_Decision e) = Ver p) \<and>
     list_all (\<lambda>lk. is_ok (Macaroon_Satisfies (cr_Macaroon (lk_Credential lk))
                (Context (e_Action e) ++ HolderContext (lk_Credential (last lks))))) lks \<and>
     (\<exists>key input. ResolveKey C (in_DIDs inp) (last (e_ResolvedChain e)) = Inr key \<and>
        popInput (lk_Credential (last lks)) (e_PoPNonce e) (e_Action e) (e_Seq e) (e_PrevHash e) = Inr input \<and>
        Signer_Verify C key input (e_PoPSignature e)) \<and>
     (d_Consequential (e_Decision e) \<longrightarrow>
        list_all (\<lambda>lk. ref_ListURL (cr_StatusRef (lk_Credential lk)) \<noteq> [] \<longrightarrow>
                    hop_unrevoked C inp (lk_Credential lk)) lks \<and>
        d_StatusCheckedHops (e_Decision e) = listed_hops lks \<and>
        approval_valid C inp (last (e_ResolvedChain e)) e)"

definition entry_backed :: "crypto \<Rightarrow> (string \<Rightarrow> string) \<Rightarrow> Export \<Rightarrow> Inputs \<Rightarrow> Entry \<Rightarrow> bool" where
  "entry_backed C q ex inp e \<longleftrightarrow>
     (\<exists>lks. evidence_links C (x_Credentials ex) (e_ChainCredentialIDs e) lks \<and>
        Chain_Verify C (in_DIDs inp) \<lparr>Links = lks\<rparr> = Inr () \<and>
        Principals \<lparr>Links = lks\<rparr> = e_ResolvedChain e \<and>
        (d_Allowed (e_Decision e) \<longrightarrow> allow_justified C q ex inp e lks))"

lemma terminal_key:
  assumes "is_ok (Chain_Verify C r \<lparr>Links = lks\<rparr>)" and "JWK_PublicKey C (cr_HolderKey (lk_Credential (last lks))) = Inr k"
  shows "ResolveKey C r (last (Principals \<lparr>Links = lks\<rparr>)) = Inr k"
    and "last (Principals \<lparr>Links = lks\<rparr>) = cr_Subject (lk_Credential (last lks))"
proof -
  from assms(1) have ne: "lks \<noteq> []" and hs: "hop_sound C r (last lks)"
    by (auto simp: Chain_Verify_ok list_all_iff)
  show l: "last (Principals \<lparr>Links = lks\<rparr>) = cr_Subject (lk_Credential (last lks))"
    using ne by (auto simp: Principals_def last_map split: list.split)
  from hs assms(2) show "ResolveKey C r (last (Principals \<lparr>Links = lks\<rparr>)) = Inr k"
    by (auto simp: l hop_sound_def Let_def)
qed

lemma all_hops_satisfy:
  assumes "is_ok (Chain_Verify C r \<lparr>Links = lks\<rparr>)"
    and "is_ok (Macaroon_Satisfies (cr_Macaroon (lk_Credential (last lks))) ctx)"
  shows "list_all (\<lambda>lk. is_ok (Macaroon_Satisfies (cr_Macaroon (lk_Credential lk)) ctx)) lks"
proof -
  from assms(1) have "lks \<noteq> []" by (auto simp: Chain_Verify_ok)
  with macaroon.terminal_allows [OF Chain_macaroons [OF assms(1)], of ctx] assms(2) show ?thesis
    by (auto simp: last_map list_all_iff)
qed

lemma verify_allow_justified:
  assumes "is_ok (verify_allow C q ex inp e lks)" and "is_ok (Chain_Verify C (in_DIDs inp) \<lparr>Links = lks\<rparr>)"
    and "Principals \<lparr>Links = lks\<rparr> = e_ResolvedChain e"
  shows "allow_justified C q ex inp e lks"
proof -
  let ?t = "lk_Credential (last lks)"
  from assms(1) obtain d where d: "check_policy C q ex e = Inr d"
    and sat: "is_ok (Macaroon_Satisfies (cr_Macaroon ?t) (Context (e_Action e) ++ HolderContext ?t))"
    and st: "is_ok (check_status C inp (d_Consequential d) e lks)"
    and pop: "is_ok (check_pop C ?t e)"
    and ap: "is_ok (check_approval C inp (d_Consequential d) ?t e)"
    by (auto simp: verify_allow_ok)
  from d obtain p where p: "x_Policy ex = Some p" "e_PolicyID e = PolicyID C p"
    "d = Policy_Evaluate q p (e_Action e)" "d_Allowed d"
    "d_Consequential d = d_Consequential (e_Decision e)" "d_RuleFired d = d_RuleFired (e_Decision e)"
    "d_PolicyVersion d = d_PolicyVersion (e_Decision e)"
    by (auto simp: check_policy_ok)
  have ver: "d_PolicyVersion (e_Decision e) = Ver p"
    using p(3,7) policy.evaluate_version [of q p "e_Action e"] by (simp add: Policy_Version_def)
  from pop obtain key input where k: "JWK_PublicKey C (cr_HolderKey ?t) = Inr key"
    "popInput ?t (e_PoPNonce e) (e_Action e) (e_Seq e) (e_PrevHash e) = Inr input"
    "Signer_Verify C key input (e_PoPSignature e)"
    by (auto simp: check_pop_ok)
  note tk = terminal_key [OF assms(2) k(1), unfolded assms(3)]
  have "approval_valid C inp (last (e_ResolvedChain e)) e" if "d_Consequential (e_Decision e)"
    using ap that tk(2) p(5) by (auto simp: check_approval_ok)
  with p ver all_hops_satisfy [OF assms(2) sat] k tk st show ?thesis
    by (auto simp: allow_justified_def check_status_ok sweep_hops_ok)
qed

lemma verifyEntry_backed:
  assumes "\<not> IsV1 ex" and "er_Outcome (verifyEntry C q ex inp e) \<notin> {OutcomeFail, OutcomeUnverified}"
  shows "entry_backed C q ex inp e"
proof -
  obtain lks where "resolve_entry C ex inp e = Inr lks"
    and "d_Allowed (e_Decision e) \<longrightarrow> is_ok (verify_allow C q ex inp e lks)"
    using assms verifyEntry_not_fail [OF assms(1), of C q inp e] by blast
  with verify_allow_justified [of C q ex inp e lks] show ?thesis
    unfolding entry_backed_def resolve_entry_ok Inr_unit_iff by blast
qed

lemma entry_results_all:
  assumes "list_all (\<lambda>r. er_Outcome r \<notin> {OutcomeFail, OutcomeUnverified}) (entry_results C q ex inp (VerifyEntries C (x_Entries ex) key))"
  shows "is_ok (VerifyEntries C (x_Entries ex) key) \<and>
    list_all (\<lambda>e. er_Outcome (verifyEntry C q ex inp e) \<notin> {OutcomeFail, OutcomeUnverified}) (x_Entries ex)"
proof (cases "VerifyEntries C (x_Entries ex) key")
  case (Inl f)
  obtain k err where f: "f = (k, err)" by (cases f)
  with Inl verify_from_fail have "k < length (x_Entries ex)"
    unfolding VerifyEntries_def by fastforce
  then have "(k, x_Entries ex ! k) \<in> set (List.enumerate 0 (x_Entries ex))"
    by (simp add: in_set_enumerate_eq)
  with assms Inl f show ?thesis by (fastforce simp: entry_results_def list_all_iff)
next
  case (Inr u)
  have "(i, e) \<in> set (List.enumerate 0 (x_Entries ex)) \<Longrightarrow> e \<in> set (x_Entries ex)" for i e
    by (auto simp: in_set_enumerate_eq)
  moreover have "\<exists>i. (i, e) \<in> set (List.enumerate 0 (x_Entries ex))" if "e \<in> set (x_Entries ex)" for e
  proof -
    from that obtain i where "i < length (x_Entries ex)" "e = x_Entries ex ! i"
      by (auto simp: in_set_conv_nth)
    then have "(i, e) \<in> set (List.enumerate 0 (x_Entries ex))" by (simp add: in_set_enumerate_eq)
    then show ?thesis by blast
  qed
  ultimately show ?thesis
    using assms Inr by (fastforce simp: entry_results_def list_all_iff)
qed

lemma Export_Verify_pass:
  assumes "Export_Verify C q ex inp = Inr res" and "Result_Pass res"
  obtains key where "ResolveKey C (in_DIDs inp) (x_Signer ex) = Inr key" and "\<not> IsV1 ex"
    and "is_ok (verifyEnvelope C ex key)" and "is_ok (VerifyEntries C (x_Entries ex) key)"
    and "list_all (\<lambda>e. er_Outcome (verifyEntry C q ex inp e) \<notin> {OutcomeFail, OutcomeUnverified}) (x_Entries ex)"
proof -
  from assms(1) obtain key where key: "ResolveKey C (in_DIDs inp) (x_Signer ex) = Inr key"
    by (auto simp: Export_Verify_def Let_def bind_Inr_iff)
  have v2: "\<not> IsV1 ex" and ok: "is_ok (verifyEnvelope C ex key)"
    and r: "list_all (\<lambda>r. er_Outcome r \<notin> {OutcomeFail, OutcomeUnverified})
      (entry_results C q ex inp (VerifyEntries C (x_Entries ex) key))"
    using assms key
    by (auto simp: Export_Verify_def Result_Pass_def Let_def split: sum.splits if_splits)
  from that [OF key v2 ok] entry_results_all [OF r] show thesis by blast
qed

section \<open>Properties\<close>

text \<open>
  C2. What a clean pass proves.  If verification of an export passes, then the envelope
  signature and the whole hash chain verify under the enforcement point's published key, and
  every entry is backed by content-addressed credentials that form a verified chain of exactly
  the recorded principals; and every allow is justified: policy re-derived from the pinned
  ruleset, authority of every hop, possession under the actor's published key, and for
  consequential actions revocation status of every listed hop and a valid human approval.
\<close>

theorem verifier_pass_sound:
  assumes "Export_Verify C q ex inp = Inr res" and "Result_Pass res"
  shows "(\<exists>key. ResolveKey C (in_DIDs inp) (x_Signer ex) = Inr key \<and>
      verifyEnvelope C ex key = Inr () \<and> VerifyEntries C (x_Entries ex) key = Inr ()) \<and>
    list_all (entry_backed C q ex inp) (x_Entries ex)"
proof -
  from Export_Verify_pass [OF assms] obtain key where k: "ResolveKey C (in_DIDs inp) (x_Signer ex) = Inr key"
    "\<not> IsV1 ex" "is_ok (verifyEnvelope C ex key)" "is_ok (VerifyEntries C (x_Entries ex) key)"
    "list_all (\<lambda>e. er_Outcome (verifyEntry C q ex inp e) \<notin> {OutcomeFail, OutcomeUnverified}) (x_Entries ex)" .
  then have "list_all (entry_backed C q ex inp) (x_Entries ex)"
    using verifyEntry_backed [OF k(2)] by (simp add: list_all_iff)
  with k show ?thesis by (auto simp: Inr_unit_iff)
qed

text \<open>
  An integrity-only export and an export whose envelope signature is missing or wrong
  never pass, whatever their entries say.
\<close>

theorem no_pass_without_envelope:
  assumes "Export_Verify C q ex inp = Inr res" and "ResolveKey C (in_DIDs inp) (x_Signer ex) = Inr key"
    and "IsV1 ex \<or> \<not> is_ok (verifyEnvelope C ex key)"
  shows "\<not> Result_Pass res"
proof
  assume "Result_Pass res"
  from Export_Verify_pass [OF assms(1) this] assms(2,3) show False by auto
qed

definition v1_export :: Export where
  "v1_export = \<lparr>x_Version = ExportVersion, x_Signer = ''org'', x_Entries = [], x_Credentials = Map.empty,
     x_Policy = None, x_EnvelopeSignature = []\<rparr>"

definition toy_inputs :: Inputs where
  "toy_inputs = \<lparr>in_DIDs = toy_resolver sample_keys, in_Status = None\<rparr>"

theorem no_pass_without_envelope_witness:
  "\<exists>res. Export_Verify toy_crypto id v1_export toy_inputs = Inr res \<and> \<not> Result_Pass res"
proof -
  have v1: "IsV1 v1_export" by (simp add: v1_export_def IsV1_def)
  have k: "ResolveKey toy_crypto (in_DIDs toy_inputs) (x_Signer v1_export) =
      Inr (Ed25519Key (toy_key (sample_keys ''org'')))"
    by (simp add: toy_inputs_def v1_export_def)
  obtain res where res: "Export_Verify toy_crypto id v1_export toy_inputs = Inr res"
    using k v1 by (simp add: Export_Verify_def Let_def)
  from no_pass_without_envelope [OF res k] v1 res show ?thesis by blast
qed

lemma logTip_last: "es \<noteq> [] \<Longrightarrow> logTip es = e_EntryHash (last es)"
  by (simp add: logTip_def last_conv_nth)

lemma logTip_width:
  assumes "crypto_laws C" and "is_ok (VerifyEntries C es pub)"
  shows "length (logTip es) = 32"
proof (cases es rule: rev_cases)
  case Nil
  then show ?thesis by (simp add: logTip_def GenesisHash_def)
next
  case (snoc fs e)
  with assms(2) have "is_ok (verify_entry_at C pub (length fs) (prev_of fs GenesisHash) e)"
    by (simp add: VerifyEntries_snoc)
  then have "entryHash C e = Inr (e_EntryHash e)"
    by (auto simp: verify_entry_at_def split: sum.splits)
  then have "e_EntryHash e = sha256 C (entry_preimage e)" by (simp add: entryHash_def split: if_splits)
  with assms(1) snoc show ?thesis by (simp add: crypto_laws_def logTip_def)
qed

lemma b64_char_not_NUL: "n < 64 \<Longrightarrow> b64_char al n \<noteq> NUL"
proof
  assume "n < 64" "b64_char al n = NUL"
  then have "b64_val al NUL = Some n" using b64_val_char(1) [of n al] by simp
  then show False by (cases al) (simp_all add: b64_val_def NUL_def)
qed

lemma b64_encode_no_NUL: "NUL \<notin> set (b64_encode al False s)"
proof (induction al False s rule: b64_encode.induct)
  case (2 al a)
  then show ?case using b64_quantum_bounds [of "ord a" 0 0] by (simp add: b64_char_not_NUL [symmetric])
next
  case (3 al a b)
  then show ?case using b64_quantum_bounds [of "ord a" "ord b" 0] by (simp add: b64_char_not_NUL [symmetric])
next
  case (4 al a b c s)
  then show ?case
    using b64_quantum_bounds [of "ord a" "ord b" "ord c"] by (simp add: b64_char_not_NUL [symmetric])
qed simp_all

lemma RawURLEncode_no_NUL: "NUL \<notin> set (RawURLEncode b)"
  by (simp add: RawURLEncode_def b64_encode_no_NUL)

lemma pid_of_no_NUL: "NUL \<notin> set (pid_of C pol)"
  by (simp add: pid_of_def PolicyID_def RawURLEncode_no_NUL split: option.split)


lemma toy_key_nonempty: "toy_key c \<noteq> []"
  by (simp add: toy_key_def)

lemma empty_export:
  "\<exists>ex res. Export_Build toy_crypto (toy_signer ''org'' CHR ''o'') [] NewCredentialSet None = Inr ex \<and>
     x_Entries ex = [] \<and> x_Version ex = Version \<and> x_Signer ex = ''org'' \<and>
     x_EnvelopeSignature ex = toy_key CHR ''o'' @ envelopeSigningInput Version ''org'' [] 0 (logTip []) \<and>
     Export_Verify toy_crypto id ex toy_inputs = Inr res \<and> Result_Pass res"
  by (auto simp: Export_Build_def toy_signer_def pid_of_def Export_Verify_def toy_inputs_def
      verifyEnvelope_def IsV1_def Version_def ExportVersion_def Result_Pass_def entry_results_def
      VerifyEntries_def sample_keys_def toy_key_nonempty Let_def)


end
