(* ===== verification/Wal.thy ===== *)
theory Wal
  imports Evidence
begin

text \<open>
  \<^verbatim>\<open>internal/enforce/wal.go\<close>: the write-ahead audit log.  A record is one JSON line holding a
  sealed entry and the credentials first seen with it.  The state is the file's bytes, whether
  the handle is open, and the records read when it was opened; the disk's answer to a write
  (complete, torn after some bytes, or written but not synced) is an argument.  The parameter
  \<open>stream\<close> of \<open>readWAL\<close> is \<^verbatim>\<open>json.Decoder\<close> over the file: the values it yields one after the
  other, ending in \<open>Malformed\<close> if the text breaks off.  The locale \<open>journal\<close> is the contract of
  an append-only file of lines.
\<close>

section \<open>Append-only journals\<close>

locale journal =
  fixes put :: "'d \<Rightarrow> 'r \<Rightarrow> 's \<Rightarrow> bool \<times> 's"
    and bytes_of :: "'s \<Rightarrow> bytes"
    and line :: "'r \<Rightarrow> bytes"
  assumes put_ok: "put d r s = (True, s') \<Longrightarrow> bytes_of s' = bytes_of s @ line r"
    and put_torn: "put d r s = (False, s') \<Longrightarrow> \<exists>k. bytes_of s' = bytes_of s @ take k (line r)"
begin

fun put_list :: "('d \<times> 'r) list \<Rightarrow> 's \<Rightarrow> bool \<times> 's" where
  "put_list [] s = (True, s)"
| "put_list ((d, r) # ws) s =
     (case put d r s of (False, s') \<Rightarrow> (False, s') | (True, s') \<Rightarrow> put_list ws s')"

lemma put_prefix: "put d r s = (b, s') \<Longrightarrow> \<exists>k. bytes_of s' = bytes_of s @ take k (line r)"
proof (cases b)
  case True
  moreover assume "put d r s = (b, s')"
  ultimately have "bytes_of s' = bytes_of s @ take (length (line r)) (line r)" using put_ok by simp
  then show ?thesis by blast
qed (use put_torn in auto)

lemma put_list_ok:
  "put_list ws s = (True, s') \<Longrightarrow> bytes_of s' = bytes_of s @ concat (map (\<lambda>w. line (snd w)) ws)"
  by (induction ws s rule: put_list.induct) (auto dest: put_ok split: prod.splits bool.splits)

text \<open>Up to the first failure every line is whole; the failing one may be torn.\<close>

lemma put_list_prefix:
  "put_list ws s = (b, s') \<Longrightarrow> \<exists>k. bytes_of s' = bytes_of s @ take k (concat (map (\<lambda>w. line (snd w)) ws))"
proof (induction ws arbitrary: s)
  case (Cons w ws)
  obtain d r where w': "w = (d, r)" by (cases w)
  obtain ok t where w: "put d r s = (ok, t)" by (cases "put d r s")
  show ?case
  proof (cases ok)
    case True
    with w w' Cons.prems Cons.IH [of t] have "\<exists>k. bytes_of s' = bytes_of t @ take k (concat (map (\<lambda>w. line (snd w)) ws))" by simp
    then obtain k where "bytes_of s' = bytes_of t @ take k (concat (map (\<lambda>w. line (snd w)) ws))" ..
    with True w w' put_ok [of d r s t] show ?thesis
      by (intro exI [of _ "length (line r) + k"]) simp
  next
    case False
    with w w' Cons.prems have "t = s'" by simp
    moreover obtain k where "bytes_of t = bytes_of s @ take k (line r)" using put_prefix [OF w] by blast
    ultimately show ?thesis using w' by (intro exI [of _ "min k (length (line r))"]) (simp add: min_def)
  qed
qed (auto intro: exI [of _ 0])

end

section \<open>Records\<close>

record walRecord =
  wr_Entry :: Entry
  wr_Credentials :: "CredentialRecord list"

record WAL =
  w_open :: bool
  w_file :: bytes
  w_recovered :: "walRecord list"

datatype wal_err =
    WalRead
  | WalParse nat
  | WalOpen
  | WalClosed
  | WalMarshal u64
  | WalWrite u64
  | WalSync u64

datatype disk = DiskOk | WriteFails nat | SyncFails

datatype decoded = Decoded walRecord | Malformed

datatype file_read = FileAbsent | FileError | FileData bytes

definition credential_record_json :: "CredentialRecord \<Rightarrow> json" where
  "credential_record_json r =
     JObj [(''credentialID'', JStr (rc_CredentialID r)), (''credential'', credential_json (rc_Credential r)),
           (''issuerProof'', JBytes (rc_IssuerProof r))]"

definition wal_json :: "walRecord \<Rightarrow> json" where
  "wal_json r =
     JObj ([(''entry'', entry_json (wr_Entry r))] @
           omitempty ''credentials'' (wr_Credentials r = []) (JList credential_record_json (wr_Credentials r)))"

definition wal_marshals :: "walRecord \<Rightarrow> bool" where
  "wal_marshals r \<longleftrightarrow>
     entry_marshals (wr_Entry r) \<and> list_all (\<lambda>c. credential_marshals (rc_Credential c)) (wr_Credentials r)"

definition newline :: char where "newline = char_of (10 :: nat)"

definition wal_line :: "walRecord \<Rightarrow> bytes" where
  "wal_line r = json_enc (wal_json r) @ [newline]"

section \<open>Operations\<close>

fun readWAL_loop :: "walRecord list \<Rightarrow> decoded list \<Rightarrow> wal_err + walRecord list" where
  "readWAL_loop out [] = Inr out"
| "readWAL_loop out (Malformed # ds) = Inl (WalParse (length out))"
| "readWAL_loop out (Decoded r # ds) = readWAL_loop (out @ [r]) ds"

definition readWAL :: "(bytes \<Rightarrow> decoded list) \<Rightarrow> file_read \<Rightarrow> wal_err + walRecord list" where
  "readWAL stream f =
     (case f of
        FileAbsent \<Rightarrow> Inr []
      | FileError \<Rightarrow> Inl WalRead
      | FileData d \<Rightarrow> readWAL_loop [] (stream d))"

text \<open>\<open>opens\<close> says whether \<^verbatim>\<open>os.OpenFile\<close> succeeds.\<close>

definition OpenWAL :: "(bytes \<Rightarrow> decoded list) \<Rightarrow> file_read \<Rightarrow> bool \<Rightarrow> wal_err + WAL" where
  "OpenWAL stream f opens =
     (case readWAL stream f of
        Inl e \<Rightarrow> Inl e
      | Inr rs \<Rightarrow>
          if \<not> opens then Inl WalOpen
          else Inr \<lparr>w_open = True, w_file = (case f of FileData d \<Rightarrow> d | _ \<Rightarrow> []), w_recovered = rs\<rparr>)"

definition Recovered :: "WAL \<Rightarrow> walRecord list" where
  "Recovered w = w_recovered w"

definition WAL_Append :: "disk \<Rightarrow> Entry \<Rightarrow> CredentialRecord list \<Rightarrow> WAL \<Rightarrow> (wal_err + unit) \<times> WAL" where
  "WAL_Append d e creds w =
     (let r = \<lparr>wr_Entry = e, wr_Credentials = creds\<rparr> in
      if \<not> w_open w then (Inl WalClosed, w)
      else if \<not> wal_marshals r then (Inl (WalMarshal (e_Seq e)), w)
      else case d of
          WriteFails n \<Rightarrow> (Inl (WalWrite (e_Seq e)), w\<lparr>w_file := w_file w @ take n (wal_line r)\<rparr>)
        | SyncFails \<Rightarrow> (Inl (WalSync (e_Seq e)), w\<lparr>w_file := w_file w @ wal_line r\<rparr>)
        | DiskOk \<Rightarrow> (Inr (), w\<lparr>w_file := w_file w @ wal_line r\<rparr>))"

text \<open>\<open>closes\<close> says whether closing the descriptor succeeds; the handle is dropped either way.\<close>

definition WAL_Close :: "bool \<Rightarrow> WAL \<Rightarrow> bool \<times> WAL" where
  "WAL_Close closes w = (if \<not> w_open w then (True, w) else (closes, w\<lparr>w_open := False\<rparr>))"

section \<open>The log is a journal\<close>

definition wal_write :: "disk \<Rightarrow> walRecord \<Rightarrow> WAL \<Rightarrow> bool \<times> WAL" where
  "wal_write d r w = map_prod is_ok id (WAL_Append d (wr_Entry r) (wr_Credentials r) w)"

lemma WAL_Append_cases:
  assumes "WAL_Append d e creds w = (res, w')"
  obtains (ok) "res = Inr ()" "d = DiskOk" "w_open w" "wal_marshals \<lparr>wr_Entry = e, wr_Credentials = creds\<rparr>"
      "w' = w\<lparr>w_file := w_file w @ wal_line \<lparr>wr_Entry = e, wr_Credentials = creds\<rparr>\<rparr>"
    | (refused) err where "res = Inl err" "w' = w"
    | (torn) err n where "res = Inl err" "d = WriteFails n" "w_open w"
      "w' = w\<lparr>w_file := w_file w @ take n (wal_line \<lparr>wr_Entry = e, wr_Credentials = creds\<rparr>)\<rparr>"
    | (unsynced) err where "res = Inl err" "d = SyncFails" "w_open w"
      "w' = w\<lparr>w_file := w_file w @ wal_line \<lparr>wr_Entry = e, wr_Credentials = creds\<rparr>\<rparr>"
  using assms by (auto simp: WAL_Append_def Let_def split: if_splits disk.splits)

lemma walRecord_eta [simp]: "\<lparr>wr_Entry = wr_Entry r, wr_Credentials = wr_Credentials r\<rparr> = (r :: walRecord)"
  by simp

interpretation wal: journal wal_write w_file wal_line
proof
  fix d r s s'
  show "wal_write d r s = (True, s') \<Longrightarrow> w_file s' = w_file s @ wal_line r"
    by (cases "WAL_Append d (wr_Entry r) (wr_Credentials r) s") (auto simp: wal_write_def elim!: WAL_Append_cases)
  assume "wal_write d r s = (False, s')"
  then obtain res where w: "WAL_Append d (wr_Entry r) (wr_Credentials r) s = (res, s')" "\<not> is_ok res"
    by (cases "WAL_Append d (wr_Entry r) (wr_Credentials r) s") (auto simp: wal_write_def)
  from w show "\<exists>k. w_file s' = w_file s @ take k (wal_line r)"
  proof (cases rule: WAL_Append_cases [OF w(1)])
    case (2 err)
    then show ?thesis by (intro exI [of _ 0]) simp
  next
    case (3 err n)
    then show ?thesis by (intro exI [of _ n]) simp
  next
    case (4 err)
    then show ?thesis by (intro exI [of _ "length (wal_line r)"]) simp
  qed simp
qed

lemma readWAL_loop_values: "readWAL_loop out (map Decoded rs) = Inr (out @ rs)"
  by (induction rs arbitrary: out) auto

lemma readWAL_loop_ok: "readWAL_loop out ds = Inr rs \<longleftrightarrow> (\<exists>rs'. ds = map Decoded rs' \<and> rs = out @ rs')"
proof (induction out ds rule: readWAL_loop.induct)
  case (3 out r ds)
  then show ?case by (auto simp: Cons_eq_map_conv)
qed auto

text \<open>The decoder reads back the lines of these records, one value each.\<close>

definition decodes_lines :: "(bytes \<Rightarrow> decoded list) \<Rightarrow> walRecord list \<Rightarrow> bool" where
  "decodes_lines stream rs \<longleftrightarrow> stream (concat (map wal_line rs)) = map Decoded rs"

lemma OpenWAL_lines:
  "decodes_lines stream rs \<Longrightarrow>
     OpenWAL stream (FileData (concat (map wal_line rs))) True =
       Inr \<lparr>w_open = True, w_file = concat (map wal_line rs), w_recovered = rs\<rparr>"
  by (simp add: OpenWAL_def readWAL_def decodes_lines_def readWAL_loop_values)

end
