(* ===== verification/Enforce.thy ===== *)
theory Enforce
  imports Verifier Wal
begin

text \<open>
  \<^verbatim>\<open>internal/enforce/enforce.go\<close>: the enforcement chokepoint.  A request is refused outright
  when it is malformed or cannot be attributed (chain or possession does not verify), and
  otherwise decided, sealed, made durable, committed and forwarded, in that order, within one
  critical section.  Every operation is state passing over the record \<open>Proxy\<close>, whose mutex
  makes \<open>decideAndAppend\<close> one step.  Arguments stand for the environment of one call: \<open>now\<close> the
  clock, \<open>d\<close> the disk's answer to the durable write.  The record \<open>wording\<close> holds the texts of
  errors that other packages produce and that end up in a recorded reason.  The sink's
  goroutines are the lists of records in flight, one per slot held.
\<close>

section \<open>State\<close>

datatype eval_outcome = Evaluated Decision | EvalFailed Decision string | EvalPanicked

datatype Evaluator = Shipped Policy | Plugged "Action \<Rightarrow> eval_outcome"

record wording =
  say_macaroon :: "macaroon_err \<Rightarrow> string"
  say_hop :: "hop_err \<Rightarrow> string"
  say_did :: "did_err \<Rightarrow> string"
  say_audit :: "audit_err \<Rightarrow> string"
  say_chain :: "chain_err \<Rightarrow> string"
  say_credential :: "credential_err \<Rightarrow> string"

record AuditRecord =
  ar_Seq :: u64
  ar_Timestamp :: gotime
  ar_Actor :: string
  ar_ActionType :: string
  ar_ActionTarget :: string
  ar_Allowed :: bool
  ar_Consequential :: bool
  ar_Reason :: string
  ar_EntryHash :: bytes
  ar_Outcome :: string

definition OutcomeRecorded :: string where "OutcomeRecorded = ''recorded''"
definition OutcomeUnattributable :: string where "OutcomeUnattributable = ''unattributable''"

record Proxy =
  p_enforcementPoint :: Signer
  p_policy :: Evaluator
  p_carriedPolicy :: "Policy option"
  p_policyID :: string
  p_dids :: Resolver
  p_status :: "StatusResolver option"
  p_log :: Log
  p_set :: CredentialSet
  p_sink :: bool
  p_sinkSlots :: "AuditRecord list"
  p_unattrSlots :: "AuditRecord list"
  p_wal :: "WAL option"

record Config =
  cf_EnforcementPoint :: "Signer option"
  cf_Policy :: "Evaluator option"
  cf_DIDs :: "Resolver option"
  cf_Status :: "StatusResolver option"
  cf_Sink :: bool
  cf_WAL :: "WAL option"

record Request =
  rq_Chain :: "Chain option"
  rq_Action :: Action
  rq_PoP :: PoP
  rq_Approver :: DID
  rq_Approval :: bytes

datatype attribution_err = ChainErr chain_err | PossessionErr credential_err

record UnattributableError =
  ue_Stage :: string
  ue_Claim :: DID
  ue_Action :: Action
  ue_Seq :: u64
  ue_Err :: attribution_err

datatype handle_err =
    NoDelegationChain
  | NonceTooLong nat
  | SignatureTooLong nat
  | ApprovalTooLong nat
  | Unattributable UnattributableError
  | HopEvidence nat export_err
  | SealFailed audit_err
  | DurableWriteFailed wal_err
  | CommitFailed audit_err
  | RecordEvidence export_err

datatype proxy_err =
    SignerRequired
  | PolicyRequired
  | ResolverRequired
  | RecoverLog audit_err
  | PolicyChanged nat string string
  | RecoverEvidence export_err

definition maxPoPNonceBytes :: nat where "maxPoPNonceBytes = 128"
definition maxSignatureBytes :: nat where "maxSignatureBytes = 512"
definition sinkMaxInFlight :: nat where "sinkMaxInFlight = 64"

section \<open>Construction and recovery\<close>

fun add_records :: "crypto \<Rightarrow> CredentialRecord list \<Rightarrow> CredentialSet \<Rightarrow> (export_err + unit) \<times> CredentialSet" where
  "add_records C [] s = (Inr (), s)"
| "add_records C (r # rs) s =
     (case CredentialSet_Add C (rc_Credential r) (rc_IssuerProof r) s of
        Inl e \<Rightarrow> (Inl e, s)
      | Inr (_, s') \<Rightarrow> add_records C rs s')"

fun policy_changed :: "string \<Rightarrow> nat \<Rightarrow> Entry list \<Rightarrow> (nat \<times> string) option" where
  "policy_changed pid i [] = None"
| "policy_changed pid i (e # es) =
     (if e_PolicyID e \<noteq> [] \<and> e_PolicyID e \<noteq> pid then Some (i, e_PolicyID e)
      else policy_changed pid (Suc i) es)"

definition recoverFrom :: "crypto \<Rightarrow> WAL \<Rightarrow> Proxy \<Rightarrow> proxy_err + Proxy" where
  "recoverFrom C w p =
     (let recs = Recovered w; es = map wr_Entry recs in
      if recs = [] then Inr p
      else case LoadLog C (p_enforcementPoint p) es of
          Inl e \<Rightarrow> Inl (RecoverLog e)
        | Inr l \<Rightarrow>
            (case policy_changed (p_policyID p) 0 es of
               Some (i, pid) \<Rightarrow> Inl (PolicyChanged i pid (p_policyID p))
             | None \<Rightarrow>
                 (case add_records C (concat (map wr_Credentials recs)) (p_set p) of
                    (Inl e, _) \<Rightarrow> Inl (RecoverEvidence e)
                  | (Inr _, s) \<Rightarrow> Inr (p\<lparr>p_log := l, p_set := s\<rparr>))))"

definition fresh_proxy :: "crypto \<Rightarrow> Signer \<Rightarrow> Evaluator \<Rightarrow> Resolver \<Rightarrow> Config \<Rightarrow> Proxy" where
  "fresh_proxy C ep pol dids c =
     \<lparr>p_enforcementPoint = ep, p_policy = pol,
      p_carriedPolicy = (case pol of Shipped p \<Rightarrow> Some p | Plugged _ \<Rightarrow> None),
      p_policyID = (case pol of Shipped p \<Rightarrow> PolicyID C p | Plugged _ \<Rightarrow> []),
      p_dids = dids, p_status = cf_Status c, p_log = NewLog ep, p_set = NewCredentialSet,
      p_sink = cf_Sink c, p_sinkSlots = [], p_unattrSlots = [], p_wal = cf_WAL c\<rparr>"

definition NewProxy :: "crypto \<Rightarrow> Config \<Rightarrow> proxy_err + Proxy" where
  "NewProxy C c =
     (case cf_EnforcementPoint c of
        None \<Rightarrow> Inl SignerRequired
      | Some ep \<Rightarrow>
          (case cf_Policy c of
             None \<Rightarrow> Inl PolicyRequired
           | Some pol \<Rightarrow>
               (case cf_DIDs c of
                  None \<Rightarrow> Inl ResolverRequired
                | Some dids \<Rightarrow>
                    (case cf_WAL c of
                       None \<Rightarrow> Inr (fresh_proxy C ep pol dids c)
                     | Some w \<Rightarrow> recoverFrom C w (fresh_proxy C ep pol dids c)))))"

section \<open>Forwarding to the sink\<close>

definition auditRecord :: "Entry \<Rightarrow> AuditRecord" where
  "auditRecord e =
     \<lparr>ar_Seq = e_Seq e, ar_Timestamp = e_Timestamp e,
      ar_Actor = (let n = length (e_ResolvedChain e) in if n > 0 then e_ResolvedChain e ! (n - 1) else []),
      ar_ActionType = a_Type (e_Action e), ar_ActionTarget = a_Target (e_Action e),
      ar_Allowed = d_Allowed (e_Decision e), ar_Consequential = d_Consequential (e_Decision e),
      ar_Reason = d_Reason (e_Decision e), ar_EntryHash = e_EntryHash e, ar_Outcome = []\<rparr>"

definition forward :: "Entry \<Rightarrow> Proxy \<Rightarrow> Proxy" where
  "forward e p =
     (if \<not> p_sink p then p
      else if length (p_sinkSlots p) < sinkMaxInFlight
      then p\<lparr>p_sinkSlots := p_sinkSlots p @ [auditRecord e]\<rparr>
      else p)"

definition attribution_text :: "wording \<Rightarrow> attribution_err \<Rightarrow> string" where
  "attribution_text T e = (case e of ChainErr c \<Rightarrow> say_chain T c | PossessionErr c \<Rightarrow> say_credential T c)"

definition UnattributableError_Error :: "wording \<Rightarrow> UnattributableError \<Rightarrow> string" where
  "UnattributableError_Error T e =
     (if ue_Stage e = ''possession'' then
        ''proxy: unattributable request: proof of possession did not verify at seq '' @
        show_nat (unat (ue_Seq e)) @
        '' (if it was bound to an earlier tip, re-read the tip and retry): '' @ attribution_text T (ue_Err e)
      else ''proxy: unattributable request ('' @ ue_Stage e @ ''): '' @ attribution_text T (ue_Err e))"

definition forwardUnattributable :: "wording \<Rightarrow> gotime \<Rightarrow> UnattributableError \<Rightarrow> Proxy \<Rightarrow> Proxy" where
  "forwardUnattributable T now e p =
     (if \<not> p_sink p then p
      else let rec = \<lparr>ar_Seq = 0, ar_Timestamp = UTC now, ar_Actor = ue_Claim e,
                      ar_ActionType = a_Type (ue_Action e), ar_ActionTarget = a_Target (ue_Action e),
                      ar_Allowed = False, ar_Consequential = False,
                      ar_Reason = UnattributableError_Error T e, ar_EntryHash = [],
                      ar_Outcome = OutcomeUnattributable\<rparr>
           in if length (p_unattrSlots p) < sinkMaxInFlight
              then p\<lparr>p_unattrSlots := p_unattrSlots p @ [rec]\<rparr>
              else p)"

text \<open>A goroutine that finishes, normally or by a recovered panic, gives its slot back.\<close>

definition sink_done :: "nat \<Rightarrow> Proxy \<Rightarrow> Proxy" where
  "sink_done i p = p\<lparr>p_sinkSlots := take i (p_sinkSlots p) @ drop (Suc i) (p_sinkSlots p)\<rparr>"

definition unattr_done :: "nat \<Rightarrow> Proxy \<Rightarrow> Proxy" where
  "unattr_done i p = p\<lparr>p_unattrSlots := take i (p_unattrSlots p) @ drop (Suc i) (p_unattrSlots p)\<rparr>"

text \<open>
  \<^verbatim>\<open>FlushSink\<close>, run against what the scheduler does next: a slot is acquired, a write ends, or
  the deadline fires.  \<open>None\<close> means it is still waiting when the events run out.
\<close>

datatype flush_event = Acquire | WriteDone nat | Deadline

fun flush_loop :: "nat \<Rightarrow> flush_event list \<Rightarrow> Proxy \<Rightarrow> (bool \<times> Proxy) option" where
  "flush_loop held evs p =
     (if held \<ge> sinkMaxInFlight then Some (True, p)
      else case evs of
          [] \<Rightarrow> None
        | Deadline # _ \<Rightarrow> Some (False, p)
        | WriteDone i # es \<Rightarrow> flush_loop held es (sink_done i p)
        | Acquire # es \<Rightarrow>
            if held + length (p_sinkSlots p) < sinkMaxInFlight then flush_loop (Suc held) es p
            else flush_loop held es p)"

declare flush_loop.simps [simp del]

definition FlushSink :: "flush_event list \<Rightarrow> Proxy \<Rightarrow> (bool \<times> Proxy) option" where
  "FlushSink evs p = (if \<not> p_sink p then Some (True, p) else flush_loop 0 evs p)"

section \<open>The decision\<close>

definition deny :: "Decision \<Rightarrow> string \<Rightarrow> Decision" where
  "deny dec reason = dec\<lparr>d_Allowed := False, d_Reason := reason\<rparr>"

definition zero_Decision :: Decision where
  "zero_Decision =
     \<lparr>d_Allowed = False, d_Consequential = False, d_RuleFired = [], d_PolicyVersion = [],
      d_StatusCheckedHops = 0, d_Reason = []\<rparr>"

definition evaluate :: "(string \<Rightarrow> string) \<Rightarrow> Proxy \<Rightarrow> Action \<Rightarrow> (Decision \<times> string) + Decision" where
  "evaluate q p a =
     (case (case p_policy p of Shipped pol \<Rightarrow> Evaluated (Policy_Evaluate q pol a) | Plugged f \<Rightarrow> f a) of
        Evaluated d \<Rightarrow> Inr d
      | EvalFailed d msg \<Rightarrow> Inl (d, msg)
      | EvalPanicked \<Rightarrow> Inl (zero_Decision, ''the policy evaluator panicked''))"

text \<open>
  The sweep over the hops: an error with the hops checked so far, or the revoked hop if any
  with the count.
\<close>

fun sweep ::
  "crypto \<Rightarrow> Resolver \<Rightarrow> StatusResolver \<Rightarrow> nat \<Rightarrow> nat \<Rightarrow> Link list \<Rightarrow> (nat \<times> hop_err) + string option \<times> nat" where
  "sweep C dids resolve i checked [] = Inr (None, checked)"
| "sweep C dids resolve i checked (lk # lks) =
     (let c = lk_Credential lk; ref = cr_StatusRef c in
      if ref_ListURL ref = [] then sweep C dids resolve (Suc i) checked lks
      else case resolve (ref_ListURL ref) of
          None \<Rightarrow> Inl (checked, StatusUnresolved (ref_ListURL ref))
        | Some l \<Rightarrow>
            (case ResolveKey C dids (StatusAuthority c) of
               Inl e \<Rightarrow> Inl (checked, AuthorityUnresolved (StatusAuthority c) e)
             | Inr key \<Rightarrow>
                 (case Status_Verify C l (StatusAuthority c) key of
                    Inl e \<Rightarrow> Inl (checked, ListInvalid e)
                  | Inr _ \<Rightarrow>
                      (case Status_Lookup l (ref_Index ref) of
                         Inl e \<Rightarrow> Inl (checked, LookupFailed e)
                       | Inr revoked \<Rightarrow>
                           if revoked then
                             Inr (Some (''hop '' @ show_nat i @ '' ('' @ cr_Issuer c @ '' -> '' @
                                        cr_Subject c @ '') at index '' @ show_int (ref_Index ref)),
                                  Suc checked)
                           else sweep C dids resolve (Suc i) (Suc checked) lks))))"

definition anyHopRevoked ::
  "crypto \<Rightarrow> Proxy \<Rightarrow> StatusResolver \<Rightarrow> Chain \<Rightarrow> (nat \<times> hop_err) + string option \<times> nat" where
  "anyHopRevoked C p resolve ch = sweep C (p_dids p) resolve 0 0 (Links ch)"

text \<open>\<open>qs\<close> is the \<^verbatim>\<open>%q\<close> quoting of the approver's DID.\<close>

definition proxy_verifyApproval ::
  "crypto \<Rightarrow> (string \<Rightarrow> string) \<Rightarrow> wording \<Rightarrow> Proxy \<Rightarrow> Request \<Rightarrow> DID \<Rightarrow> u64 \<Rightarrow> bytes \<Rightarrow> string + unit" where
  "proxy_verifyApproval C q T p req actor seq prevHash =
     (if rq_Approver req = [] \<or> rq_Approval req = []
      then Inl ''consequential action requires human approval, none presented''
      else case ResolveKey C (p_dids p) (rq_Approver req) of
          Inl e \<Rightarrow> Inl (''resolve approver '' @ q (rq_Approver req) @ '': '' @ say_did T e)
        | Inr key \<Rightarrow>
            map_err (say_audit T)
              (VerifyApproval C key actor (rq_Action req) seq prevHash (rq_Approval req)))"

definition decide ::
  "crypto \<Rightarrow> (string \<Rightarrow> string) \<Rightarrow> wording \<Rightarrow> Proxy \<Rightarrow> Request \<Rightarrow> Chain \<Rightarrow> Credential \<Rightarrow> u64 \<Rightarrow> bytes \<Rightarrow> Decision" where
  "decide C q T p req ch terminal seq prevHash =
     (let allow = (\<lambda>d. d\<lparr>d_Allowed := True,
                        d_Reason := (if d_Reason d = [] then ''within delegated authority'' else d_Reason d)\<rparr>)
      in case evaluate q p (rq_Action req) of
           Inl (d, msg) \<Rightarrow> deny d (''policy evaluation failed: '' @ msg)
         | Inr dec \<Rightarrow>
             if \<not> d_Allowed dec then dec
             else (case Macaroon_Satisfies (cr_Macaroon terminal)
                          (Context (rq_Action req) ++ HolderContext terminal) of
                 Inl e \<Rightarrow> deny dec (''action exceeds delegated authority: '' @ say_macaroon T e)
               | Inr _ \<Rightarrow>
                   if \<not> d_Consequential dec then allow dec
                   else (case p_status p of
                       None \<Rightarrow> deny dec
                         ''consequential action requires a status check, but no status source is configured''
                     | Some resolve \<Rightarrow>
                         (case anyHopRevoked C p resolve ch of
                            Inl (_, e) \<Rightarrow> deny dec (''status check failed: '' @ say_hop T e)
                          | Inr (revoked, checked) \<Rightarrow>
                              let dec' = dec\<lparr>d_StatusCheckedHops := checked\<rparr> in
                              (case revoked of
                                 Some where_ \<Rightarrow> deny dec' (''credential revoked: '' @ where_)
                               | None \<Rightarrow>
                                   (case proxy_verifyApproval C q T p req (cr_Subject terminal) seq prevHash of
                                      Inl msg \<Rightarrow> deny dec' msg
                                    | Inr _ \<Rightarrow> allow dec'))))))"

section \<open>Handling a request\<close>

definition checkEvidenceSize :: "Request \<Rightarrow> handle_err + unit" where
  "checkEvidenceSize req =
     (if length (pop_Nonce (rq_PoP req)) > maxPoPNonceBytes
      then Inl (NonceTooLong (length (pop_Nonce (rq_PoP req))))
      else if length (pop_Signature (rq_PoP req)) > maxSignatureBytes
      then Inl (SignatureTooLong (length (pop_Signature (rq_PoP req))))
      else if length (rq_Approval req) > maxSignatureBytes
      then Inl (ApprovalTooLong (length (rq_Approval req)))
      else Inr ())"

fun evidence_loop ::
  "crypto \<Rightarrow> CredentialSet \<Rightarrow> nat \<Rightarrow> string set \<Rightarrow> Link list \<Rightarrow> handle_err + CredentialRecord list \<times> string list" where
  "evidence_loop C s i seen [] = Inr ([], [])"
| "evidence_loop C s i seen (lk # lks) =
     (case CredentialID C (lk_Credential lk) of
        Inl e \<Rightarrow> Inl (HopEvidence i e)
      | Inr k \<Rightarrow>
          let fresh = (\<not> CredentialSet_Has s k \<and> k \<notin> seen) in
          (case evidence_loop C s (Suc i) (if fresh then insert k seen else seen) lks of
             Inl e \<Rightarrow> Inl e
           | Inr (newCreds, ids) \<Rightarrow>
               Inr ((if fresh
                     then \<lparr>rc_CredentialID = k, rc_Credential = lk_Credential lk,
                           rc_IssuerProof = lk_IssuerProof lk\<rparr> # newCreds
                     else newCreds), k # ids)))"

definition evidenceFor ::
  "crypto \<Rightarrow> Proxy \<Rightarrow> Chain \<Rightarrow> handle_err + CredentialRecord list \<times> string list" where
  "evidenceFor C p ch = evidence_loop C (p_set p) 0 {} (Links ch)"

definition request_draft :: "Proxy \<Rightarrow> gotime \<Rightarrow> Request \<Rightarrow> Chain \<Rightarrow> string list \<Rightarrow> Decision \<Rightarrow> EntryDraft" where
  "request_draft p now req ch ids dec =
     \<lparr>dr_Action = rq_Action req, dr_ResolvedChain = Principals ch, dr_ChainCredentialIDs = ids,
      dr_Decision = dec, dr_PolicyID = p_policyID p,
      dr_PoPNonce = pop_Nonce (rq_PoP req), dr_PoPSignature = pop_Signature (rq_PoP req),
      dr_ApprovedBy = (if rq_Approval req \<noteq> [] then rq_Approver req else []),
      dr_Approval = rq_Approval req, dr_Timestamp = UTC now\<rparr>"

text \<open>Steps 2 and 3 of log-before-act: durable write, then commit of the entry and its evidence.\<close>

definition persist_commit ::
  "crypto \<Rightarrow> disk \<Rightarrow> Entry \<Rightarrow> CredentialRecord list \<Rightarrow> Proxy \<Rightarrow> (handle_err + unit) \<times> Proxy" where
  "persist_commit C d e newCreds p =
     (let (written, p1) =
        (case p_wal p of
           None \<Rightarrow> (Inr (), p)
         | Some w \<Rightarrow> (case WAL_Append d e newCreds w of (r, w') \<Rightarrow> (r, p\<lparr>p_wal := Some w'\<rparr>)))
      in case written of
           Inl err \<Rightarrow> (Inl (DurableWriteFailed err), p1)
         | Inr _ \<Rightarrow>
             (case Commit (p_log p1) e of
                Inl err \<Rightarrow> (Inl (CommitFailed err), p1)
              | Inr l \<Rightarrow>
                  let p2 = p1\<lparr>p_log := l\<rparr> in
                  (case add_records C newCreds (p_set p2) of
                     (Inl err, s) \<Rightarrow> (Inl (RecordEvidence err), p2\<lparr>p_set := s\<rparr>)
                   | (Inr _, s) \<Rightarrow> (Inr (), p2\<lparr>p_set := s\<rparr>))))"

definition decideAndAppend ::
  "crypto \<Rightarrow> (string \<Rightarrow> string) \<Rightarrow> wording \<Rightarrow> gotime \<Rightarrow> disk \<Rightarrow> Request \<Rightarrow> Chain \<Rightarrow> Proxy \<Rightarrow>
   (handle_err + Entry \<times> Decision) \<times> Proxy" where
  "decideAndAppend C q T now d req ch p =
     (case evidenceFor C p ch of
        Inl e \<Rightarrow> (Inl e, p)
      | Inr (newCreds, ids) \<Rightarrow>
          let terminal = lk_Credential (last (Links ch)); (seq, prevHash) = Tip (p_log p) in
          (case VerifyPossession C terminal (rq_PoP req) (rq_Action req) seq prevHash of
             Inl e \<Rightarrow>
               (Inl (Unattributable \<lparr>ue_Stage = ''possession'', ue_Claim = cr_Subject terminal,
                       ue_Action = rq_Action req, ue_Seq = seq, ue_Err = PossessionErr e\<rparr>), p)
           | Inr _ \<Rightarrow>
               let dec = decide C q T p req ch terminal seq prevHash in
               (case Seal C (p_log p) (request_draft p now req ch ids dec) of
                  Inl e \<Rightarrow> (Inl (SealFailed e), p)
                | Inr entry \<Rightarrow>
                    (case persist_commit C d entry newCreds p of
                       (Inl e, p') \<Rightarrow> (Inl e, p')
                     | (Inr _, p') \<Rightarrow> (Inr (entry, dec), p')))))"

definition Handle ::
  "crypto \<Rightarrow> (string \<Rightarrow> string) \<Rightarrow> wording \<Rightarrow> gotime \<Rightarrow> disk \<Rightarrow> Request \<Rightarrow> Proxy \<Rightarrow>
   (handle_err + Decision \<times> Entry) \<times> Proxy" where
  "Handle C q T now d req p =
     (case rq_Chain req of
        None \<Rightarrow> (Inl NoDelegationChain, p)
      | Some ch \<Rightarrow>
          if Links ch = [] then (Inl NoDelegationChain, p)
          else (case checkEvidenceSize req of
              Inl e \<Rightarrow> (Inl e, p)
            | Inr _ \<Rightarrow>
                (case Chain_Verify C (p_dids p) ch of
                   Inl err \<Rightarrow>
                     let e = \<lparr>ue_Stage = ''chain'', ue_Claim = Chain_Actor ch,
                              ue_Action = rq_Action req, ue_Seq = 0, ue_Err = ChainErr err\<rparr>
                     in (Inl (Unattributable e), forwardUnattributable T now e p)
                 | Inr _ \<Rightarrow>
                     (case decideAndAppend C q T now d req ch p of
                        (Inl (Unattributable e), p') \<Rightarrow>
                          (Inl (Unattributable e), forwardUnattributable T now e p')
                      | (Inl e, p') \<Rightarrow> (Inl e, p')
                      | (Inr (entry, dec), p') \<Rightarrow> (Inr (dec, entry), forward entry p')))))"

definition Proxy_Export :: "crypto \<Rightarrow> Proxy \<Rightarrow> export_err + Export" where
  "Proxy_Export C p =
     Export_Build C (p_enforcementPoint p) (Entries (p_log p)) (p_set p) (p_carriedPolicy p)"

definition Proxy_Entries :: "Proxy \<Rightarrow> Entry list" where
  "Proxy_Entries p = Entries (p_log p)"

definition Proxy_Tip :: "Proxy \<Rightarrow> u64 \<times> bytes" where
  "Proxy_Tip p = Tip (p_log p)"

end
