(* ===== verification/Proxy_Correct.thy ===== *)
theory Proxy_Correct
  imports Enforce "HOL-Library.Sublist"
begin

text \<open>
  What the enforcement point of \<open>Enforce\<close> guarantees: an allow implies every check, a request
  changes the log by exactly one entry or not at all, the invariant of the log and the
  evidence set holds after any sequence of requests, a durable write precedes every answer,
  and recovery gives the same state back.
\<close>

section \<open>The decision\<close>

abbreviation proxy_inputs :: "Proxy \<Rightarrow> Inputs" where
  "proxy_inputs p \<equiv> \<lparr>in_DIDs = p_dids p, in_Status = p_status p\<rparr>"

lemma sweep_None:
  "sweep C dids resolve i k lks = Inr (None, n) \<longleftrightarrow>
     n = k + listed_hops lks \<and>
     list_all (\<lambda>lk. ref_ListURL (cr_StatusRef (lk_Credential lk)) \<noteq> [] \<longrightarrow>
        hop_unrevoked C \<lparr>in_DIDs = dids, in_Status = Some resolve\<rparr> (lk_Credential lk)) lks"
proof (induction lks arbitrary: i k)
  case Nil
  then show ?case by (auto simp: listed_hops_def)
next
  case (Cons lk lks)
  show ?case
    by (auto simp: Let_def Cons.IH listed_hops_def hop_unrevoked_def Inr_unit_iff
        split: option.splits sum.splits)
qed

lemma proxy_verifyApproval_ok:
  "is_ok (proxy_verifyApproval C q T p req actor seq ph) \<longleftrightarrow>
     rq_Approver req \<noteq> [] \<and> rq_Approval req \<noteq> [] \<and>
     (\<exists>key. ResolveKey C (p_dids p) (rq_Approver req) = Inr key \<and>
        VerifyApproval C key actor (rq_Action req) seq ph (rq_Approval req) = Inr ())"
  by (auto simp: proxy_verifyApproval_def Inr_unit_iff split: sum.splits)

definition status_clear :: "crypto \<Rightarrow> Proxy \<Rightarrow> Link list \<Rightarrow> bool" where
  "status_clear C p lks \<longleftrightarrow>
     p_status p \<noteq> None \<and>
     list_all (\<lambda>lk. ref_ListURL (cr_StatusRef (lk_Credential lk)) \<noteq> [] \<longrightarrow>
        hop_unrevoked C (proxy_inputs p) (lk_Credential lk)) lks"

lemma deny_fields [simp]:
  "d_Allowed (deny d r) = False" "d_Consequential (deny d r) = d_Consequential d"
  "d_RuleFired (deny d r) = d_RuleFired d" "d_PolicyVersion (deny d r) = d_PolicyVersion d"
  by (simp_all add: deny_def)

lemma anyHopRevoked_clear:
  assumes "p_status p = Some resolve"
  shows "anyHopRevoked C p resolve ch = Inr (None, n) \<longleftrightarrow>
    n = listed_hops (Links ch) \<and> status_clear C p (Links ch)"
  using assms by (simp add: anyHopRevoked_def sweep_None status_clear_def)

text \<open>The conditions under which \<open>decide\<close> allows, and what the decision then records.\<close>

definition allow_conditions ::
  "crypto \<Rightarrow> (string \<Rightarrow> string) \<Rightarrow> wording \<Rightarrow> Proxy \<Rightarrow> Request \<Rightarrow> Chain \<Rightarrow> Credential \<Rightarrow> u64 \<Rightarrow> bytes \<Rightarrow> Decision \<Rightarrow> bool" where
  "allow_conditions C q T p req ch c seq ph d \<longleftrightarrow>
     evaluate q p (rq_Action req) = Inr d \<and> d_Allowed d \<and>
     is_ok (Macaroon_Satisfies (cr_Macaroon c) (Context (rq_Action req) ++ HolderContext c)) \<and>
     (d_Consequential d \<longrightarrow> status_clear C p (Links ch) \<and>
        is_ok (proxy_verifyApproval C q T p req (cr_Subject c) seq ph))"

lemma decide_allows:
  assumes "allow_conditions C q T p req ch c seq ph d"
  shows "decide C q T p req ch c seq ph =
    d\<lparr>d_Allowed := True,
      d_StatusCheckedHops := (if d_Consequential d then listed_hops (Links ch) else d_StatusCheckedHops d),
      d_Reason := (if d_Reason d = [] then ''within delegated authority'' else d_Reason d)\<rparr>"
proof (cases "d_Consequential d")
  case True
  with assms obtain resolve where r: "p_status p = Some resolve"
    by (auto simp: allow_conditions_def status_clear_def)
  then have "anyHopRevoked C p resolve ch = Inr (None, listed_hops (Links ch))"
    using assms True by (simp add: anyHopRevoked_clear allow_conditions_def)
  with assms True r show ?thesis
    by (auto simp: allow_conditions_def decide_def Let_def split: sum.splits)
next
  case False
  with assms show ?thesis by (auto simp: allow_conditions_def decide_def split: sum.splits)
qed

lemma decide_denies:
  assumes "\<And>d. \<not> allow_conditions C q T p req ch c seq ph d"
  shows "\<not> d_Allowed (decide C q T p req ch c seq ph)"
proof (cases "evaluate q p (rq_Action req)")
  case (Inl dm)
  then show ?thesis by (cases dm) (simp add: decide_def)
next
  case (Inr d)
  note ev = this
  consider "\<not> d_Allowed d"
    | "\<not> is_ok (Macaroon_Satisfies (cr_Macaroon c) (Context (rq_Action req) ++ HolderContext c))"
    | (conseq) "d_Consequential d" "d_Allowed d"
      "is_ok (Macaroon_Satisfies (cr_Macaroon c) (Context (rq_Action req) ++ HolderContext c))"
      "\<not> (status_clear C p (Links ch) \<and> is_ok (proxy_verifyApproval C q T p req (cr_Subject c) seq ph))"
    using assms [of d] Inr by (auto simp: allow_conditions_def)
  then show ?thesis
  proof cases
    case conseq
    show ?thesis
    proof (cases "p_status p")
      case None
      with ev conseq show ?thesis by (auto simp: decide_def split: sum.splits)
    next
      case (Some resolve)
      show ?thesis
      proof (cases "\<exists>n. anyHopRevoked C p resolve ch = Inr (None, n)")
        case True
        then obtain n where n: "anyHopRevoked C p resolve ch = Inr (None, n)" by blast
        with anyHopRevoked_clear [OF Some] have "status_clear C p (Links ch)" by blast
        with conseq have "\<not> is_ok (proxy_verifyApproval C q T p req (cr_Subject c) seq ph)" by blast
        then obtain m where "proxy_verifyApproval C q T p req (cr_Subject c) seq ph = Inl m"
          by (cases "proxy_verifyApproval C q T p req (cr_Subject c) seq ph") auto
        with ev conseq Some n show ?thesis by (auto simp: decide_def Let_def split: sum.splits)
      next
        case False
        with ev conseq Some show ?thesis
          by (auto simp: decide_def Let_def split: sum.splits option.splits)
      qed
    qed
  qed (use ev in \<open>auto simp: decide_def split: sum.splits\<close>)
qed

lemma decide_allowed:
  "d_Allowed (decide C q T p req ch c seq ph) \<longleftrightarrow> (\<exists>d. allow_conditions C q T p req ch c seq ph d)"
  using decide_denies [of C q T p req ch c seq ph] by (auto simp: decide_allows)

section \<open>Evidence\<close>

lemma CredentialSet_Add_extends:
  assumes "CredentialSet_Add C c pf s = Inr (i, s')"
  shows "cs_records s \<subseteq>\<^sub>m cs_records s'"
    and "\<And>k r. cs_records s' k = Some r \<Longrightarrow> cs_records s k = Some r \<or>
      k = i \<and> r = \<lparr>rc_CredentialID = i, rc_Credential = c, rc_IssuerProof = pf\<rparr>"
    and "cs_records s' i \<noteq> None" and "CredentialID C c = Inr i"
  using assms by (auto simp: CredentialSet_Add_def map_le_def bind_Inr_iff split: if_splits)

text \<open>
  A batch of records whose addresses are right is added without error; afterwards each of
  them has a record under its address, nothing is lost, and everything new is from the batch.
\<close>

lemma add_records_ok:
  assumes "list_all (\<lambda>r. record_key C r = Some (rc_CredentialID r)) rs"
  shows "\<exists>s'. add_records C rs s = (Inr (), s') \<and> cs_records s \<subseteq>\<^sub>m cs_records s' \<and>
    (\<forall>r \<in> set rs. cs_records s' (rc_CredentialID r) \<noteq> None) \<and>
    (\<forall>k r. cs_records s' k = Some r \<longrightarrow> cs_records s k = Some r \<or> r \<in> set rs \<and> record_key C r = Some k)"
  using assms
proof (induction rs arbitrary: s)
  case Nil
  then show ?case by auto
next
  case (Cons r rs)
  from Cons.prems have k: "CredentialID C (rc_Credential r) = Inr (rc_CredentialID r)"
    by (auto simp: record_key_iff)
  then obtain s1 where s1: "CredentialSet_Add C (rc_Credential r) (rc_IssuerProof r) s = Inr (rc_CredentialID r, s1)"
    by (simp add: CredentialSet_Add_def)
  note ext = CredentialSet_Add_extends [OF s1]
  obtain s' where s': "add_records C rs s1 = (Inr (), s')" "cs_records s1 \<subseteq>\<^sub>m cs_records s'"
    "\<forall>r \<in> set rs. cs_records s' (rc_CredentialID r) \<noteq> None"
    "\<forall>k r. cs_records s' k = Some r \<longrightarrow> cs_records s1 k = Some r \<or> r \<in> set rs \<and> record_key C r = Some k"
    using Cons by force
  have eta: "\<lparr>rc_CredentialID = rc_CredentialID r, rc_Credential = rc_Credential r,
      rc_IssuerProof = rc_IssuerProof r\<rparr> = r" by simp
  have new: "cs_records s k = Some r' \<or> r' \<in> set (r # rs) \<and> record_key C r' = Some k"
    if "cs_records s' k = Some r'" for k r'
    using s'(4) that ext(2) [of k r'] Cons.prems unfolding eta by auto
  have "cs_records s' (rc_CredentialID r) \<noteq> None"
    using ext(3) s'(2) by (auto simp: map_le_def dom_def)
  with s' s1 new map_le_trans [OF ext(1) s'(2)] show ?case by auto
qed

lemma evidence_loop_ids:
  "evidence_loop C s i seen lks = Inr (news, ids) \<Longrightarrow>
     list_all2 (\<lambda>k lk. CredentialID C (lk_Credential lk) = Inr k \<and>
        (k \<in> seen \<or> CredentialSet_Has s k \<or> (\<exists>r \<in> set news. rc_CredentialID r = k))) ids lks \<and>
     list_all (\<lambda>r. record_key C r = Some (rc_CredentialID r) \<and>
        (\<exists>lk \<in> set lks. lk = \<lparr>lk_Credential = rc_Credential r, lk_IssuerProof = rc_IssuerProof r\<rparr>)) news"
proof (induction lks arbitrary: i seen news ids)
  case (Cons lk lks)
  from Cons.prems obtain k news' ids' where k: "CredentialID C (lk_Credential lk) = Inr k"
    and rec: "evidence_loop C s (Suc i)
      (if \<not> CredentialSet_Has s k \<and> k \<notin> seen then insert k seen else seen) lks = Inr (news', ids')"
    and out: "ids = k # ids'" "news = (if \<not> CredentialSet_Has s k \<and> k \<notin> seen
      then \<lparr>rc_CredentialID = k, rc_Credential = lk_Credential lk, rc_IssuerProof = lk_IssuerProof lk\<rparr> # news'
      else news')"
    by (auto simp: Let_def bind_Inr_iff)
  from Cons.IH [OF rec] k out show ?case
    by (auto simp: record_key_iff list_all_iff elim!: list_all2_mono)
qed simp

section \<open>One request\<close>

text \<open>What a request that is answered has passed, and what it leaves behind.\<close>

definition attributed :: "crypto \<Rightarrow> Proxy \<Rightarrow> Request \<Rightarrow> Chain \<Rightarrow> bool" where
  "attributed C p req ch \<longleftrightarrow>
     rq_Chain req = Some ch \<and> is_ok (checkEvidenceSize req) \<and> is_ok (Chain_Verify C (p_dids p) ch) \<and>
     is_ok (VerifyPossession C (lk_Credential (last (Links ch))) (rq_PoP req) (rq_Action req)
              (fst (Tip (p_log p))) (snd (Tip (p_log p))))"

definition decision_of ::
  "crypto \<Rightarrow> (string \<Rightarrow> string) \<Rightarrow> wording \<Rightarrow> Proxy \<Rightarrow> Request \<Rightarrow> Chain \<Rightarrow> Decision" where
  "decision_of C q T p req ch =
     decide C q T p req ch (lk_Credential (last (Links ch))) (fst (Tip (p_log p))) (snd (Tip (p_log p)))"

definition wal_after :: "Entry \<Rightarrow> CredentialRecord list \<Rightarrow> WAL option \<Rightarrow> WAL option" where
  "wal_after e news = map_option (\<lambda>w. w\<lparr>w_file := w_file w @ wal_line \<lparr>wr_Entry = e, wr_Credentials = news\<rparr>\<rparr>)"

lemma persist_commit_cases:
  assumes "persist_commit C d e news p = (res, p')" and "Seal C (p_log p) r = Inr e"
    and "list_all (\<lambda>r. record_key C r = Some (rc_CredentialID r)) news"
  obtains (ok) s where "res = Inr ()" "add_records C news (p_set p) = (Inr (), s)"
      "p' = p\<lparr>p_wal := wal_after e news (p_wal p),
        p_log := (p_log p)\<lparr>l_entries := l_entries (p_log p) @ [e]\<rparr>, p_set := s\<rparr>"
      "p_wal p = None \<or> d = DiskOk \<and> w_open (the (p_wal p))"
    | (disk) w w' x where "res = Inl (DurableWriteFailed x)" "p_wal p = Some w" "WAL_Append d e news w = (Inl x, w')"
      "p' = p\<lparr>p_wal := Some w'\<rparr>"
proof -
  have commit: "Commit (p_log p) e = Inr ((p_log p)\<lparr>l_entries := l_entries (p_log p) @ [e]\<rparr>)"
    using Seal_fields(1,2) [OF assms(2)] by (simp add: Commit_ok)
  obtain s where s: "add_records C news (p_set p) = (Inr (), s)" using add_records_ok [OF assms(3)] by blast
  show thesis
  proof (cases "p_wal p")
    case None
    then have "p' = p\<lparr>p_wal := None, p_log := (p_log p)\<lparr>l_entries := l_entries (p_log p) @ [e]\<rparr>, p_set := s\<rparr>"
      "res = Inr ()"
      using assms(1) commit s by (auto simp: persist_commit_def Let_def)
    with ok [OF _ s] None show thesis by (simp add: wal_after_def)
  next
    case (Some w)
    obtain r1 w1 where w1: "WAL_Append d e news w = (r1, w1)" by (cases "WAL_Append d e news w")
    show thesis
    proof (cases r1)
      case (Inl x)
      with Some w1 assms(1) have "res = Inl (DurableWriteFailed x)" "p' = p\<lparr>p_wal := Some w1\<rparr>"
        by (auto simp: persist_commit_def Let_def)
      then show thesis using disk Some w1 Inl by blast
    next
      case (Inr u)
      with w1 have w1': "d = DiskOk" "w_open w"
          "w1 = w\<lparr>w_file := w_file w @ wal_line \<lparr>wr_Entry = e, wr_Credentials = news\<rparr>\<rparr>"
        by (auto elim: WAL_Append_cases)
      from Inr Some w1 assms(1) commit s have "res = Inr ()"
          "p' = p\<lparr>p_wal := Some w1, p_log := (p_log p)\<lparr>l_entries := l_entries (p_log p) @ [e]\<rparr>, p_set := s\<rparr>"
        by (auto simp: persist_commit_def Let_def)
      with ok [OF _ s] Some w1' show thesis by (simp add: wal_after_def)
    qed
  qed
qed

text \<open>The two outcomes of a request: one more entry, or the same log and evidence.\<close>

definition same_record :: "Proxy \<Rightarrow> Proxy \<Rightarrow> bool" where
  "same_record p p' \<longleftrightarrow>
     p' = p\<lparr>p_wal := p_wal p', p_sinkSlots := p_sinkSlots p', p_unattrSlots := p_unattrSlots p'\<rparr>"

lemma same_record_fields:
  assumes "same_record p p'"
  shows "p_log p' = p_log p" "p_set p' = p_set p" "p_dids p' = p_dids p" "p_status p' = p_status p"
    "p_policy p' = p_policy p" "p_policyID p' = p_policyID p" "p_carriedPolicy p' = p_carriedPolicy p"
    "p_enforcementPoint p' = p_enforcementPoint p" "p_sink p' = p_sink p"
  using arg_cong [OF assms [unfolded same_record_def], of p_log]
    arg_cong [OF assms [unfolded same_record_def], of p_set]
    arg_cong [OF assms [unfolded same_record_def], of p_dids]
    arg_cong [OF assms [unfolded same_record_def], of p_status]
    arg_cong [OF assms [unfolded same_record_def], of p_policy]
    arg_cong [OF assms [unfolded same_record_def], of p_policyID]
    arg_cong [OF assms [unfolded same_record_def], of p_carriedPolicy]
    arg_cong [OF assms [unfolded same_record_def], of p_enforcementPoint]
    arg_cong [OF assms [unfolded same_record_def], of p_sink]
  by simp_all

record step_info =
  si_news :: "CredentialRecord list"
  si_ids :: "string list"

definition recorded ::
  "crypto \<Rightarrow> (string \<Rightarrow> string) \<Rightarrow> wording \<Rightarrow> gotime \<Rightarrow> Request \<Rightarrow> Chain \<Rightarrow> step_info \<Rightarrow> Entry \<Rightarrow> Proxy \<Rightarrow> Proxy \<Rightarrow> bool" where
  "recorded C q T now req ch i e p p' \<longleftrightarrow>
     evidenceFor C p ch = Inr (si_news i, si_ids i) \<and>
     Seal C (p_log p) (request_draft p now req ch (si_ids i) (decision_of C q T p req ch)) = Inr e \<and>
     (\<exists>s. add_records C (si_news i) (p_set p) = (Inr (), s) \<and>
        p' = p\<lparr>p_wal := wal_after e (si_news i) (p_wal p),
          p_log := (p_log p)\<lparr>l_entries := l_entries (p_log p) @ [e]\<rparr>, p_set := s,
          p_sinkSlots := p_sinkSlots p'\<rparr>)"

lemma evidenceFor_news:
  "evidenceFor C p ch = Inr (news, ids) \<Longrightarrow> list_all (\<lambda>r. record_key C r = Some (rc_CredentialID r)) news"
  using evidence_loop_ids [of C "p_set p" 0 "{}" "Links ch" news ids]
  by (auto simp: evidenceFor_def list_all_iff)

lemma forward_same: "forward e p = p\<lparr>p_sinkSlots := p_sinkSlots (forward e p)\<rparr>"
  by (simp add: forward_def)

lemma forwardUnattributable_same: "same_record p (forwardUnattributable T now e p)"
  by (simp add: same_record_def forwardUnattributable_def Let_def)

lemma evidence_loop_err: "evidence_loop C s i seen lks = Inl x \<Longrightarrow> \<exists>j e. x = HopEvidence j e"
  by (induction lks arbitrary: i seen) (auto simp: Let_def split: sum.splits prod.splits)

lemma decideAndAppend_cases:
  assumes "decideAndAppend C q T now d req ch p = (res, p')"
  obtains (ok) e i where "res = Inr (e, decision_of C q T p req ch)" "recorded C q T now req ch i e p p'"
      "p_wal p = None \<or> d = DiskOk \<and> w_open (the (p_wal p))"
      "is_ok (VerifyPossession C (lk_Credential (last (Links ch))) (rq_PoP req) (rq_Action req)
        (fst (Tip (p_log p))) (snd (Tip (p_log p))))"
    | (err) x where "res = Inl x" "p' = p" "\<And>y. x \<noteq> DurableWriteFailed y"
    | (disk) news ids e w w' x where "res = Inl (DurableWriteFailed x)" "evidenceFor C p ch = Inr (news, ids)"
      "Seal C (p_log p) (request_draft p now req ch ids (decision_of C q T p req ch)) = Inr e"
      "p_wal p = Some w" "WAL_Append d e news w = (Inl x, w')" "p' = p\<lparr>p_wal := Some w'\<rparr>"
proof (cases "evidenceFor C p ch")
  case (Inl x)
  with assms err [of x] evidence_loop_err show thesis
    by (fastforce simp: decideAndAppend_def evidenceFor_def)
next
  case (Inr ni)
  obtain news ids where ni: "evidenceFor C p ch = Inr (news, ids)" using Inr by (cases ni) auto
  let ?c = "lk_Credential (last (Links ch))"
  let ?dr = "request_draft p now req ch ids (decision_of C q T p req ch)"
  note unf = decideAndAppend_def Let_def split_beta decision_of_def [symmetric]
  show thesis
  proof (cases "VerifyPossession C ?c (rq_PoP req) (rq_Action req) (fst (Tip (p_log p))) (snd (Tip (p_log p)))")
    case (Inl x)
    with assms ni err show thesis by (auto simp: unf)
  next
    case (Inr u)
    note pop = this
    show thesis
    proof (cases "Seal C (p_log p) ?dr")
      case (Inl x)
      with assms ni pop err show thesis by (auto simp: unf)
    next
      case (Inr e)
      obtain r1 p1 where p1: "persist_commit C d e news p = (r1, p1)" by (cases "persist_commit C d e news p")
      show thesis
      proof (cases rule: persist_commit_cases [OF p1 Inr evidenceFor_news [OF ni]])
        case (1 s)
        with assms ni pop Inr p1 have "res = Inr (e, decision_of C q T p req ch)" "p' = p1" by (auto simp: unf)
        moreover have "recorded C q T now req ch \<lparr>si_news = news, si_ids = ids\<rparr> e p p1"
          using 1 ni Inr by (simp add: recorded_def)
        ultimately show thesis using ok [of e "\<lparr>si_news = news, si_ids = ids\<rparr>"] 1(4) pop by simp
      next
        case (2 w w' x)
        with assms ni pop Inr p1 have "res = Inl (DurableWriteFailed x)" "p' = p\<lparr>p_wal := Some w'\<rparr>" by (auto simp: unf)
        with disk ni Inr 2 show thesis by blast
      qed
    qed
  qed
qed

lemma recorded_forward:
  assumes "recorded C q T now req ch i e p p'"
  shows "recorded C q T now req ch i e p (forward e p')"
proof -
  obtain s where s: "add_records C (si_news i) (p_set p) = (Inr (), s)"
    and p': "p' = p\<lparr>p_wal := wal_after e (si_news i) (p_wal p),
      p_log := (p_log p)\<lparr>l_entries := l_entries (p_log p) @ [e]\<rparr>, p_set := s, p_sinkSlots := p_sinkSlots p'\<rparr>"
    using assms by (auto simp: recorded_def)
  have "forward e p' = p\<lparr>p_wal := wal_after e (si_news i) (p_wal p),
      p_log := (p_log p)\<lparr>l_entries := l_entries (p_log p) @ [e]\<rparr>, p_set := s,
      p_sinkSlots := p_sinkSlots (forward e p')\<rparr>"
    by (subst forward_same, subst p') simp
  with s assms show ?thesis by (auto simp: recorded_def)
qed

lemma same_record_refl: "same_record p p"
  by (simp add: same_record_def)

lemma same_record_trans: "same_record p p' \<Longrightarrow> same_record p' p'' \<Longrightarrow> same_record p p''"
  by (cases p; cases p'; cases p'') (simp add: same_record_def)

lemma Handle_cases:
  assumes "Handle C q T now d req p = (res, p')"
  obtains (answered) ch e i where "res = Inr (decision_of C q T p req ch, e)" "attributed C p req ch"
      "recorded C q T now req ch i e p p'" "p_wal p = None \<or> d = DiskOk \<and> w_open (the (p_wal p))"
    | (refused) x where "res = Inl x" "same_record p p'"
proof (cases "\<exists>ch. rq_Chain req = Some ch \<and> Links ch \<noteq> [] \<and> is_ok (checkEvidenceSize req) \<and>
    is_ok (Chain_Verify C (p_dids p) ch)")
  case True
  then obtain ch where ch: "rq_Chain req = Some ch" "Links ch \<noteq> []" "checkEvidenceSize req = Inr ()"
    "Chain_Verify C (p_dids p) ch = Inr ()"
    by (auto simp: Inr_unit_iff)
  obtain r1 p1 where d: "decideAndAppend C q T now d req ch p = (r1, p1)"
    by (cases "decideAndAppend C q T now d req ch p")
  show thesis
  proof (cases rule: decideAndAppend_cases [OF d])
    case (1 e i)
    with assms ch d have "res = Inr (decision_of C q T p req ch, e)" "p' = forward e p1"
      by (auto simp: Handle_def)
    with answered recorded_forward [OF 1(2)] 1 ch show thesis by (auto simp: attributed_def)
  next
    case (2 x)
    with assms ch d have "res = Inl x" "p' = p \<or> (\<exists>u. p' = forwardUnattributable T now u p)"
      by (auto simp: Handle_def split: handle_err.splits)
    with refused forwardUnattributable_same same_record_refl show thesis by metis
  next
    case (3 news ids e w w' x)
    with assms ch d have "res = Inl (DurableWriteFailed x)" "p' = p\<lparr>p_wal := Some w'\<rparr>" by (auto simp: Handle_def)
    with refused show thesis by (simp add: same_record_def)
  qed
next
  case False
  with assms have "(\<exists>x. res = Inl x) \<and> (p' = p \<or> (\<exists>u. p' = forwardUnattributable T now u p))"
    by (auto simp: Handle_def Let_def split: option.splits if_splits sum.splits)
  with refused forwardUnattributable_same same_record_refl show thesis by metis
qed

section \<open>The invariant\<close>

text \<open>
  An entry is attributable if some verified chain has exactly its principals and credential
  addresses and the chain's actor proved possession for the entry's action and position.
\<close>

definition attributable :: "crypto \<Rightarrow> Resolver \<Rightarrow> Entry \<Rightarrow> bool" where
  "attributable C dids e \<longleftrightarrow>
     (\<exists>ch. Chain_Verify C dids ch = Inr () \<and> Principals ch = e_ResolvedChain e \<and>
        map (\<lambda>lk. CredentialID C (lk_Credential lk)) (Links ch) = map Inr (e_ChainCredentialIDs e) \<and>
        VerifyPossession C (lk_Credential (last (Links ch)))
          \<lparr>pop_Nonce = e_PoPNonce e, pop_Signature = e_PoPSignature e\<rparr>
          (e_Action e) (e_Seq e) (e_PrevHash e) = Inr ())"

definition stored_sound :: "crypto \<Rightarrow> Resolver \<Rightarrow> CredentialSet \<Rightarrow> bool" where
  "stored_sound C dids s \<longleftrightarrow>
     (\<forall>k r. cs_records s k = Some r \<longrightarrow>
        hop_sound C dids \<lparr>lk_Credential = rc_Credential r, lk_IssuerProof = rc_IssuerProof r\<rparr>)"

definition proxy_inv :: "crypto \<Rightarrow> Proxy \<Rightarrow> bool" where
  "proxy_inv C p \<longleftrightarrow>
     l_signer (p_log p) = p_enforcementPoint p \<and>
     is_ok (VerifyEntries C (l_entries (p_log p)) (s_Public (p_enforcementPoint p))) \<and>
     set_addressed C (p_set p) \<and> stored_sound C (p_dids p) (p_set p) \<and>
     list_all (\<lambda>e. attributable C (p_dids p) e \<and> e_PolicyID e = p_policyID p \<and>
        list_all (\<lambda>k. cs_records (p_set p) k \<noteq> None) (e_ChainCredentialIDs e)) (l_entries (p_log p))"

lemma fresh_proxy_inv: "proxy_inv C (fresh_proxy C ep pol dids c)"
  by (simp add: proxy_inv_def fresh_proxy_def NewLog_def VerifyEntries_def NewCredentialSet_addressed
      stored_sound_def) (simp add: NewCredentialSet_def)

lemma proxy_inv_same_record: "same_record p p' \<Longrightarrow> proxy_inv C p' = proxy_inv C p"
  using same_record_fields [of p p'] by (simp add: proxy_inv_def)

lemma recorded_fields:
  assumes "recorded C q T now req ch i e p p'"
  shows "l_entries (p_log p') = l_entries (p_log p) @ [e]" "l_signer (p_log p') = l_signer (p_log p)"
    "add_records C (si_news i) (p_set p) = (Inr (), p_set p')"
    "p_dids p' = p_dids p" "p_status p' = p_status p" "p_policy p' = p_policy p"
    "p_policyID p' = p_policyID p" "p_carriedPolicy p' = p_carriedPolicy p"
    "p_enforcementPoint p' = p_enforcementPoint p" "p_wal p' = wal_after e (si_news i) (p_wal p)"
    "p_unattrSlots p' = p_unattrSlots p"
proof -
  obtain s x where "add_records C (si_news i) (p_set p) = (Inr (), s)"
    "p' = p\<lparr>p_wal := wal_after e (si_news i) (p_wal p),
      p_log := (p_log p)\<lparr>l_entries := l_entries (p_log p) @ [e]\<rparr>, p_set := s, p_sinkSlots := x\<rparr>"
    using assms unfolding recorded_def by blast
  then show "l_entries (p_log p') = l_entries (p_log p) @ [e]" "l_signer (p_log p') = l_signer (p_log p)"
    "add_records C (si_news i) (p_set p) = (Inr (), p_set p')"
    "p_dids p' = p_dids p" "p_status p' = p_status p" "p_policy p' = p_policy p"
    "p_policyID p' = p_policyID p" "p_carriedPolicy p' = p_carriedPolicy p"
    "p_enforcementPoint p' = p_enforcementPoint p" "p_wal p' = wal_after e (si_news i) (p_wal p)"
    "p_unattrSlots p' = p_unattrSlots p"
    by simp_all
qed

lemma recorded_entry:
  assumes "recorded C q T now req ch i e p p'"
  shows "e_Seq e = fst (Tip (p_log p))" "e_PrevHash e = snd (Tip (p_log p))"
    "e_Action e = rq_Action req" "e_ResolvedChain e = Principals ch" "e_ChainCredentialIDs e = si_ids i"
    "e_Decision e = decision_of C q T p req ch" "e_PolicyID e = p_policyID p"
    "e_PoPNonce e = pop_Nonce (rq_PoP req)" "e_PoPSignature e = pop_Signature (rq_PoP req)"
    "e_Approval e = rq_Approval req" "e_ApprovedBy e = (if rq_Approval req \<noteq> [] then rq_Approver req else [])"
    "e_Timestamp e = UTC now"
  using assms Seal_fields [of C "p_log p" "request_draft p now req ch (si_ids i) (decision_of C q T p req ch)" e]
  by (auto simp: recorded_def request_draft_def)

lemma recorded_evidence:
  assumes "recorded C q T now req ch i e p p'"
  shows "map (\<lambda>lk. CredentialID C (lk_Credential lk)) (Links ch) = map Inr (si_ids i)"
    and "cs_records (p_set p) \<subseteq>\<^sub>m cs_records (p_set p')"
    and "list_all (\<lambda>k. cs_records (p_set p') k \<noteq> None) (si_ids i)"
    and "\<And>k r. cs_records (p_set p') k = Some r \<Longrightarrow> cs_records (p_set p) k = Some r \<or>
      record_key C r = Some k \<and> \<lparr>lk_Credential = rc_Credential r, lk_IssuerProof = rc_IssuerProof r\<rparr> \<in> set (Links ch)"
proof -
  have ev: "evidence_loop C (p_set p) 0 {} (Links ch) = Inr (si_news i, si_ids i)"
    using assms by (simp add: recorded_def evidenceFor_def)
  note ids = evidence_loop_ids [OF ev]
  then have keys: "list_all (\<lambda>r. record_key C r = Some (rc_CredentialID r)) (si_news i)"
    by (auto simp: list_all_iff)
  note add = add_records_ok [OF keys, of "p_set p"]
  from ids show "map (\<lambda>lk. CredentialID C (lk_Credential lk)) (Links ch) = map Inr (si_ids i)"
    by (auto simp: list_all2_conv_all_nth intro!: nth_equalityI)
  show le: "cs_records (p_set p) \<subseteq>\<^sub>m cs_records (p_set p')"
    using add recorded_fields(3) [OF assms] by auto
  show "list_all (\<lambda>k. cs_records (p_set p') k \<noteq> None) (si_ids i)"
  proof -
    have "cs_records (p_set p') k \<noteq> None" if "k \<in> set (si_ids i)" for k
    proof -
      from that ids have "CredentialSet_Has (p_set p) k \<or> (\<exists>r \<in> set (si_news i). rc_CredentialID r = k)"
        by (auto simp: list_all2_conv_all_nth in_set_conv_nth)
      then show ?thesis
        using add recorded_fields(3) [OF assms] le
        by (auto simp: CredentialSet_Has_def map_le_def dom_def)
    qed
    then show ?thesis by (simp add: list_all_iff)
  qed
  show "cs_records (p_set p) k = Some r \<or>
      record_key C r = Some k \<and> \<lparr>lk_Credential = rc_Credential r, lk_IssuerProof = rc_IssuerProof r\<rparr> \<in> set (Links ch)"
    if "cs_records (p_set p') k = Some r" for k r
    using that add recorded_fields(3) [OF assms] ids by (auto simp: list_all_iff)
qed

lemma Chain_eta [simp]: "\<lparr>Links = Links ch\<rparr> = (ch :: Chain)"
  by simp

lemma PoP_eta [simp]: "\<lparr>pop_Nonce = pop_Nonce x, pop_Signature = pop_Signature x\<rparr> = (x :: PoP)"
  by simp

lemma recorded_attributable:
  assumes "recorded C q T now req ch i e p p'" and "attributed C p req ch"
  shows "attributable C (p_dids p) e"
  unfolding attributable_def
  using assms(2) recorded_evidence(1) [OF assms(1)]
  by (intro exI [of _ ch]) (simp add: attributed_def recorded_entry [OF assms(1)] Inr_unit_iff)

lemma proxy_inv_recorded:
  assumes "recorded C q T now req ch i e p p'" and "attributed C p req ch" and "proxy_inv C p"
    and "signer_ok C (p_enforcementPoint p)"
  shows "proxy_inv C p'"
proof -
  note f = recorded_fields [OF assms(1)] and ev = recorded_evidence [OF assms(1)]
  have seal: "Seal C (p_log p) (request_draft p now req ch (si_ids i) (decision_of C q T p req ch)) = Inr e"
    using assms(1) by (simp add: recorded_def)
  have "is_ok (VerifyEntries C (l_entries (p_log p')) (s_Public (p_enforcementPoint p)))"
    using Seal_ok(1) [OF seal] assms(3,4) by (simp add: f VerifyEntries_snoc proxy_inv_def)
  moreover have "set_addressed C (p_set p')"
    using assms(3) ev(4) unfolding set_addressed_def proxy_inv_def by blast
  moreover have "stored_sound C (p_dids p) (p_set p')"
  proof -
    have "list_all (hop_sound C (p_dids p)) (Links ch)"
      using assms(2) by (auto simp: attributed_def Chain_Verify_ok)
    then show ?thesis
      using assms(3) ev(4) unfolding stored_sound_def proxy_inv_def list_all_iff by blast
  qed
  moreover have "cs_records (p_set p') k \<noteq> None" if "cs_records (p_set p) k \<noteq> None" for k
    using that ev(2) by (auto simp: map_le_def dom_def)
  ultimately show ?thesis
    using assms(3) ev(3) recorded_attributable [OF assms(1,2)] recorded_entry(5,7) [OF assms(1)]
    by (auto simp: proxy_inv_def f list_all_iff)
qed

section \<open>Steps of the proxy\<close>

inductive proxy_step :: "crypto \<Rightarrow> (string \<Rightarrow> string) \<Rightarrow> wording \<Rightarrow> Proxy \<Rightarrow> Proxy \<Rightarrow> bool"
  for C :: crypto and q :: "string \<Rightarrow> string" and T :: wording where
  handle: "Handle C q T now d req p = (res, p') \<Longrightarrow> proxy_step C q T p p'"
| sink: "proxy_step C q T p (sink_done i p)"
| unattr: "proxy_step C q T p (unattr_done i p)"
| flush: "FlushSink evs p = Some (b, p') \<Longrightarrow> proxy_step C q T p p'"
| close: "p_wal p = Some w \<Longrightarrow> WAL_Close b w = (r, w') \<Longrightarrow> proxy_step C q T p (p\<lparr>p_wal := Some w'\<rparr>)"

definition slots_bounded :: "Proxy \<Rightarrow> bool" where
  "slots_bounded p \<longleftrightarrow> length (p_sinkSlots p) \<le> 64 \<and> length (p_unattrSlots p) \<le> 64"

lemma sink_done_same: "same_record p (sink_done i p)" "same_record p (unattr_done i p)"
  by (simp_all add: same_record_def sink_done_def unattr_done_def)

lemma sink_done_slots:
  "slots_bounded p \<Longrightarrow> slots_bounded (sink_done i p)" "slots_bounded p \<Longrightarrow> slots_bounded (unattr_done i p)"
  by (auto simp: slots_bounded_def sink_done_def unattr_done_def min_def)

lemma flush_loop_effect:
  "flush_loop held evs p = Some (b, p') \<Longrightarrow>
     same_record p p' \<and> (slots_bounded p \<longrightarrow> slots_bounded p') \<and>
     (held + length (p_sinkSlots p) \<le> sinkMaxInFlight \<longrightarrow> b \<longrightarrow> p_sinkSlots p' = [])"
proof (induction held evs p rule: flush_loop.induct)
  case (1 held evs p)
  show ?case
  proof (cases "held \<ge> sinkMaxInFlight")
    case True
    with 1(4) have "p' = p" by (auto simp: flush_loop.simps [of held])
    moreover have "length (p_sinkSlots p) = 0" if "held + length (p_sinkSlots p) \<le> sinkMaxInFlight"
      using that True by linarith
    ultimately show ?thesis by (simp add: same_record_def)
  next
    case held: False
    show ?thesis
    proof (cases evs)
      case Nil
      with 1(4) held show ?thesis by (simp add: flush_loop.simps [of held])
    next
      case (Cons ev es)
      show ?thesis
      proof (cases ev)
        case Deadline
        with 1(4) held Cons show ?thesis by (auto simp: flush_loop.simps [of held] same_record_def)
      next
        case (WriteDone j)
        with 1(4) held Cons have "flush_loop held es (sink_done j p) = Some (b, p')"
          by (simp add: flush_loop.simps [of held "WriteDone j # es"])
        moreover have "length (p_sinkSlots (sink_done j p)) \<le> length (p_sinkSlots p)"
          by (simp add: sink_done_def)
        ultimately show ?thesis
          using 1(3) [OF held Cons WriteDone] sink_done_same(1) [of p j] sink_done_slots(1) [of p j]
            same_record_trans by (meson add_le_mono1 add_le_cancel_left le_trans)
      next
        case Acquire
        with 1 held Cons show ?thesis
          by (cases "held + length (p_sinkSlots p) < sinkMaxInFlight") (simp_all add: flush_loop.simps [of held "Acquire # es"])
      qed
    qed
  qed
qed

lemma FlushSink_effect:
  "FlushSink evs p = Some (b, p') \<Longrightarrow> same_record p p' \<and> (slots_bounded p \<longrightarrow> slots_bounded p')"
  using flush_loop_effect [of 0 evs p b p']
  by (auto simp: FlushSink_def same_record_def split: if_splits)

lemma forward_slots: "slots_bounded p \<Longrightarrow> slots_bounded (forward e p)"
  by (simp add: slots_bounded_def forward_def sinkMaxInFlight_def)

lemma forwardUnattributable_slots: "slots_bounded p \<Longrightarrow> slots_bounded (forwardUnattributable T now e p)"
  by (simp add: slots_bounded_def forwardUnattributable_def sinkMaxInFlight_def Let_def)

lemma persist_commit_slots:
  "persist_commit C d e news p = (r, p') \<Longrightarrow>
     p_sinkSlots p' = p_sinkSlots p \<and> p_unattrSlots p' = p_unattrSlots p"
  by (auto simp: persist_commit_def Let_def split: option.splits prod.splits sum.splits)

lemma decideAndAppend_slots:
  "decideAndAppend C q T now d req ch p = (r, p') \<Longrightarrow>
     p_sinkSlots p' = p_sinkSlots p \<and> p_unattrSlots p' = p_unattrSlots p"
  by (auto simp: decideAndAppend_def Let_def split: sum.splits prod.splits dest: persist_commit_slots)

lemma slots_bounded_eq:
  "p_sinkSlots p' = p_sinkSlots p \<and> p_unattrSlots p' = p_unattrSlots p \<Longrightarrow> slots_bounded p' = slots_bounded p"
  by (simp add: slots_bounded_def)

lemma Handle_slots: "Handle C q T now d req p = (r, p') \<Longrightarrow> slots_bounded p \<Longrightarrow> slots_bounded p'"
  by (auto simp: Handle_def Let_def
      split: option.splits if_splits sum.splits prod.splits handle_err.splits
      dest!: decideAndAppend_slots [THEN slots_bounded_eq]
      intro: forward_slots forwardUnattributable_slots)

lemma proxy_step_keeps:
  assumes "proxy_step C q T p p'" and "signer_ok C (p_enforcementPoint p)" and "proxy_inv C p"
    and "slots_bounded p"
  shows "proxy_inv C p' \<and> slots_bounded p' \<and> p_enforcementPoint p' = p_enforcementPoint p \<and>
    p_dids p' = p_dids p \<and> p_policyID p' = p_policyID p \<and> prefix (Proxy_Entries p) (Proxy_Entries p')"
proof -
  have same: ?thesis if "same_record p p'" "slots_bounded p'"
    using that same_record_fields [OF that(1)] proxy_inv_same_record [OF that(1)] assms(3)
    by (simp add: Proxy_Entries_def)
  show ?thesis
    using assms(1)
  proof cases
    case (handle now d req res)
    show ?thesis
    proof (cases rule: Handle_cases [OF handle])
      case (1 ch e i)
      with proxy_inv_recorded [OF 1(3,2) assms(3,2)] Handle_slots [OF handle assms(4)] show ?thesis
        by (simp add: recorded_fields [OF 1(3)] Proxy_Entries_def Entries_def)
    qed (use same Handle_slots [OF handle assms(4)] in blast)
  next
    case (flush evs b)
    with FlushSink_effect [OF flush] same assms(4) show ?thesis by blast
  next
    case (close w b r w')
    then show ?thesis using assms(4) by (intro same) (simp_all add: same_record_def slots_bounded_def)
  qed (use same sink_done_same sink_done_slots [OF assms(4)] in blast)+
qed

lemma proxy_reachable_keeps:
  assumes "(proxy_step C q T)\<^sup>*\<^sup>* p p'" and "signer_ok C (p_enforcementPoint p)" and "proxy_inv C p"
    and "slots_bounded p"
  shows "proxy_inv C p' \<and> slots_bounded p' \<and> p_enforcementPoint p' = p_enforcementPoint p \<and>
    p_dids p' = p_dids p \<and> p_policyID p' = p_policyID p \<and> prefix (Proxy_Entries p) (Proxy_Entries p')"
  using assms(1)
proof (induction rule: rtranclp_induct)
  case base
  then show ?case using assms by simp
next
  case (step y z)
  with proxy_step_keeps [OF step.hyps(2)] assms(2) show ?case by (auto intro: prefix_order.trans)
qed

section \<open>A concrete proxy\<close>

definition plain_wording :: wording where
  "plain_wording = \<lparr>say_macaroon = (\<lambda>_. []), say_hop = (\<lambda>_. []), say_did = (\<lambda>_. []),
     say_audit = (\<lambda>_. []), say_chain = (\<lambda>_. []), say_credential = (\<lambda>_. [])\<rparr>"

definition routine_policy :: Policy where
  "routine_policy =
     \<lparr>Ver = ''v1'', Rules = [],
      pDefault = \<lparr>df_Allowed = True, df_Consequential = False, df_Reason = ''routine''\<rparr>,
      defaultPresent = True\<rparr>"

definition sample_config :: "WAL option \<Rightarrow> Config" where
  "sample_config w =
     \<lparr>cf_EnforcementPoint = Some (toy_signer ''proxy'' CHR ''a''), cf_Policy = Some (Shipped routine_policy),
      cf_DIDs = Some (toy_resolver sample_keys), cf_Status = None, cf_Sink = True, cf_WAL = w\<rparr>"

definition sample_proxy :: "WAL option \<Rightarrow> Proxy" where
  "sample_proxy w =
     fresh_proxy toy_crypto (toy_signer ''proxy'' CHR ''a'') (Shipped routine_policy)
       (toy_resolver sample_keys) (sample_config w)"

definition tiny_action :: Action where
  "tiny_action = \<lparr>a_Type = ''t'', a_Target = ''x'', a_Attributes = [], a_Timestamp = sample_time\<rparr>"

lemma tiny_action_length: "length (json_enc (action_json tiny_action)) \<le> 100"
  by code_simp

lemma routine_decision:
  "Policy_Evaluate q routine_policy a =
     \<lparr>d_Allowed = True, d_Consequential = False, d_RuleFired = DefaultRule, d_PolicyVersion = ''v1'',
      d_StatusCheckedHops = 0, d_Reason = ''routine''\<rparr>"
  by (simp add: Policy_Evaluate_def routine_policy_def)

text \<open>A request of the sample agent for the current tip, with whatever approval it attaches.\<close>

lemma sample_request:
  assumes "length appr \<le> 512" and "p_dids p = toy_resolver sample_keys" and "length (snd (Tip (p_log p))) = 32"
  shows "\<exists>lk pop. attributed toy_crypto p
      \<lparr>rq_Chain = Some \<lparr>Links = [lk]\<rparr>, rq_Action = tiny_action, rq_PoP = pop, rq_Approver = by, rq_Approval = appr\<rparr>
      \<lparr>Links = [lk]\<rparr> \<and>
    cr_VCWrapper (lk_Credential lk) = None \<and> cr_Macaroon (lk_Credential lk) = sample_macaroon"
proof -
  obtain c sig where lk: "hop_sound toy_crypto (toy_resolver sample_keys) \<lparr>lk_Credential = c, lk_IssuerProof = sig\<rparr>"
    "cr_Subject c = ''agent''" "cr_Macaroon c = sample_macaroon"
    "JWK_PublicKey toy_crypto (cr_HolderKey c) = Inr (Ed25519Key (toy_key CHR ''a''))" "cr_VCWrapper c = None"
    using sample_link [of "''org''" "''agent''" sample_keys] by (auto simp: sample_keys_def)
  obtain seq ph where tip: "Tip (p_log p) = (seq, ph)" by (cases "Tip (p_log p)")
  obtain input where input: "popInput c ''n'' tiny_action seq ph = Inr input"
    by (simp add: popInput_def action_marshals_def tiny_action_def)
  let ?pop = "\<lparr>pop_Nonce = ''n'', pop_Signature = toy_key CHR ''a'' @ input\<rparr>"
  have "length (toy_key CHR ''a'' @ input) \<le> 512"
    using input assms(3) tip lk(2,3) tiny_action_length
    by (auto simp: popInput_def toy_key_def popDomain_def sample_macaroon_def split: if_splits)
  moreover have "cr_HolderKey c \<noteq> None" using lk(4) by (cases "cr_HolderKey c") auto
  ultimately show ?thesis
    using lk input tip assms(1,2)
    by (intro exI [of _ "\<lparr>lk_Credential = c, lk_IssuerProof = sig\<rparr>"] exI [of _ ?pop])
       (auto simp: attributed_def checkEvidenceSize_def maxPoPNonceBytes_def maxSignatureBytes_def
         Chain_Verify_ok MaxDepth_def VerifyPossession_def)
qed

lemma evidence_loop_defined:
  "list_all (\<lambda>lk. credential_marshals (lk_Credential lk)) lks \<Longrightarrow> \<exists>x. evidence_loop C s i seen lks = Inr x"
proof (induction lks arbitrary: i seen)
  case (Cons lk lks)
  then obtain k where "CredentialID C (lk_Credential lk) = Inr k" by (auto simp: CredentialID_def)
  moreover obtain x where "evidence_loop C s (Suc i)
      (if \<not> CredentialSet_Has s k \<and> k \<notin> seen then insert k seen else seen) lks = Inr x"
    using Cons by fastforce
  ultimately show ?case by (cases x) (simp add: Let_def)
qed simp

lemma Seal_defined:
  assumes "action_marshals (dr_Action r)" and "time_marshals (dr_Timestamp r)"
    and "\<And>m. s_Sign (l_signer l) m \<noteq> None"
  shows "\<exists>e. Seal C l r = Inr e"
proof -
  let ?d = "draft_entry (fst (Tip l)) (snd (Tip l)) r"
  obtain h where h: "entryHash C ?d = Inr h"
    using assms(1,2) by (simp add: entryHash_def entry_marshals_def draft_entry_def)
  obtain sig where "s_Sign (l_signer l) (sigInput h) = Some sig" using assms(3) by blast
  with h show ?thesis unfolding Seal_Inr by blast
qed

text \<open>
  Up to the durable write nothing can fail for an attributable request, with a signer that
  signs and a clock in range.
\<close>

lemma attributed_sealed:
  assumes "attributed C p req ch" and "l_signer (p_log p) = p_enforcementPoint p"
    and "\<And>m. s_Sign (p_enforcementPoint p) m \<noteq> None" and "time_marshals (UTC now)"
  obtains news ids e where "evidenceFor C p ch = Inr (news, ids)"
    "Seal C (p_log p) (request_draft p now req ch ids (decision_of C q T p req ch)) = Inr e"
    "wal_marshals \<lparr>wr_Entry = e, wr_Credentials = news\<rparr>"
    "\<And>d. decideAndAppend C q T now d req ch p =
       (case persist_commit C d e news p of
          (Inl x, p') \<Rightarrow> (Inl x, p') | (Inr _, p') \<Rightarrow> (Inr (e, decision_of C q T p req ch), p'))"
proof -
  let ?c = "lk_Credential (last (Links ch))"
  have marsh: "list_all (\<lambda>lk. credential_marshals (lk_Credential lk)) (Links ch)"
    using assms(1) by (auto simp: attributed_def Chain_Verify_ok hop_sound_def IssuanceInput_def Let_def list_all_iff)
  have pop: "VerifyPossession C ?c (rq_PoP req) (rq_Action req) (fst (Tip (p_log p))) (snd (Tip (p_log p))) = Inr ()"
    using assms(1) by (simp add: attributed_def Inr_unit_iff)
  then have am: "action_marshals (rq_Action req)"
    by (auto simp: VerifyPossession_def popInput_def split: sum.splits if_splits)
  obtain news ids where ev: "evidenceFor C p ch = Inr (news, ids)"
    using evidence_loop_defined [OF marsh] by (fastforce simp: evidenceFor_def)
  let ?dr = "request_draft p now req ch ids (decision_of C q T p req ch)"
  obtain e where e: "Seal C (p_log p) ?dr = Inr e"
    using Seal_defined [of ?dr "p_log p" C] assms(2-4) am by (auto simp: request_draft_def)
  have "entry_marshals e"
    using Seal_fields(3,12) [OF e] am assms(4) by (simp add: entry_marshals_def request_draft_def)
  moreover have "list_all (\<lambda>r. \<exists>lk \<in> set (Links ch). lk = \<lparr>lk_Credential = rc_Credential r, lk_IssuerProof = rc_IssuerProof r\<rparr>) news"
    using evidence_loop_ids [of C "p_set p" 0 "{}" "Links ch" news ids] ev
    by (auto simp: evidenceFor_def list_all_iff)
  then have "list_all (\<lambda>r. credential_marshals (rc_Credential r)) news"
    using marsh by (fastforce simp: list_all_iff)
  ultimately have "wal_marshals \<lparr>wr_Entry = e, wr_Credentials = news\<rparr>" by (simp add: wal_marshals_def)
  with that [OF ev e] show thesis
    using ev pop e by (simp add: decideAndAppend_def Let_def split_beta decision_of_def [symmetric])
qed

lemma attributed_chain:
  "attributed C p req ch \<Longrightarrow> rq_Chain req = Some ch \<and> Links ch \<noteq> [] \<and> checkEvidenceSize req = Inr () \<and>
     Chain_Verify C (p_dids p) ch = Inr ()"
  by (auto simp: attributed_def Inr_unit_iff Chain_Verify_def)

lemma attributed_answered:
  assumes "attributed C p req ch" and "l_signer (p_log p) = p_enforcementPoint p"
    and "\<And>m. s_Sign (p_enforcementPoint p) m \<noteq> None" and "time_marshals (UTC now)"
    and "p_wal p = None \<or> d = DiskOk \<and> w_open (the (p_wal p))"
  shows "\<exists>e p'. Handle C q T now d req p = (Inr (decision_of C q T p req ch, e), p')"
proof (rule attributed_sealed [OF assms(1-4), where q = q and T = T])
  fix news ids e
  assume ev: "evidenceFor C p ch = Inr (news, ids)"
    and e: "Seal C (p_log p) (request_draft p now req ch ids (decision_of C q T p req ch)) = Inr e"
    and wm: "wal_marshals \<lparr>wr_Entry = e, wr_Credentials = news\<rparr>"
    and d: "\<And>d. decideAndAppend C q T now d req ch p =
       (case persist_commit C d e news p of
          (Inl x, p') \<Rightarrow> (Inl x, p') | (Inr _, p') \<Rightarrow> (Inr (e, decision_of C q T p req ch), p'))"
  obtain r1 p1 where p1: "persist_commit C d e news p = (r1, p1)" by (cases "persist_commit C d e news p")
  have "r1 = Inr ()"
  proof (cases rule: persist_commit_cases [OF p1 e evidenceFor_news [OF ev]])
    case (2 w w' x)
    with assms(5) wm show ?thesis by (simp add: WAL_Append_def Let_def)
  qed
  with p1 d have "decideAndAppend C q T now d req ch p = (Inr (e, decision_of C q T p req ch), p1)" by simp
  then show ?thesis using attributed_chain [OF assms(1)] by (simp add: Handle_def)
qed

lemma sample_answered:
  assumes "length appr \<le> 512" and "w = None \<or> w_open (the w)"
  shows "\<exists>lk req e p'. rq_Chain req = Some \<lparr>Links = [lk]\<rparr> \<and> rq_Approval req = appr \<and> rq_Approver req = by \<and>
    rq_Action req = tiny_action \<and> attributed toy_crypto (sample_proxy w) req \<lparr>Links = [lk]\<rparr> \<and>
    cr_Macaroon (lk_Credential lk) = sample_macaroon \<and>
    d_Allowed (decision_of toy_crypto id plain_wording (sample_proxy w) req \<lparr>Links = [lk]\<rparr>) \<and>
    Handle toy_crypto id plain_wording sample_time DiskOk req (sample_proxy w) =
      (Inr (decision_of toy_crypto id plain_wording (sample_proxy w) req \<lparr>Links = [lk]\<rparr>, e), p')"
proof -
  let ?p = "sample_proxy w"
  have "length (snd (Tip (p_log ?p))) = 32"
    by (simp add: sample_proxy_def fresh_proxy_def NewLog_def Tip_def GenesisHash_def)
  then obtain lk pop where lk: "attributed toy_crypto ?p
      \<lparr>rq_Chain = Some \<lparr>Links = [lk]\<rparr>, rq_Action = tiny_action, rq_PoP = pop, rq_Approver = by, rq_Approval = appr\<rparr>
      \<lparr>Links = [lk]\<rparr>" "cr_Macaroon (lk_Credential lk) = sample_macaroon"
    using sample_request [OF assms(1), of ?p "by"] by (auto simp: sample_proxy_def fresh_proxy_def)
  let ?req = "\<lparr>rq_Chain = Some \<lparr>Links = [lk]\<rparr>, rq_Action = tiny_action, rq_PoP = pop, rq_Approver = by, rq_Approval = appr\<rparr>"
  obtain e p' where h: "Handle toy_crypto id plain_wording sample_time DiskOk ?req ?p =
      (Inr (decision_of toy_crypto id plain_wording ?p ?req \<lparr>Links = [lk]\<rparr>, e), p')"
    using attributed_answered [OF lk(1), of sample_time DiskOk id plain_wording] assms(2)
    by (auto simp: sample_proxy_def fresh_proxy_def NewLog_def toy_signer_def sample_config_def UTC_def
        sample_time_def time_marshals_def year_of_def Let_def)
  have "d_Allowed (decision_of toy_crypto id plain_wording ?p ?req \<lparr>Links = [lk]\<rparr>)"
    using lk(2)
    by (auto simp: decision_of_def decide_allowed allow_conditions_def evaluate_def sample_proxy_def
        fresh_proxy_def routine_decision Macaroon_Satisfies_def sample_macaroon_def)
  with h lk show ?thesis by (intro exI [of _ lk] exI [of _ ?req] exI [of _ e] exI [of _ p']) simp
qed

lemma sample_one_entry:
  "\<exists>req e p'. Handle toy_crypto id plain_wording sample_time DiskOk req (sample_proxy None) = (Inr e, p') \<and>
     length (Proxy_Entries p') = 1"
proof -
  obtain req e p' where h: "Handle toy_crypto id plain_wording sample_time DiskOk req (sample_proxy None) = (Inr e, p')"
    using sample_answered [of "[]" None "[]"] by auto
  have "length (Proxy_Entries p') = 1"
  proof (cases rule: Handle_cases [OF h])
    case (1 ch e' i)
    then show ?thesis
      by (simp add: recorded_fields(1) [OF 1(3)] Proxy_Entries_def Entries_def sample_proxy_def fresh_proxy_def NewLog_def)
  qed simp
  with h show ?thesis by blast
qed

lemma sample_proxy_new:
  "NewProxy toy_crypto (sample_config None) = Inr (sample_proxy None)"
  "signer_ok toy_crypto (p_enforcementPoint (sample_proxy None))"
  by (simp_all add: NewProxy_def sample_config_def sample_proxy_def fresh_proxy_def toy_signer_ok)

section \<open>Properties\<close>

text \<open>
  C3. Allow means every check passed.  When a request is answered with an allow, its chain
  verifies, its actor proved possession of the holder key for this action at the position the
  entry takes, the policy allows the action, every hop's macaroon permits it, and, if the
  policy calls it consequential, every hop that publishes a revocation list is proven
  unrevoked, the count recorded is the number of those hops, and the named human's published
  key approved this action of this actor at this position.
\<close>

theorem allowed_only_if_checked:
  assumes "Handle C q T now d req p = (Inr (dec, e), p')" and "d_Allowed dec"
  shows "\<exists>ch pdec. rq_Chain req = Some ch \<and> Chain_Verify C (p_dids p) ch = Inr () \<and>
    VerifyPossession C (lk_Credential (last (Links ch))) (rq_PoP req) (rq_Action req)
      (fst (Proxy_Tip p)) (snd (Proxy_Tip p)) = Inr () \<and>
    evaluate q p (rq_Action req) = Inr pdec \<and> d_Allowed pdec \<and>
    d_Consequential dec = d_Consequential pdec \<and>
    list_all (\<lambda>lk. is_ok (Macaroon_Satisfies (cr_Macaroon (lk_Credential lk))
      (Context (rq_Action req) ++ HolderContext (lk_Credential (last (Links ch)))))) (Links ch) \<and>
    (d_Consequential pdec \<longrightarrow>
       list_all (\<lambda>lk. ref_ListURL (cr_StatusRef (lk_Credential lk)) \<noteq> [] \<longrightarrow>
         hop_unrevoked C \<lparr>in_DIDs = p_dids p, in_Status = p_status p\<rparr> (lk_Credential lk)) (Links ch) \<and>
       d_StatusCheckedHops dec = listed_hops (Links ch) \<and>
       (\<exists>key. ResolveKey C (p_dids p) (rq_Approver req) = Inr key \<and>
          VerifyApproval C key (Chain_Actor ch) (rq_Action req) (fst (Proxy_Tip p)) (snd (Proxy_Tip p))
            (rq_Approval req) = Inr ()))"
proof (cases rule: Handle_cases [OF assms(1)])
  case (1 ch e' i)
  let ?c = "lk_Credential (last (Links ch))"
  have at: "is_ok (Chain_Verify C (p_dids p) ch)" "rq_Chain req = Some ch"
      "VerifyPossession C ?c (rq_PoP req) (rq_Action req) (fst (Proxy_Tip p)) (snd (Proxy_Tip p)) = Inr ()"
    using 1(2) by (auto simp: attributed_def Proxy_Tip_def Inr_unit_iff)
  have dec: "dec = decide C q T p req ch ?c (fst (Tip (p_log p))) (snd (Tip (p_log p)))"
    using 1(1) by (simp add: decision_of_def)
  then obtain pd where pd: "allow_conditions C q T p req ch ?c (fst (Tip (p_log p))) (snd (Tip (p_log p))) pd"
    using assms(2) decide_allowed by blast
  note f = decide_allows [OF pd, folded dec]
  have "list_all (\<lambda>lk. is_ok (Macaroon_Satisfies (cr_Macaroon (lk_Credential lk))
      (Context (rq_Action req) ++ HolderContext ?c))) (Links ch)"
    using all_hops_satisfy [of C "p_dids p" "Links ch"] at(1) pd by (simp add: allow_conditions_def)
  moreover have "cr_Subject ?c = Chain_Actor ch"
    using at(1) by (auto simp: Chain_Actor_def Chain_Verify_ok)
  ultimately show ?thesis
    using at pd f
    by (auto simp: allow_conditions_def status_clear_def proxy_verifyApproval_ok Proxy_Tip_def Inr_unit_iff
        intro!: exI [of _ ch] exI [of _ pd])
qed simp

theorem allowed_only_if_checked_witness:
  "\<exists>req dec e p'. Handle toy_crypto id plain_wording sample_time DiskOk req (sample_proxy None) = (Inr (dec, e), p') \<and>
     d_Allowed dec \<and>
     (\<exists>ch. rq_Chain req = Some ch \<and> Chain_Verify toy_crypto (p_dids (sample_proxy None)) ch = Inr ())"
proof -
  obtain lk req e p' dec where h: "Handle toy_crypto id plain_wording sample_time DiskOk req (sample_proxy None) =
      (Inr (dec, e), p')" and a: "d_Allowed dec"
    using sample_answered [of "[]" None "[]"] by auto
  from allowed_only_if_checked [OF h a] h a show ?thesis by blast
qed

text \<open>
  C5. A request leaves exactly one entry or none.  An answered request appends one entry, at
  the position that was the tip, holding the decision returned, the action, the proof of
  possession and the principals; a refused one leaves log and evidence as they were.
\<close>

theorem Handle_one_entry:
  "case Handle C q T now d req p of
     (Inr (dec, e), p') \<Rightarrow>
       Proxy_Entries p' = Proxy_Entries p @ [e] \<and> (e_Seq e, e_PrevHash e) = Proxy_Tip p \<and>
       e_Decision e = dec \<and> e_Action e = rq_Action req \<and> e_PoPNonce e = pop_Nonce (rq_PoP req) \<and>
       e_PoPSignature e = pop_Signature (rq_PoP req) \<and> e_Approval e = rq_Approval req \<and>
       Some (e_ResolvedChain e) = map_option Principals (rq_Chain req)
   | (Inl _, p') \<Rightarrow> Proxy_Entries p' = Proxy_Entries p \<and> p_set p' = p_set p"
proof -
  obtain res p' where h: "Handle C q T now d req p = (res, p')" by (cases "Handle C q T now d req p")
  show ?thesis
  proof (cases rule: Handle_cases [OF h])
    case (1 ch e i)
    with recorded_fields(1) [OF 1(3)] recorded_entry [OF 1(3)] h show ?thesis
      by (simp add: Proxy_Entries_def Entries_def Proxy_Tip_def attributed_def)
  next
    case (2 x)
    with same_record_fields [OF 2(2)] h show ?thesis by (simp add: Proxy_Entries_def)
  qed
qed

text \<open>
  The log holds only attributable, verifiable entries.  Whatever a proxy that started
  without history goes through (requests of any outcome, sink writes ending, flushes, closing
  the durable log), its entries verify under its key, each is backed by a verified chain whose
  actor proved possession at that position, their credentials are all in the evidence set
  under their addresses, and at most 64 writes per budget are in flight.
\<close>

lemma proxy_log_invariant:
  assumes "NewProxy C cfg = Inr p0" and "cf_WAL cfg = None \<or> w_recovered (the (cf_WAL cfg)) = []"
    and "signer_ok C (p_enforcementPoint p0)" and "(proxy_step C q T)\<^sup>*\<^sup>* p0 p"
  shows "VerifyEntries C (Proxy_Entries p) (s_Public (p_enforcementPoint p)) = Inr () \<and>
    list_all (attributable C (p_dids p)) (Proxy_Entries p) \<and>
    set_addressed C (p_set p) \<and>
    list_all (\<lambda>e. list_all (CredentialSet_Has (p_set p)) (e_ChainCredentialIDs e)) (Proxy_Entries p) \<and>
    length (p_sinkSlots p) \<le> 64 \<and> length (p_unattrSlots p) \<le> 64"
proof -
  obtain ep pol dids where p0: "p0 = fresh_proxy C ep pol dids cfg"
    using assms(1,2)
    by (auto simp: NewProxy_def recoverFrom_def Recovered_def Let_def split: option.splits)
  have "slots_bounded p0" by (simp add: p0 slots_bounded_def fresh_proxy_def)
  then have "proxy_inv C p \<and> slots_bounded p"
    using proxy_reachable_keeps [OF assms(4,3)] fresh_proxy_inv by (simp add: p0)
  then show ?thesis
    by (auto simp: proxy_inv_def slots_bounded_def Proxy_Entries_def Entries_def Inr_unit_iff
        CredentialSet_Has_def list_all_iff)
qed



lemma flush_loop_deadline: "Deadline \<in> set evs \<Longrightarrow> \<exists>r. flush_loop held evs p = Some r"
proof (induction held evs p rule: flush_loop.induct)
  case (1 held evs p)
  then show ?case
    by (cases evs; subst flush_loop.simps) (auto split: flush_event.splits)
qed

lemma flush_loop_acquires:
  "p_sinkSlots p = [] \<Longrightarrow> held \<le> sinkMaxInFlight \<Longrightarrow>
     flush_loop held (replicate (sinkMaxInFlight - held) Acquire @ evs) p = Some (True, p)"
proof (induction "sinkMaxInFlight - held" arbitrary: held)
  case 0
  then show ?case by (subst flush_loop.simps) simp
next
  case (Suc n)
  then have "sinkMaxInFlight - held = Suc n" "n = sinkMaxInFlight - Suc held" "Suc held \<le> sinkMaxInFlight" by simp_all
  with Suc.hyps(1) [of "Suc held"] Suc.prems(1) show ?case by (subst flush_loop.simps) simp
qed

lemma flush_loop_writes:
  "\<exists>p'. flush_loop 0 (replicate (length (p_sinkSlots p)) (WriteDone 0) @ replicate sinkMaxInFlight Acquire @ evs) p = Some (True, p')"
proof (induction "length (p_sinkSlots p)" arbitrary: p)
  case 0
  then show ?case using flush_loop_acquires [of p 0 evs] by simp
next
  case (Suc n)
  have "length (p_sinkSlots (sink_done 0 p)) = n" using Suc(2) by (cases "p_sinkSlots p") (simp_all add: sink_done_def)
  with Suc(1) [of "sink_done 0 p"] Suc(2) [symmetric] show ?case
    by (subst flush_loop.simps) (simp add: sinkMaxInFlight_def)
qed



text \<open>
  A forwarded entry never carries the outcome that the sink contract documents for
  recorded entries: the projection leaves the field empty.
\<close>

theorem auditRecord_outcome_unset:
  "ar_Outcome (auditRecord e) = [] \<and> ar_Outcome (auditRecord e) \<noteq> OutcomeRecorded"
  by (simp add: auditRecord_def OutcomeRecorded_def)

end
