(* ===== verification/Durable.thy ===== *)
theory Durable
  imports Proxy_Correct
begin

text \<open>
  The durable log and the proxy together: the line is on disk before a decision is returned,
  a proxy reopened on its own file resumes with the same log and evidence, and what a failed
  sync leaves behind.
\<close>

section \<open>Histories of a durable proxy\<close>

text \<open>
  Requests on a disk that completes writes or refuses them without leaving bytes; \<open>rs\<close> is the
  history of records written.
\<close>

inductive clean_run ::
  "crypto \<Rightarrow> (string \<Rightarrow> string) \<Rightarrow> wording \<Rightarrow> Proxy \<Rightarrow> walRecord list \<Rightarrow> Proxy \<Rightarrow> bool"
  for C :: crypto and q :: "string \<Rightarrow> string" and T :: wording and p0 :: Proxy where
  start: "clean_run C q T p0 [] p0"
| answered: "clean_run C q T p0 rs p \<Longrightarrow> Handle C q T now d req p = (Inr (dec, e), p') \<Longrightarrow>
    rq_Chain req = Some ch \<Longrightarrow> evidenceFor C p ch = Inr (news, ids) \<Longrightarrow>
    clean_run C q T p0 (rs @ [\<lparr>wr_Entry = e, wr_Credentials = news\<rparr>]) p'"
| refused: "clean_run C q T p0 rs p \<Longrightarrow> Handle C q T now d req p = (Inl x, p') \<Longrightarrow>
    d = DiskOk \<or> d = WriteFails 0 \<Longrightarrow> clean_run C q T p0 rs p'"

lemma add_records_append:
  "add_records C rs s = (Inr (), s') \<Longrightarrow> add_records C (rs @ ts) s = add_records C ts s'"
  by (induction rs arbitrary: s) (auto split: sum.splits prod.splits)

definition wal_mirrors :: "crypto \<Rightarrow> walRecord list \<Rightarrow> Proxy \<Rightarrow> bool" where
  "wal_mirrors C rs p \<longleftrightarrow>
     (\<exists>w. p_wal p = Some w \<and> w_file w = concat (map wal_line rs)) \<and>
     map wr_Entry rs = l_entries (p_log p) \<and>
     add_records C (concat (map wr_Credentials rs)) NewCredentialSet = (Inr (), p_set p)"

text \<open>A refused request leaves the file alone unless the disk failed under it.\<close>

lemma Handle_failed_write:
  assumes "Handle C q T now d req p = (Inl x, p')"
  obtains (untouched) "p_wal p' = p_wal p" "\<And>y. x \<noteq> DurableWriteFailed y"
    | (failed) ch news ids e w w' y where "rq_Chain req = Some ch" "evidenceFor C p ch = Inr (news, ids)"
      "Seal C (p_log p) (request_draft p now req ch ids (decision_of C q T p req ch)) = Inr e"
      "p_wal p = Some w" "WAL_Append d e news w = (Inl y, w')" "p_wal p' = Some w'" "x = DurableWriteFailed y"
proof (cases "\<exists>ch. rq_Chain req = Some ch \<and> Links ch \<noteq> [] \<and> is_ok (checkEvidenceSize req) \<and>
    is_ok (Chain_Verify C (p_dids p) ch)")
  case True
  then obtain ch where ch: "rq_Chain req = Some ch" "Links ch \<noteq> []" "checkEvidenceSize req = Inr ()"
    "Chain_Verify C (p_dids p) ch = Inr ()"
    by (auto simp: Inr_unit_iff)
  obtain r1 p1 where d: "decideAndAppend C q T now d req ch p = (r1, p1)"
    by (cases "decideAndAppend C q T now d req ch p")
  show thesis
  proof (cases rule: decideAndAppend_cases [OF d])
    case (1 e i)
    with assms ch d show thesis by (auto simp: Handle_def)
  next
    case (2 y)
    with assms ch d have "x = y" "p_wal p' = p_wal p"
      by (auto simp: Handle_def forwardUnattributable_def Let_def split: handle_err.splits)
    with untouched 2(3) show thesis by blast
  next
    case (3 news ids e w w' y)
    with assms ch d have "x = DurableWriteFailed y" "p' = p\<lparr>p_wal := Some w'\<rparr>" by (auto simp: Handle_def)
    with failed [OF ch(1) 3(2-5)] show thesis by simp
  qed
next
  case False
  with assms have "p_wal p' = p_wal p" "\<And>y. x \<noteq> DurableWriteFailed y"
    by (auto simp: Handle_def Let_def checkEvidenceSize_def forwardUnattributable_def
        split: option.splits if_splits sum.splits)
  with untouched show thesis by blast
qed

lemma recorded_mirrors:
  assumes "wal_mirrors C rs p" and "recorded C q T now req ch i e p p'"
  shows "wal_mirrors C (rs @ [\<lparr>wr_Entry = e, wr_Credentials = si_news i\<rparr>]) p'"
  using assms(1) recorded_fields(1,3,10) [OF assms(2)]
  by (auto simp: wal_mirrors_def wal_after_def add_records_append)

lemma wal_mirrors_same:
  assumes "same_record p p'" and "map_option w_file (p_wal p') = map_option w_file (p_wal p)"
    and "wal_mirrors C rs p"
  shows "wal_mirrors C rs p'"
  using assms same_record_fields(1,2) [OF assms(1)]
  by (auto simp: wal_mirrors_def)

lemma clean_run_mirrors:
  assumes "clean_run C q T p0 rs p" and "wal_mirrors C [] p0"
  shows "wal_mirrors C rs p"
  using assms(1)
proof induction
  case start
  then show ?case by (rule assms(2))
next
  case (answered rs p now d req dec e p' ch news ids)
  show ?case
  proof (cases rule: Handle_cases [OF answered(2)])
    case (1 ch' e' i)
    with answered(3,4) have "si_news i = news" "e' = e" by (auto simp: attributed_def recorded_def)
    with recorded_mirrors [OF answered.IH 1(3)] show ?thesis by simp
  qed simp
next
  case (refused rs p now d req x p')
  have same: "same_record p p'"
    using Handle_cases [OF refused(2)] by (metis Inl_Inr_False sum.inject(1))
  have "map_option w_file (p_wal p') = map_option w_file (p_wal p)"
  proof (cases rule: Handle_failed_write [OF refused(2)])
    case (2 ch news ids e w w' y)
    have "w_file w' = w_file w"
      by (rule WAL_Append_cases [OF 2(5)]) (use refused(3) in auto)
    with 2 show ?thesis by simp
  qed simp
  from wal_mirrors_same [OF same this refused.IH] show ?case .
qed

definition fresh_wal :: WAL where
  "fresh_wal = \<lparr>w_open = True, w_file = [], w_recovered = []\<rparr>"

lemma clean_run_steps: "clean_run C q T p0 rs p \<Longrightarrow> (proxy_step C q T)\<^sup>*\<^sup>* p0 p"
  by (induction rule: clean_run.induct) (auto intro: proxy_step.handle rtranclp.rtrancl_into_rtrancl)

lemma policy_changed_None:
  "policy_changed pid i es = None \<longleftrightarrow> list_all (\<lambda>e. e_PolicyID e = [] \<or> e_PolicyID e = pid) es"
  by (induction es arbitrary: i) auto

section \<open>Properties\<close>

text \<open>
  C6. Log before act.  With a durable log configured, a decision is returned only if the disk
  completed and synced the write; the file then ends in the line of exactly the entry
  returned, and the entry is committed in memory with the credentials on that line.
\<close>

theorem log_before_act:
  assumes "Handle C q T now d req p = (Inr (dec, e), p')" and "p_wal p = Some w"
  shows "d = DiskOk \<and> w_open w \<and>
    (\<exists>news. p_wal p' = Some (w\<lparr>w_file := w_file w @ wal_line \<lparr>wr_Entry = e, wr_Credentials = news\<rparr>\<rparr>) \<and>
       Proxy_Entries p' = Proxy_Entries p @ [e] \<and> add_records C news (p_set p) = (Inr (), p_set p'))"
proof (cases rule: Handle_cases [OF assms(1)])
  case (1 ch e' i)
  with recorded_fields(1,3,10) [OF 1(3)] assms(2) show ?thesis
    by (auto simp: wal_after_def Proxy_Entries_def Entries_def)
qed simp

theorem log_before_act_witness:
  "\<exists>req dec e p'. Handle toy_crypto id plain_wording sample_time DiskOk req (sample_proxy (Some fresh_wal)) =
     (Inr (dec, e), p') \<and> (\<exists>w. p_wal p' = Some w \<and> w_file w \<noteq> [])"
proof -
  obtain req dec e p' where h: "Handle toy_crypto id plain_wording sample_time DiskOk req
      (sample_proxy (Some fresh_wal)) = (Inr (dec, e), p')"
    using sample_answered [of "[]" "Some fresh_wal" "[]"] by (auto simp: fresh_wal_def)
  have "p_wal (sample_proxy (Some fresh_wal)) = Some fresh_wal"
    by (simp add: sample_proxy_def fresh_proxy_def sample_config_def)
  from log_before_act [OF h this] obtain w where "p_wal p' = Some w" "w_file w \<noteq> []" by (auto simp: wal_line_def)
  with h show ?thesis by blast
qed

text \<open>
  C7. Restart loses nothing.  After any run of a proxy that began with an empty durable log,
  on a disk that completes writes or refuses them cleanly, reopening the file and building a
  proxy from the same configuration gives the same log, the same evidence and the same tip,
  provided the JSON decoder reads the written lines back.
\<close>

theorem restart_resumes:
  assumes "NewProxy C cfg = Inr p0" and "cf_WAL cfg = Some fresh_wal" and "signer_ok C (p_enforcementPoint p0)"
    and "clean_run C q T p0 rs p" and "p_wal p = Some w" and "decodes_lines stream rs"
  shows "\<exists>w2 p2. OpenWAL stream (FileData (w_file w)) True = Inr w2 \<and>
    NewProxy C (cfg\<lparr>cf_WAL := Some w2\<rparr>) = Inr p2 \<and>
    p_log p2 = p_log p \<and> p_set p2 = p_set p \<and> Proxy_Tip p2 = Proxy_Tip p \<and> p_policyID p2 = p_policyID p"
proof -
  obtain ep pol dids where cfg: "cf_EnforcementPoint cfg = Some ep" "cf_Policy cfg = Some pol" "cf_DIDs cfg = Some dids"
      and p0: "p0 = fresh_proxy C ep pol dids cfg"
    using assms(1,2)
    by (auto simp: NewProxy_def recoverFrom_def Recovered_def fresh_wal_def Let_def split: option.splits)
  have m0: "wal_mirrors C [] p0"
    using assms(2) by (simp add: wal_mirrors_def p0 fresh_proxy_def NewLog_def fresh_wal_def)
  note m = clean_run_mirrors [OF assms(4) m0]
  have wfile: "w_file w = concat (map wal_line rs)" using m assms(5) by (auto simp: wal_mirrors_def)
  let ?w2 = "\<lparr>w_open = True, w_file = concat (map wal_line rs), w_recovered = rs\<rparr>"
  let ?f = "fresh_proxy C ep pol dids (cfg\<lparr>cf_WAL := Some ?w2\<rparr>)"
  have keep: "proxy_inv C p" "p_enforcementPoint p = ep" "p_policyID p = p_policyID p0"
    using proxy_reachable_keeps [OF clean_run_steps [OF assms(4)] assms(3)] fresh_proxy_inv
    by (auto simp: p0 slots_bounded_def fresh_proxy_def)
  have log: "p_log p = \<lparr>l_signer = ep, l_entries = map wr_Entry rs\<rparr>"
    using keep m by (simp add: proxy_inv_def wal_mirrors_def)
  have fields: "p_enforcementPoint ?f = ep" "p_policyID ?f = p_policyID p" "p_set ?f = NewCredentialSet"
      "p_log ?f = NewLog ep"
    using keep(3) by (simp_all add: fresh_proxy_def p0)
  have "\<exists>p2. recoverFrom C ?w2 ?f = Inr p2 \<and> p_log p2 = p_log p \<and> p_set p2 = p_set p \<and> p_policyID p2 = p_policyID p"
  proof (cases "rs = []")
    case True
    with m log fields show ?thesis by (auto simp: recoverFrom_def Recovered_def wal_mirrors_def NewLog_def)
  next
    case False
    have "is_ok (VerifyEntries C (map wr_Entry rs) (s_Public ep))"
      using keep(1,2) log by (simp add: proxy_inv_def)
    then have "LoadLog C ep (map wr_Entry rs) = Inr (p_log p)"
      using log by (auto simp: LoadLog_def split: sum.splits)
    moreover have "policy_changed (p_policyID p) 0 (map wr_Entry rs) = None"
      using keep(1) log by (auto simp: policy_changed_None proxy_inv_def list_all_iff)
    moreover have "add_records C (concat (map wr_Credentials rs)) NewCredentialSet = (Inr (), p_set p)"
      using m by (simp add: wal_mirrors_def)
    ultimately show ?thesis
      using False fields by (simp add: recoverFrom_def Recovered_def Let_def)
  qed
  moreover have "OpenWAL stream (FileData (w_file w)) True = Inr ?w2"
    using OpenWAL_lines [OF assms(6)] wfile by simp
  moreover have "NewProxy C (cfg\<lparr>cf_WAL := Some ?w2\<rparr>) = recoverFrom C ?w2 ?f"
    using cfg by (simp add: NewProxy_def)
  ultimately show ?thesis by (auto simp: Proxy_Tip_def)
qed

theorem restart_resumes_witness:
  "\<exists>p w stream w2 p2. length (Proxy_Entries p) = 1 \<and> p_wal p = Some w \<and>
     OpenWAL stream (FileData (w_file w)) True = Inr w2 \<and>
     NewProxy toy_crypto ((sample_config (Some fresh_wal))\<lparr>cf_WAL := Some w2\<rparr>) = Inr p2 \<and> p_log p2 = p_log p"
proof -
  let ?cfg = "sample_config (Some fresh_wal)" and ?p0 = "sample_proxy (Some fresh_wal)"
  have p0: "NewProxy toy_crypto ?cfg = Inr ?p0" "cf_WAL ?cfg = Some fresh_wal"
    by (simp_all add: NewProxy_def sample_config_def sample_proxy_def recoverFrom_def Recovered_def fresh_wal_def)
  have ok: "signer_ok toy_crypto (p_enforcementPoint ?p0)"
    by (simp add: sample_proxy_def fresh_proxy_def toy_signer_ok)
  obtain req dec e p' where h: "Handle toy_crypto id plain_wording sample_time DiskOk req ?p0 = (Inr (dec, e), p')"
    using sample_answered [of "[]" "Some fresh_wal" "[]"] by (auto simp: fresh_wal_def)
  show ?thesis
  proof (cases rule: Handle_cases [OF h])
    case (1 ch e' i)
    then have ev: "rq_Chain req = Some ch" "evidenceFor toy_crypto ?p0 ch = Inr (si_news i, si_ids i)" "e' = e"
      by (auto simp: attributed_def recorded_def)
    let ?r = "\<lparr>wr_Entry = e, wr_Credentials = si_news i\<rparr>"
    have run: "clean_run toy_crypto id plain_wording ?p0 [?r] p'"
      using clean_run.answered [OF clean_run.start h ev(1,2)] by simp
    obtain w where w: "p_wal p' = Some w"
      using recorded_fields(10) [OF 1(3)] by (auto simp: wal_after_def sample_proxy_def fresh_proxy_def sample_config_def)
    have "decodes_lines (\<lambda>_. [Decoded ?r]) [?r]" by (simp add: decodes_lines_def)
    from restart_resumes [OF p0 ok run w this] obtain w2 p2 where
      "OpenWAL (\<lambda>_. [Decoded ?r]) (FileData (w_file w)) True = Inr w2"
      "NewProxy toy_crypto (?cfg\<lparr>cf_WAL := Some w2\<rparr>) = Inr p2" "p_log p2 = p_log p'"
      by blast
    moreover have "length (Proxy_Entries p') = 1"
      by (simp add: recorded_fields(1) [OF 1(3)] Proxy_Entries_def Entries_def sample_proxy_def fresh_proxy_def NewLog_def)
    ultimately show ?thesis using w by blast
  qed simp
qed

text \<open>
  C28. A failed sync poisons the file.  When the write of one request reaches the file but its
  sync fails, the request is refused and its entry dropped, yet its line stays; the next
  answered request writes a second line for the same position, and the two lines after a
  faithful file are refused at the next start under every enforcement point key.
\<close>

theorem failed_sync_poisons_recovery:
  assumes "p_wal p = Some w" and "w_file w = concat (map wal_line rs)" and "map wr_Entry rs = Proxy_Entries p"
    and "Handle C q T now SyncFails req p = (Inl (DurableWriteFailed (WalSync n)), p1)"
    and "Handle C q T now' d' req' p1 = (Inr (dec, e2), p2)"
  shows "\<exists>r1 r2 w2. p_wal p2 = Some w2 \<and> w_file w2 = concat (map wal_line (rs @ [r1, r2])) \<and>
    wr_Entry r2 = e2 \<and> Proxy_Entries p2 = Proxy_Entries p @ [e2] \<and>
    (\<forall>s. \<not> is_ok (LoadLog C s (map wr_Entry (rs @ [r1, r2]))))"
proof -
  have same: "same_record p p1"
    using Handle_cases [OF assms(4)] by (metis Inl_Inr_False sum.inject(1))
  show ?thesis
  proof (cases rule: Handle_failed_write [OF assms(4)])
    case (2 ch news ids e1 w0 w' y)
    let ?r1 = "\<lparr>wr_Entry = e1, wr_Credentials = news\<rparr>"
    have w': "w' = w\<lparr>w_file := w_file w @ wal_line ?r1\<rparr>"
      by (rule WAL_Append_cases [OF 2(5)]) (use 2 assms(1) in \<open>auto simp: WAL_Append_def Let_def split: if_splits\<close>)
    show ?thesis
    proof (cases rule: Handle_cases [OF assms(5)])
      case (1 ch' e' i)
      let ?r2 = "\<lparr>wr_Entry = e2, wr_Credentials = si_news i\<rparr>"
      have e': "e' = e2" using 1(1) by simp
      have wal: "p_wal p2 = Some (w'\<lparr>w_file := w_file w' @ wal_line ?r2\<rparr>)"
        using recorded_fields(10) [OF 1(3)] 2(6) e' by (simp add: wal_after_def)
      have ents: "Proxy_Entries p2 = Proxy_Entries p @ [e2]"
        using recorded_fields(1) [OF 1(3)] same_record_fields(1) [OF same] e'
        by (simp add: Proxy_Entries_def Entries_def)
      have "e_Seq e2 = of_nat (length (Proxy_Entries p))"
        using recorded_entry(1) [OF 1(3)] same_record_fields(1) [OF same] e'
        by (simp add: Tip_eq Proxy_Entries_def Entries_def)
      then have nv: "\<not> is_ok (VerifyEntries C ((Proxy_Entries p @ [e1]) @ [e2]) pub)" for pub
        unfolding VerifyEntries_snoc by (simp add: verify_entry_at_def)
      have "\<not> is_ok (LoadLog C s (map wr_Entry (rs @ [?r1, ?r2])))" for s
        using assms(3) nv [of "s_Public s"]
        by (cases "VerifyEntries C (Proxy_Entries p @ [e1, e2]) (s_Public s)")
           (auto simp: LoadLog_def split: prod.splits)
      with wal ents w' assms(2) show ?thesis
        by (intro exI [of _ ?r1] exI [of _ ?r2]) simp
    qed simp
  qed blast
qed

lemma attributed_unsynced:
  assumes "attributed C p req ch" and "l_signer (p_log p) = p_enforcementPoint p"
    and "\<And>m. s_Sign (p_enforcementPoint p) m \<noteq> None" and "time_marshals (UTC now)"
    and "p_wal p = Some w" and "w_open w"
  shows "\<exists>n w'. Handle C q T now SyncFails req p = (Inl (DurableWriteFailed (WalSync n)), p\<lparr>p_wal := Some w'\<rparr>) \<and> w_open w'"
proof (rule attributed_sealed [OF assms(1-4), where q = q and T = T])
  fix news ids e
  assume wm: "wal_marshals \<lparr>wr_Entry = e, wr_Credentials = news\<rparr>"
    and d: "\<And>d. decideAndAppend C q T now d req ch p =
       (case persist_commit C d e news p of
          (Inl x, p') \<Rightarrow> (Inl x, p') | (Inr _, p') \<Rightarrow> (Inr (e, decision_of C q T p req ch), p'))"
  show ?thesis
    using d [of SyncFails] attributed_chain [OF assms(1)] assms(5,6) wm
    by (auto simp: Handle_def persist_commit_def WAL_Append_def Let_def)
qed

theorem failed_sync_poisons_recovery_witness:
  "\<exists>req p1 e2 p2 dec r1 r2. Handle toy_crypto id plain_wording sample_time DiskOk req p1 = (Inr (dec, e2), p2) \<and>
     \<not> is_ok (LoadLog toy_crypto (toy_signer ''proxy'' CHR ''a'') [r1, r2])"
proof -
  let ?p = "sample_proxy (Some fresh_wal)"
  obtain lk req where a: "attributed toy_crypto ?p req \<lparr>Links = [lk]\<rparr>"
    using sample_answered [of "[]" "Some fresh_wal" "[]"] by (auto simp: fresh_wal_def)
  note simps = sample_proxy_def fresh_proxy_def NewLog_def toy_signer_def sample_config_def UTC_def fresh_wal_def
    sample_time_def time_marshals_def year_of_def Let_def
  have w: "p_wal ?p = Some fresh_wal" by (simp add: sample_proxy_def fresh_proxy_def sample_config_def)
  obtain n w' where h1: "Handle toy_crypto id plain_wording sample_time SyncFails req ?p =
      (Inl (DurableWriteFailed (WalSync n)), ?p\<lparr>p_wal := Some w'\<rparr>)" and w': "w_open w'"
    using attributed_unsynced [OF a _ _ _ w, of sample_time id plain_wording] by (auto simp: simps)
  have a': "attributed toy_crypto (?p\<lparr>p_wal := Some w'\<rparr>) req \<lparr>Links = [lk]\<rparr>"
    using a by (simp add: attributed_def)
  obtain e2 p2 dec where h2: "Handle toy_crypto id plain_wording sample_time DiskOk req (?p\<lparr>p_wal := Some w'\<rparr>) =
      (Inr (dec, e2), p2)"
    using attributed_answered [OF a', of sample_time DiskOk id plain_wording] w' by (auto simp: simps)
  have empt: "w_file fresh_wal = concat (map wal_line [])" "map wr_Entry [] = Proxy_Entries ?p"
    by (simp_all add: fresh_wal_def sample_proxy_def fresh_proxy_def NewLog_def Proxy_Entries_def Entries_def)
  from failed_sync_poisons_recovery [OF w empt h1 h2] h2 show ?thesis by fastforce
qed

end
