(* ===== verification/Web_Host.thy ===== *)
theory Web_Host
  imports Go_Prelude
begin

text \<open>
  \<^verbatim>\<open>internal/webhost\<close>: the grammar of hosts that may appear in a \<^verbatim>\<open>did:web\<close> identifier or a
  status-list URL.  \<^verbatim>\<open>netip.ParseAddr\<close> is written out as far as the code observes it: whether a
  text is an address, whether it is IPv4, and its zone.  The lemmas show that an accepted
  host consists of harmless bytes only.
\<close>

datatype host_err =
    EmptyHost
  | MissingBracket string
  | AfterLiteral string
  | MultipleColons string
  | HostTooLong nat
  | EmptyLabel
  | LabelTooLong
  | LabelHyphen
  | HostByte char
  | EmptyLiteral
  | NotAddress
  | BracketedIPv4
  | HasZone string
  | PortNotNumber string
  | PortRange string

definition MaxHostLen :: nat where "MaxHostLen = 253"

section \<open>Addresses\<close>

record ip_addr =
  ip_Is4 :: bool
  ip_Zone :: string

definition is_digit :: "char \<Rightarrow> bool" where
  "is_digit c \<longleftrightarrow> 48 \<le> ord c \<and> ord c \<le> 57"

definition is_hex :: "char \<Rightarrow> bool" where
  "is_hex c \<longleftrightarrow> is_digit c \<or> 97 \<le> ord c \<and> ord c \<le> 102 \<or> 65 \<le> ord c \<and> ord c \<le> 70"

text \<open>
  The loop over the bytes of a dotted quad: \<open>val\<close> and \<open>digLen\<close> belong to the current octet, \<open>pos\<close>
  counts the dots, \<open>prev_dot\<close> says that the previous byte was a dot or there was none.
\<close>

fun ipv4_loop :: "nat \<Rightarrow> nat \<Rightarrow> nat \<Rightarrow> bool \<Rightarrow> string \<Rightarrow> bool" where
  "ipv4_loop val pos digLen prev_dot [] \<longleftrightarrow> pos = 3"
| "ipv4_loop val pos digLen prev_dot (c # s) \<longleftrightarrow>
     (if is_digit c then
        \<not> (digLen = 1 \<and> val = 0) \<and> val * 10 + (ord c - 48) \<le> 255 \<and>
        ipv4_loop (val * 10 + (ord c - 48)) pos (Suc digLen) False s
      else c = CHR ''.'' \<and> \<not> prev_dot \<and> s \<noteq> [] \<and> pos \<noteq> 3 \<and> ipv4_loop 0 (Suc pos) 0 True s)"

definition parseIPv4Fields :: "string \<Rightarrow> bool" where
  "parseIPv4Fields s = ipv4_loop 0 0 0 True s"

text \<open>
  The loop over the groups of an IPv6 text: \<open>i\<close> bytes are filled, \<open>ell\<close> says whether \<^verbatim>\<open>::\<close> was
  seen.  The result is the text left, the bytes filled and whether \<^verbatim>\<open>::\<close> was seen.
\<close>

function ipv6_loop :: "nat \<Rightarrow> bool \<Rightarrow> string \<Rightarrow> (string \<times> nat \<times> bool) option" where
  "ipv6_loop i ell s =
     (if i \<ge> 16 then Some (s, i, ell)
      else let h = takeWhile is_hex s; t = dropWhile is_hex s in
        if length h > 4 \<or> h = [] then None
        else if t \<noteq> [] \<and> hd t = CHR ''.'' then
          (if \<not> ell \<and> i \<noteq> 12 \<or> i + 4 > 16 \<or> \<not> parseIPv4Fields s then None else Some ([], i + 4, ell))
        else if t = [] then Some ([], i + 2, ell)
        else if hd t \<noteq> CHR '':'' \<or> length t = 1 then None
        else let u = tl t in
          if hd u = CHR '':'' then
            (if ell then None
             else if tl u = [] then Some ([], i + 2, True)
             else ipv6_loop (i + 2) True (tl u))
          else ipv6_loop (i + 2) ell u)"
  by pat_completeness auto
termination
  by (relation "measure (\<lambda>(i, ell, s). 16 - i)") auto

declare ipv6_loop.simps [simp del]

definition parseIPv6 :: "string \<Rightarrow> ip_addr option" where
  "parseIPv6 inp =
     (let s = takeWhile (\<lambda>c. c \<noteq> CHR ''%'') inp; z = dropWhile (\<lambda>c. c \<noteq> CHR ''%'') inp; zone = drop 1 z in
      if z \<noteq> [] \<and> zone = [] then None
      else let lead = HasPrefix s ''::''; s' = (if lead then drop 2 s else s) in
        if lead \<and> s' = [] then Some \<lparr>ip_Is4 = False, ip_Zone = zone\<rparr>
        else case ipv6_loop 0 lead s' of
            None \<Rightarrow> None
          | Some (rest, i, ell) \<Rightarrow>
              if rest \<noteq> [] then None
              else if i < 16 \<and> \<not> ell then None
              else if \<not> i < 16 \<and> ell then None
              else Some \<lparr>ip_Is4 = False, ip_Zone = zone\<rparr>)"

fun ParseAddr_scan :: "string \<Rightarrow> string \<Rightarrow> ip_addr option" where
  "ParseAddr_scan inp [] = None"
| "ParseAddr_scan inp (c # s) =
     (if c = CHR ''.'' then (if parseIPv4Fields inp then Some \<lparr>ip_Is4 = True, ip_Zone = []\<rparr> else None)
      else if c = CHR '':'' then parseIPv6 inp
      else if c = CHR ''%'' then None
      else ParseAddr_scan inp s)"

definition ParseAddr :: "string \<Rightarrow> ip_addr option" where
  "ParseAddr s = ParseAddr_scan s s"

section \<open>Validation\<close>

definition isHostByte :: "char \<Rightarrow> bool" where
  "isHostByte c \<longleftrightarrow>
     97 \<le> ord c \<and> ord c \<le> 122 \<or> 65 \<le> ord c \<and> ord c \<le> 90 \<or> is_digit c \<or> c = CHR ''-'' \<or> c = CHR ''_''"

definition validateIPv6Literal :: "string \<Rightarrow> host_err + unit" where
  "validateIPv6Literal name =
     (if \<not> HasSuffix name '']'' then Inl (MissingBracket name)
      else let inner = drop 1 (take (length name - 1) name) in
        if inner = [] then Inl EmptyLiteral
        else case ParseAddr inner of
            None \<Rightarrow> Inl NotAddress
          | Some a \<Rightarrow>
              if ip_Is4 a then Inl BracketedIPv4
              else if ip_Zone a \<noteq> [] then Inl (HasZone (ip_Zone a))
              else Inr ())"

fun check_bytes :: "string \<Rightarrow> host_err + unit" where
  "check_bytes [] = Inr ()"
| "check_bytes (c # s) = (if \<not> isHostByte c then Inl (HostByte c) else check_bytes s)"

fun check_labels :: "string list \<Rightarrow> host_err + unit" where
  "check_labels [] = Inr ()"
| "check_labels (l # ls) =
     (if l = [] then Inl EmptyLabel
      else if length l > 63 then Inl LabelTooLong
      else if hd l = CHR ''-'' \<or> last l = CHR ''-'' then Inl LabelHyphen
      else case check_bytes l of Inl e \<Rightarrow> Inl e | Inr _ \<Rightarrow> check_labels ls)"

definition validateHostname :: "string \<Rightarrow> host_err + unit" where
  "validateHostname name =
     (if name = [] then Inl EmptyHost
      else if length name > MaxHostLen then Inl (HostTooLong (length name))
      else check_labels (Split CHR ''.'' name))"

text \<open>\<^verbatim>\<open>strconv.Atoi\<close> on digits only: an \<^verbatim>\<open>int\<close> has 64 bits, a larger number is an error.\<close>

definition digits_value :: "string \<Rightarrow> nat" where
  "digits_value s = foldl (\<lambda>n c. n * 10 + (ord c - 48)) 0 s"

definition Atoi_digits :: "string \<Rightarrow> nat option" where
  "Atoi_digits s = (if digits_value s < 2 ^ 63 then Some (digits_value s) else None)"

definition validatePort :: "string \<Rightarrow> host_err + unit" where
  "validatePort port =
     (if port = [] then Inl (PortNotNumber port)
      else if \<not> list_all is_digit port then Inl (PortNotNumber port)
      else case Atoi_digits port of
          None \<Rightarrow> Inl (PortRange port)
        | Some p \<Rightarrow> if p < 1 \<or> p > 65535 then Inl (PortRange port) else Inr ())"

text \<open>\<^verbatim>\<open>strings.LastIndex\<close> of a one-byte text.\<close>

definition LastIndex :: "string \<Rightarrow> char \<Rightarrow> nat option" where
  "LastIndex s c =
     (if c \<in> set s then Some (length s - 1 - length (takeWhile (\<lambda>x. x \<noteq> c) (rev s))) else None)"

definition splitPort :: "string \<Rightarrow> host_err + string \<times> string option" where
  "splitPort host =
     (if HasPrefix host ''['' then
        (case LastIndex host CHR '']'' of
           None \<Rightarrow> Inl (MissingBracket host)
         | Some k \<Rightarrow>
             let rest = drop (k + 1) host in
             if rest = [] then Inr (host, None)
             else if HasPrefix rest '':'' then Inr (take (k + 1) host, Some (drop 1 rest))
             else Inl (AfterLiteral rest))
      else case LastIndex host CHR '':'' of
          None \<Rightarrow> Inr (host, None)
        | Some i \<Rightarrow>
            if CHR '':'' \<in> set (take i host) then Inl (MultipleColons host)
            else Inr (take i host, Some (drop (i + 1) host)))"

definition Validate :: "string \<Rightarrow> host_err + unit" where
  "Validate host =
     (if host = [] then Inl EmptyHost
      else case splitPort host of
          Inl e \<Rightarrow> Inl e
        | Inr (name, port) \<Rightarrow>
            (case (if HasPrefix name ''['' then validateIPv6Literal name else validateHostname name) of
               Inl e \<Rightarrow> Inl e
             | Inr _ \<Rightarrow> (case port of None \<Rightarrow> Inr () | Some p \<Rightarrow> validatePort p)))"

section \<open>Accepted hosts are harmless\<close>

definition host_char :: "char \<Rightarrow> bool" where
  "host_char c \<longleftrightarrow> isHostByte c \<or> c \<in> {CHR ''.'', CHR '':'', CHR ''['', CHR '']''}"

lemma host_char_delims [simp]:
  "host_char CHR ''.''" "host_char CHR '':''" "host_char CHR ''[''" "host_char CHR '']''"
  by (simp_all add: host_char_def)

lemma is_hex_host: "is_hex c \<Longrightarrow> host_char c" "is_digit c \<Longrightarrow> host_char c"
  by (auto simp: is_hex_def is_digit_def host_char_def isHostByte_def)

lemma ipv4_loop_chars: "ipv4_loop v pos n b s \<Longrightarrow> list_all host_char s"
  by (induction v pos n b s rule: ipv4_loop.induct)
     (auto simp: is_digit_def isHostByte_def host_char_def split: if_splits)

lemma hex_split: "list_all host_char (dropWhile is_hex s) \<Longrightarrow> list_all host_char s"
  by (metis (no_types, lifting) is_hex_host(1) list_all_append list_all_iff set_takeWhileD takeWhile_dropWhile_id)

lemma ipv6_loop_chars:
  "ipv6_loop i ell s = Some ([], j, ell') \<Longrightarrow> list_all host_char s"
proof (induction i ell s rule: ipv6_loop.induct)
  case (1 i ell s)
  let ?t = "dropWhile is_hex s"
  show ?case
  proof (cases "i \<ge> 16")
    case True
    with 1(3) show ?thesis by (simp add: ipv6_loop.simps [of i])
  next
    case False
    with 1(3) have h: "\<not> (length (takeWhile is_hex s) > 4 \<or> takeWhile is_hex s = [])"
      by (auto simp: ipv6_loop.simps [of i ell s] Let_def)
    consider (dot) "?t \<noteq> []" "hd ?t = CHR ''.''" | (fin) "?t = []"
      | (ellipsis) "?t = '':'' @ '':'' @ tl (tl ?t)" | (colon) "?t = CHR '':'' # tl ?t" "hd (tl ?t) \<noteq> CHR '':''" "tl ?t \<noteq> []"
      using 1(3) False h
      by (cases ?t; cases "tl ?t") (auto simp: ipv6_loop.simps [of i ell s] Let_def split: if_splits)
    then show ?thesis
    proof cases
      case dot
      with 1(3) False h have "parseIPv4Fields s"
        by (auto simp: ipv6_loop.simps [of i ell s] Let_def split: if_splits)
      then show ?thesis using ipv4_loop_chars by (auto simp: parseIPv4Fields_def)
    next
      case fin
      show ?thesis by (rule hex_split) (simp only: fin list.pred_inject)
    next
      case ellipsis
      then obtain r where r: "?t = '':'' @ '':'' @ r" by blast
      have "list_all host_char r"
      proof (cases "r = []")
        case False
        with 1(1) [OF \<open>\<not> i \<ge> 16\<close> refl refl h] 1(3) h \<open>\<not> i \<ge> 16\<close> r show ?thesis
          by (auto simp: ipv6_loop.simps [of i ell s] Let_def split: if_splits)
      qed simp
      with r show ?thesis using hex_split [of s] by simp
    next
      case colon
      with 1(2) [OF False refl refl h] 1(3) h False have "list_all host_char (tl ?t)"
        by (cases ?t) (auto simp: ipv6_loop.simps [of i ell s] Let_def split: if_splits)
      then have "list_all host_char (CHR '':'' # tl ?t)" by simp
      then show ?thesis using colon(1) hex_split [of s] by simp
    qed
  qed
qed

lemma parseIPv6_chars:
  assumes "parseIPv6 s = Some a" and "ip_Zone a = []"
  shows "list_all host_char s"
proof -
  have nz: "CHR ''%'' \<notin> set s"
  proof
    assume "CHR ''%'' \<in> set s"
    then have "dropWhile (\<lambda>c. c \<noteq> CHR ''%'') s \<noteq> []" by (auto simp: dropWhile_eq_Nil_conv)
    with assms show False
      by (cases "dropWhile (\<lambda>c. c \<noteq> CHR ''%'') s")
         (auto simp: parseIPv6_def Let_def split: if_splits option.splits)
  qed
  then have s: "takeWhile (\<lambda>c. c \<noteq> CHR ''%'') s = s" "dropWhile (\<lambda>c. c \<noteq> CHR ''%'') s = []"
    by (auto simp: takeWhile_eq_all_conv dropWhile_eq_Nil_conv)
  let ?r = "if HasPrefix s ''::'' then drop 2 s else s"
  have "list_all host_char ?r"
    using assms(1) ipv6_loop_chars [of 0 "HasPrefix s ''::''" ?r]
    by (auto simp: parseIPv6_def s Let_def split: if_splits option.splits)
  moreover have "list_all host_char s" if "HasPrefix s ''::''" "list_all host_char (drop 2 s)"
  proof -
    have "list_all host_char (take 2 s @ drop 2 s)"
      using that by (simp only: list_all_append) (simp add: HasPrefix_def host_char_def numeral_2_eq_2)
    then show ?thesis by simp
  qed
  ultimately show ?thesis by (cases "HasPrefix s ''::''") simp_all
qed

lemma ParseAddr_scan_chars:
  "ParseAddr_scan inp s = Some a \<Longrightarrow> ip_Zone a = [] \<Longrightarrow> list_all host_char inp"
  by (induction inp s rule: ParseAddr_scan.induct)
     (auto simp: parseIPv4Fields_def split: if_splits dest: parseIPv6_chars ipv4_loop_chars)

lemma check_bytes_ok: "is_ok (check_bytes s) \<longleftrightarrow> list_all isHostByte s"
  by (induction s) auto

lemma check_labels_ok:
  "is_ok (check_labels ls) \<longleftrightarrow>
     list_all (\<lambda>l. l \<noteq> [] \<and> length l \<le> 63 \<and> hd l \<noteq> CHR ''-'' \<and> last l \<noteq> CHR ''-'' \<and> list_all isHostByte l) ls"
  by (induction ls) (auto simp: check_bytes_ok)

lemma set_Split: "set s \<subseteq> insert c (\<Union>w \<in> set (Split c s). set w)"
proof (induction s)
  case (Cons x s)
  then show ?case by (cases "Split c s") auto
qed simp

lemma validateHostname_ok:
  assumes "is_ok (validateHostname n)"
  shows "list_all host_char n" "n \<noteq> []" "n \<noteq> ''.''" "n \<noteq> ''..''" "length n \<le> 253"
proof -
  from assms have n: "n \<noteq> []" "length n \<le> 253" and l: "is_ok (check_labels (Split CHR ''.'' n))"
    by (auto simp: validateHostname_def MaxHostLen_def not_less)
  then show "n \<noteq> []" "length n \<le> 253" "n \<noteq> ''.''" "n \<noteq> ''..''" by (auto simp: check_labels_ok)
  have "isHostByte c" if "w \<in> set (Split CHR ''.'' n)" "c \<in> set w" for w c
    using l that by (auto simp: check_labels_ok list_all_iff)
  then show "list_all host_char n"
    using set_Split [of n "CHR ''.''"] by (fastforce simp: list_all_iff host_char_def)
qed

lemma bracketed:
  assumes "HasPrefix n ''[''" and "HasSuffix n '']''" and "drop 1 (take (length n - 1) n) \<noteq> []"
  obtains i where "n = CHR ''['' # i @ '']''" and "drop 1 (take (length n - 1) n) = i"
proof (cases n)
  case (Cons a m)
  with assms(1) have a: "a = CHR ''[''" by (simp add: HasPrefix_def)
  show ?thesis
  proof (cases m rule: rev_cases)
    case Nil
    with Cons assms(3) show ?thesis by simp
  next
    case (snoc k b)
    with Cons a assms(2) that [of k] show ?thesis by (simp add: HasSuffix_def HasPrefix_def)
  qed
qed (use assms in \<open>simp add: HasPrefix_def\<close>)

lemma validateIPv6Literal_ok:
  assumes "is_ok (validateIPv6Literal n)" and "HasPrefix n ''[''"
  shows "list_all host_char n" "length n > 2"
proof -
  let ?i = "drop 1 (take (length n - 1) n)"
  from assms(1) obtain a where a: "HasSuffix n '']''" "?i \<noteq> []" "ParseAddr ?i = Some a" "ip_Zone a = []"
    by (auto simp: validateIPv6Literal_def Let_def split: option.splits)
  obtain i where n: "n = CHR ''['' # i @ '']''" and i: "?i = i"
    using bracketed [OF assms(2) a(1,2)] .
  have "list_all host_char i"
    using ParseAddr_scan_chars [OF a(3) [unfolded i ParseAddr_def] a(4)] .
  then show "list_all host_char n" by (simp only: n) simp
  show "length n > 2" using a(2) i by (simp only: n) simp
qed

lemma validatePort_ok:
  "is_ok (validatePort p) \<longleftrightarrow> p \<noteq> [] \<and> list_all is_digit p \<and> 1 \<le> digits_value p \<and> digits_value p \<le> 65535"
  by (auto simp: validatePort_def Atoi_digits_def split: option.splits if_splits)

lemma LastIndex_split:
  assumes "LastIndex s c = Some k"
  shows "s = take k s @ c # drop (k + 1) s" "c \<notin> set (drop (k + 1) s)" "k < length s"
proof -
  let ?t = "takeWhile (\<lambda>x. x \<noteq> c) (rev s)" and ?d = "dropWhile (\<lambda>x. x \<noteq> c) (rev s)"
  from assms have c: "c \<in> set s" and k: "k = length s - 1 - length ?t" by (auto simp: LastIndex_def split: if_splits)
  have "?d \<noteq> []" using c by (auto simp: dropWhile_eq_Nil_conv)
  then obtain x r where "?d = x # r" by (cases ?d) auto
  moreover from this have "x = c" using hd_dropWhile [of "\<lambda>x. x \<noteq> c" "rev s"] by auto
  ultimately have "rev s = ?t @ c # r" using takeWhile_dropWhile_id [of "\<lambda>x. x \<noteq> c" "rev s"] by simp
  from arg_cong [OF this, of rev] have s: "s = rev r @ c # rev ?t" by simp
  from arg_cong [OF this, of length] have len: "length s = length r + 1 + length ?t" by simp
  with k have k': "k = length r" by simp
  show "k < length s" using len k' by simp
  have t: "take k s = rev r" by (subst s) (simp add: k')
  have dr: "drop (k + 1) s = rev ?t" by (subst s) (simp add: k')
  show "s = take k s @ c # drop (k + 1) s" using s t dr by metis
  show "c \<notin> set (drop (k + 1) s)" unfolding dr by (metis (mono_tags) set_rev set_takeWhileD)
qed

lemma splitPort_ok:
  assumes "splitPort h = Inr (n, port)"
  shows "h = n @ (case port of None \<Rightarrow> [] | Some p \<Rightarrow> CHR '':'' # p)"
proof (cases "HasPrefix h ''[''")
  case True
  with assms obtain k where k: "LastIndex h CHR '']'' = Some k"
    by (auto simp: splitPort_def split: option.splits)
  have h: "h = take (k + 1) h @ drop (k + 1) h" by simp
  show ?thesis
  proof (cases "drop (k + 1) h")
    case Nil
    with assms True k show ?thesis by (auto simp: splitPort_def)
  next
    case (Cons x r)
    with assms True k have "x = CHR '':''" "n = take (k + 1) h" "port = Some r"
      by (auto simp: splitPort_def Let_def HasPrefix_def split: if_splits)
    moreover have "h = take (k + 1) h @ x # r" using h Cons by metis
    ultimately show ?thesis by simp
  qed
next
  case False
  with assms show ?thesis
    using LastIndex_split(1) [of h "CHR '':''"]
    by (auto simp: splitPort_def split: option.splits if_splits)
qed

lemma Validate_ok:
  assumes "is_ok (Validate h)"
  shows "list_all host_char h" "h \<noteq> []" "h \<noteq> ''.''" "h \<noteq> ''..''"
proof -
  from assms obtain n port where sp: "splitPort h = Inr (n, port)" and h: "h \<noteq> []"
    and nm: "is_ok (if HasPrefix n ''['' then validateIPv6Literal n else validateHostname n)"
    and pt: "case port of None \<Rightarrow> True | Some p \<Rightarrow> is_ok (validatePort p)"
    by (auto simp: Validate_def split: sum.splits option.splits prod.splits)
  note eq = splitPort_ok [OF sp]
  have n: "list_all host_char n \<and> n \<noteq> ''.'' \<and> n \<noteq> ''..''"
  proof (cases "HasPrefix n ''[''")
    case True
    with nm validateIPv6Literal_ok [of n] show ?thesis by (auto simp: HasPrefix_def)
  next
    case False
    with nm validateHostname_ok [of n] show ?thesis by simp
  qed
  moreover have "list_all host_char p" if "port = Some p" for p
    using pt that by (auto simp: validatePort_ok list_all_iff is_hex_host(2))
  ultimately show "list_all host_char h" using eq by (auto simp: host_char_def split: option.splits)
  show "h \<noteq> []" by (rule h)
  show "h \<noteq> ''.''" "h \<noteq> ''..''" using eq n by (auto split: option.splits simp: append_eq_Cons_conv)
qed

end
