(* ===== verification/Did_Web.thy ===== *)
theory Did_Web
  imports Did Status Web_Host
begin

text \<open>
  The \<^verbatim>\<open>did:web\<close> half of \<^verbatim>\<open>internal/did\<close> and the publication paths of \<^verbatim>\<open>internal/status\<close>:
  parsing of identifiers, their location on disk and on the web, and the two resolvers.
  \<^verbatim>\<open>filepath.Join\<close> (Unix), \<^verbatim>\<open>url.PathUnescape\<close> and the escaping of \<^verbatim>\<open>url.URL.String\<close> are
  written out.  Arguments stand for the outside: the file system's answers, the JSON decoder,
  \<^verbatim>\<open>url.Parse\<close> and the web server (the redirects it sends and the final answer).
\<close>

section \<open>Go's path and URL functions\<close>

fun clean_parts :: "bool \<Rightarrow> string list \<Rightarrow> string list \<Rightarrow> string list" where
  "clean_parts rooted st [] = rev st"
| "clean_parts rooted st (w # ws) =
     (if w = [] \<or> w = ''.'' then clean_parts rooted st ws
      else if w = ''..'' then
        (case st of
           [] \<Rightarrow> clean_parts rooted (if rooted then [] else [''..'']) ws
         | x # st' \<Rightarrow> clean_parts rooted (if x = ''..'' then ''..'' # st else st') ws)
      else clean_parts rooted (w # st) ws)"

definition rooted :: "string \<Rightarrow> bool" where
  "rooted s = HasPrefix s ''/''"

definition render_path :: "bool \<Rightarrow> string list \<Rightarrow> string" where
  "render_path r ws =
     (if r then CHR ''/'' # Join ''/'' ws else if ws = [] then ''.'' else Join ''/'' ws)"

definition Clean :: "string \<Rightarrow> string" where
  "Clean s = (if s = [] then ''.'' else render_path (rooted s) (clean_parts (rooted s) [] (Split CHR ''/'' s)))"

definition filepath_Join :: "string list \<Rightarrow> string" where
  "filepath_Join ws = (let es = filter (\<lambda>w. w \<noteq> []) ws in if es = [] then [] else Clean (Join ''/'' es))"

text \<open>
  \<^verbatim>\<open>strings.ToLower\<close> on UTF-8: the ASCII letters and the two other runes with an ASCII lower case
  (U+0130 and the Kelvin sign).  Other runes keep a multi-byte form, which is left as it
  is: the results are compared with lower-cased ASCII hosts only.
\<close>

fun ToLower :: "string \<Rightarrow> string" where
  "ToLower [] = []"
| "ToLower (a # s) =
     (case s of
        [] \<Rightarrow> [lower a]
      | b # t \<Rightarrow>
          if ord a = 0xC4 \<and> ord b = 0xB0 then CHR ''i'' # ToLower t
          else (case t of
              [] \<Rightarrow> lower a # ToLower s
            | c # u \<Rightarrow>
                if ord a = 0xE2 \<and> ord b = 0x84 \<and> ord c = 0xAA then CHR ''k'' # ToLower u
                else lower a # ToLower s))"

definition hex_value :: "char \<Rightarrow> nat" where
  "hex_value c =
     (if is_digit c then ord c - 48 else if 97 \<le> ord c then ord c - 87 else ord c - 55)"

fun PathUnescape :: "string \<Rightarrow> string option" where
  "PathUnescape [] = Some []"
| "PathUnescape (c # s) =
     (if c = CHR ''%'' then
        (case s of
           a # b # t \<Rightarrow>
             if is_hex a \<and> is_hex b
             then map_option ((#) (char_of (hex_value a * 16 + hex_value b))) (PathUnescape t)
             else None
         | _ \<Rightarrow> None)
      else map_option ((#) c) (PathUnescape s))"

definition upper_hex :: "nat \<Rightarrow> char" where
  "upper_hex n = char_of (if n < 10 then 48 + n else 55 + n)"

definition path_plain :: "char \<Rightarrow> bool" where
  "path_plain c \<longleftrightarrow>
     97 \<le> ord c \<and> ord c \<le> 122 \<or> 65 \<le> ord c \<and> ord c \<le> 90 \<or> is_digit c \<or> c \<in> set ''-_.~$&+,/:;=@''"

definition escape_path :: "string \<Rightarrow> string" where
  "escape_path s =
     concat (map (\<lambda>c. if path_plain c then [c]
                      else [CHR ''%'', upper_hex (ord c div 16), upper_hex (ord c mod 16)]) s)"

section \<open>Identifiers\<close>

datatype web_err =
    NotDidWeb DID
  | EmptyDidWeb DID
  | DecodeHost DID
  | UnsafeHost DID host_err
  | EmptySegment DID
  | DecodeSegment string DID
  | UnsafeSegment DID string
  | ReadFailed string
  | ParseFailed DID
  | WrongID DID DID
  | NoHostsPermitted string
  | HostNotPermitted string
  | FetchFailed string
  | TooManyRedirects DID
  | CrossHostRedirect DID
  | RedirectDowngrade DID
  | HTTPStatus string int
  | NilDocument
  | WriteFailed string

definition did_web_prefix :: string where "did_web_prefix = ''did:web:''"

fun parse_segments :: "DID \<Rightarrow> string list \<Rightarrow> web_err + string list" where
  "parse_segments d [] = Inr []"
| "parse_segments d (f # fs) =
     (if f = [] then Inl (EmptySegment d)
      else case PathUnescape f of
          None \<Rightarrow> Inl (DecodeSegment f d)
        | Some seg \<Rightarrow>
            if seg = ''.'' \<or> seg = ''..'' \<or> CHR ''/'' \<in> set seg \<or> char_of (92 :: nat) \<in> set seg
            then Inl (UnsafeSegment d seg)
            else (case parse_segments d fs of Inl e \<Rightarrow> Inl e | Inr segs \<Rightarrow> Inr (seg # segs)))"

definition parseDIDWeb :: "DID \<Rightarrow> web_err + string \<times> string list" where
  "parseDIDWeb d =
     (if \<not> HasPrefix d did_web_prefix then Inl (NotDidWeb d)
      else let rest = drop (length did_web_prefix) d in
        if rest = [] then Inl (EmptyDidWeb d)
        else let fields = Split CHR '':'' rest in
          case PathUnescape (hd fields) of
            None \<Rightarrow> Inl (DecodeHost d)
          | Some host \<Rightarrow>
              (case Validate host of
                 Inl e \<Rightarrow> Inl (UnsafeHost d e)
               | Inr _ \<Rightarrow>
                   (case parse_segments d (tl fields) of
                      Inl e \<Rightarrow> Inl e
                    | Inr segs \<Rightarrow> Inr (host, segs))))"

definition DocumentPath :: "string \<Rightarrow> DID \<Rightarrow> web_err + string" where
  "DocumentPath dir d =
     (case parseDIDWeb d of
        Inl e \<Rightarrow> Inl e
      | Inr (host, segs) \<Rightarrow>
          Inr (filepath_Join ([dir, host] @
                 (if segs = [] then [''.well-known'', ''did.json''] else segs @ [''did.json'']))))"

section \<open>The file resolver\<close>

definition parseDocument :: "(bytes \<Rightarrow> Document option) \<Rightarrow> DID \<Rightarrow> bytes \<Rightarrow> web_err + Document" where
  "parseDocument unmarshal d data =
     (case unmarshal data of
        None \<Rightarrow> Inl (ParseFailed d)
      | Some doc \<Rightarrow> if doc_ID doc \<noteq> d then Inl (WrongID (doc_ID doc) d) else Inr doc)"

definition FileResolver_Resolve ::
  "(bytes \<Rightarrow> Document option) \<Rightarrow> (string \<rightharpoonup> bytes) \<Rightarrow> string \<Rightarrow> DID \<Rightarrow> web_err + Document" where
  "FileResolver_Resolve unmarshal files dir d =
     (case DocumentPath dir d of
        Inl e \<Rightarrow> Inl e
      | Inr path \<Rightarrow>
          (case files path of
             None \<Rightarrow> Inl (ReadFailed path)
           | Some data \<Rightarrow> parseDocument unmarshal d data))"

text \<open>\<open>marshal\<close> is \<^verbatim>\<open>json.MarshalIndent\<close> of a document; \<open>writable\<close> says whether the file can be
  created and written.\<close>

definition WriteDocument ::
  "(Document \<Rightarrow> bytes) \<Rightarrow> (string \<Rightarrow> bool) \<Rightarrow> string \<Rightarrow> Document option \<Rightarrow> (string \<rightharpoonup> bytes) \<Rightarrow>
   (web_err + string) \<times> (string \<rightharpoonup> bytes)" where
  "WriteDocument marshal writable dir doc files =
     (case doc of
        None \<Rightarrow> (Inl NilDocument, files)
      | Some dc \<Rightarrow>
          (case DocumentPath dir (doc_ID dc) of
             Inl e \<Rightarrow> (Inl e, files)
           | Inr path \<Rightarrow>
               if \<not> writable path then (Inl (WriteFailed path), files)
               else (Inr path, files(path \<mapsto> marshal dc @ [char_of (10 :: nat)]))))"

section \<open>The web resolver\<close>

record URL =
  u_Scheme :: string
  u_Hostname :: string
  u_Port :: string

definition didWebToURL :: "DID \<Rightarrow> string \<Rightarrow> web_err + string" where
  "didWebToURL d scheme =
     (case parseDIDWeb d of
        Inl e \<Rightarrow> Inl e
      | Inr (host, segs) \<Rightarrow>
          let sch = (if scheme = [] then ''https'' else scheme);
              path = (if segs = [] then ''/.well-known/did.json''
                      else CHR ''/'' # Join ''/'' segs @ ''/did.json'')
          in Inr (sch @ ''://'' @ host @ escape_path path))"

definition hostAllowed :: "string list \<Rightarrow> string \<Rightarrow> web_err + unit" where
  "hostAllowed allowed host =
     (if allowed = [] then Inl (NoHostsPermitted host)
      else if list_ex (\<lambda>h. ToLower (TrimSpace h) = ToLower host) allowed then Inr ()
      else Inl (HostNotPermitted host))"

definition norm_host :: "URL \<Rightarrow> string" where
  "norm_host u =
     (let host = ToLower (u_Hostname u) in
      if u_Port u = [] \<or> u_Scheme u = ''https'' \<and> u_Port u = ''443'' \<or> u_Scheme u = ''http'' \<and> u_Port u = ''80''
      then host else host @ '':'' @ u_Port u)"

definition sameHost :: "URL \<Rightarrow> URL \<Rightarrow> bool" where
  "sameHost a b \<longleftrightarrow> norm_host a = norm_host b"

definition maxRedirects :: nat where "maxRedirects = 3"

definition checkRedirect :: "DID \<Rightarrow> URL \<Rightarrow> URL list \<Rightarrow> web_err + unit" where
  "checkRedirect d req via =
     (if length via \<ge> maxRedirects then Inl (TooManyRedirects d)
      else let origin = hd via in
        if \<not> sameHost origin req then Inl (CrossHostRedirect d)
        else if u_Scheme origin = ''https'' \<and> u_Scheme req \<noteq> ''https'' then Inl (RedirectDowngrade d)
        else Inr ())"

text \<open>
  The client's redirect loop: \<open>hops\<close> are the redirect targets the server answers with, one
  after the other, each shown to \<open>checkRedirect\<close> with the requests made so far.
\<close>

fun follow :: "DID \<Rightarrow> URL list \<Rightarrow> URL list \<Rightarrow> web_err + URL" where
  "follow d via [] = Inr (last via)"
| "follow d via (u # hops) =
     (case checkRedirect d u via of Inl e \<Rightarrow> Inl e | Inr _ \<Rightarrow> follow d (via @ [u]) hops)"

record answer =
  an_hops :: "URL list"
  an_status :: int
  an_body :: "Document option"

text \<open>
  \<open>parse\<close> gives the parts of the first URL, \<open>get\<close> the server's behaviour (\<open>None\<close> when the
  request fails), with the body as the decoder reads it.
\<close>

definition HTTPResolver_Resolve ::
  "(string \<Rightarrow> URL) \<Rightarrow> (string \<Rightarrow> answer option) \<Rightarrow> string list \<Rightarrow> string \<Rightarrow> DID \<Rightarrow> web_err + URL \<times> Document" where
  "HTTPResolver_Resolve parse get allowed scheme d =
     (case parseDIDWeb d of
        Inl e \<Rightarrow> Inl e
      | Inr (host, _) \<Rightarrow>
          (case hostAllowed allowed host of
             Inl e \<Rightarrow> Inl e
           | Inr _ \<Rightarrow>
               (case didWebToURL d scheme of
                  Inl e \<Rightarrow> Inl e
                | Inr u \<Rightarrow>
                    (case get u of
                       None \<Rightarrow> Inl (FetchFailed u)
                     | Some a \<Rightarrow>
                         (case follow d [parse u] (an_hops a) of
                            Inl e \<Rightarrow> Inl e
                          | Inr final \<Rightarrow>
                              if an_status a \<noteq> 200 then Inl (HTTPStatus u (an_status a))
                              else (case an_body a of
                                  None \<Rightarrow> Inl (ParseFailed d)
                                | Some doc \<Rightarrow>
                                    if doc_ID doc \<noteq> d then Inl (WrongID (doc_ID doc) d)
                                    else Inr (final, doc)))))))"

section \<open>Status list locations\<close>

record list_url =
  lu_Scheme :: string
  lu_Host :: string
  lu_User :: bool
  lu_RawQuery :: string
  lu_ForceQuery :: bool
  lu_Fragment :: string
  lu_Path :: string

datatype publish_err =
    ListURLParse
  | ListURLScheme
  | ListURLNoHost
  | ListURLUserinfo
  | ListURLQuery
  | ListURLFragment
  | ListURLHost host_err
  | ListURLNoPath
  | ListURLSegment string
  | ListMkdir string
  | ListMarshal status_err
  | ListWrite string
  | ListLoad string

text \<open>\<^verbatim>\<open>strings.Trim(s, "/")\<close>.\<close>

definition trim_slashes :: "string \<Rightarrow> string" where
  "trim_slashes s = rev (dropWhile (\<lambda>c. c = CHR ''/'') (rev (dropWhile (\<lambda>c. c = CHR ''/'') s)))"

fun check_list_segments :: "string list \<Rightarrow> publish_err + unit" where
  "check_list_segments [] = Inr ()"
| "check_list_segments (w # ws) =
     (if w = [] \<or> w = ''.'' \<or> w = ''..'' then Inl (ListURLSegment w) else check_list_segments ws)"

definition PublishPath :: "(string \<Rightarrow> list_url option) \<Rightarrow> string \<Rightarrow> string \<Rightarrow> publish_err + string" where
  "PublishPath parse dir listURL =
     (case parse listURL of
        None \<Rightarrow> Inl ListURLParse
      | Some u \<Rightarrow>
          if lu_Scheme u \<noteq> ''https'' \<and> lu_Scheme u \<noteq> ''http'' then Inl ListURLScheme
          else if lu_Host u = [] then Inl ListURLNoHost
          else if lu_User u then Inl ListURLUserinfo
          else if lu_RawQuery u \<noteq> [] \<or> lu_ForceQuery u then Inl ListURLQuery
          else if lu_Fragment u \<noteq> [] then Inl ListURLFragment
          else case Validate (lu_Host u) of
              Inl e \<Rightarrow> Inl (ListURLHost e)
            | Inr _ \<Rightarrow>
                let clean = trim_slashes (lu_Path u); ws = Split CHR ''/'' clean in
                if clean = [] then Inl ListURLNoPath
                else (case check_list_segments ws of
                    Inl e \<Rightarrow> Inl e
                  | Inr _ \<Rightarrow> Inr (filepath_Join ([dir, lu_Host u] @ ws))))"

text \<open>
  \<open>enc\<close> and \<open>dec\<close> are the JSON encoder and decoder of the published form; \<open>writable\<close> and
  \<open>mkdir\<close> answer for the file system.
\<close>

definition Status_Save ::
  "(published \<Rightarrow> bytes) \<Rightarrow> (string \<Rightarrow> bool) \<Rightarrow> StatusList \<Rightarrow> string \<Rightarrow> (string \<rightharpoonup> bytes) \<Rightarrow>
   (publish_err + unit) \<times> (string \<rightharpoonup> bytes)" where
  "Status_Save enc writable l path files =
     (case Status_Marshal l of
        Inl e \<Rightarrow> (Inl (ListMarshal e), files)
      | Inr p \<Rightarrow>
          if \<not> writable path then (Inl (ListWrite path), files) else (Inr (), files(path \<mapsto> enc p)))"

definition Status_Publish ::
  "(string \<Rightarrow> list_url option) \<Rightarrow> (string \<Rightarrow> bool) \<Rightarrow> (published \<Rightarrow> bytes) \<Rightarrow> (string \<Rightarrow> bool) \<Rightarrow>
   StatusList \<Rightarrow> string \<Rightarrow> string \<Rightarrow> (string \<rightharpoonup> bytes) \<Rightarrow> (publish_err + string) \<times> (string \<rightharpoonup> bytes)" where
  "Status_Publish parse mkdir enc writable l dir listURL files =
     (case PublishPath parse dir listURL of
        Inl e \<Rightarrow> (Inl e, files)
      | Inr path \<Rightarrow>
          if \<not> mkdir path then (Inl (ListMkdir path), files)
          else (case Status_Save enc writable l path files of
              (Inl e, files') \<Rightarrow> (Inl e, files')
            | (Inr _, files') \<Rightarrow> (Inr path, files')))"

definition Status_Load ::
  "(bytes \<Rightarrow> published option) \<Rightarrow> (string \<rightharpoonup> bytes) \<Rightarrow> string \<Rightarrow> publish_err + StatusList" where
  "Status_Load dec files path =
     (case files path of
        None \<Rightarrow> Inl (ListLoad path)
      | Some data \<Rightarrow>
          (case dec data of
             None \<Rightarrow> Inl (ListMarshal StatusJSON)
           | Some p \<Rightarrow> map_sum ListMarshal id (Status_Parse p)))"

section \<open>Joined paths\<close>

definition safe_part :: "string \<Rightarrow> bool" where
  "safe_part w \<longleftrightarrow> w \<noteq> [] \<and> w \<noteq> ''.'' \<and> w \<noteq> ''..'' \<and> CHR ''/'' \<notin> set w"

text \<open>The normal form of a directory: its components after \<^verbatim>\<open>Clean\<close>.\<close>

definition dir_parts :: "string \<Rightarrow> string list" where
  "dir_parts dir = clean_parts (rooted dir) [] (Split CHR ''/'' dir)"

lemma clean_parts_safe:
  "list_all safe_part ws \<Longrightarrow> clean_parts r st (vs @ ws) = clean_parts r st vs @ ws"
proof (induction vs arbitrary: st)
  case Nil
  then show ?case by (induction ws arbitrary: st) (auto simp: safe_part_def)
next
  case (Cons v vs)
  then show ?case by (auto split: list.split)
qed

lemma Split_notin: "c \<notin> set w \<Longrightarrow> Split c w = [w]"
  by (induction w) auto

lemma Split_append: "c \<notin> set w \<Longrightarrow> Split c (s @ c # w) = Split c s @ [w]"
proof (induction s)
  case (Cons x s)
  then show ?case by (cases "Split c s") auto
qed (simp add: Split_notin)

lemma Join_snoc: "ws \<noteq> [] \<Longrightarrow> Join sep (ws @ [w]) = Join sep ws @ sep @ w"
proof (induction ws)
  case (Cons v ws)
  then show ?case by (cases ws) auto
qed simp

lemma Split_Join_safe:
  "ws \<noteq> [] \<Longrightarrow> list_all safe_part ws \<Longrightarrow> Split CHR ''/'' (s @ CHR ''/'' # Join ''/'' ws) = Split CHR ''/'' s @ ws"
proof (induction ws rule: rev_induct)
  case (snoc w ws)
  show ?case
  proof (cases "ws = []")
    case True
    with snoc show ?thesis by (simp add: Split_append safe_part_def)
  next
    case False
    with snoc have IH: "Split CHR ''/'' (s @ CHR ''/'' # Join ''/'' ws) = Split CHR ''/'' s @ ws" by simp
    have "CHR ''/'' \<notin> set w" using snoc by (simp add: safe_part_def)
    from Split_append [OF this, of "s @ CHR ''/'' # Join ''/'' ws"] IH False show ?thesis
      by (simp add: Join_snoc)
  qed
qed simp

lemma filepath_Join_safe:
  assumes "list_all safe_part ws" and "ws \<noteq> []"
  shows "filepath_Join (dir # ws) = render_path (rooted dir) (dir_parts dir @ ws)"
proof -
  have ne: "filter (\<lambda>w. w \<noteq> []) ws = ws"
    using assms(1) by (auto simp: safe_part_def list_all_iff intro: filter_True)
  have hw: "hd ws \<noteq> []" "CHR ''/'' \<notin> set (hd ws)"
    using assms by (cases ws; simp add: safe_part_def)+
  show ?thesis
  proof (cases "dir = []")
    case True
    have "rooted (Join ''/'' ws) = False"
      using assms hw by (cases ws) (auto simp: rooted_def HasPrefix_def Join_Cons neq_Nil_conv)
    moreover have "Split CHR ''/'' (Join ''/'' ws) = ws"
      using Split_Join_safe [OF assms(2,1), of "[]"] by simp
    moreover have "Join ''/'' ws \<noteq> []" using assms hw by (cases ws) (auto simp: Join_Cons)
    ultimately show ?thesis
      using True assms ne clean_parts_safe [OF assms(1), of False "[]" "[]"]
      by (simp add: filepath_Join_def Clean_def dir_parts_def rooted_def HasPrefix_def Let_def)
  next
    case False
    let ?j = "dir @ CHR ''/'' # Join ''/'' ws"
    have "Join ''/'' (dir # ws) = ?j" using assms(2) by (simp add: Join_Cons)
    moreover have "rooted ?j = rooted dir" using False by (cases dir) (auto simp: rooted_def HasPrefix_def)
    ultimately show ?thesis
      using False assms ne Split_Join_safe [OF assms(2,1), of dir]
        clean_parts_safe [OF assms(1), of "rooted dir" "[]" "Split CHR ''/'' dir"]
      by (simp add: filepath_Join_def Clean_def dir_parts_def Let_def)
  qed
qed

lemma Join_append:
  "ws \<noteq> [] \<Longrightarrow> vs \<noteq> [] \<Longrightarrow> Join sep (vs @ ws) = Join sep vs @ sep @ Join sep ws"
proof (induction vs)
  case (Cons v vs)
  then show ?case by (cases vs) (auto simp: Join_Cons)
qed simp

lemma Join_safe_inject:
  assumes "list_all safe_part ws" "ws \<noteq> []" "list_all safe_part vs" "vs \<noteq> []"
  shows "Join ''/'' ws = Join ''/'' vs \<longleftrightarrow> ws = vs"
proof
  assume eq: "Join ''/'' ws = Join ''/'' vs"
  have "[] # ws = Split CHR ''/'' (CHR ''/'' # Join ''/'' ws)"
    using Split_Join_safe [OF assms(2,1), of "[]"] by simp
  also have "\<dots> = [] # vs"
    using Split_Join_safe [OF assms(4,3), of "[]"] eq by simp
  finally show "ws = vs" by simp
qed simp

lemma render_path_inject:
  assumes "list_all safe_part ws" "ws \<noteq> []" "list_all safe_part vs" "vs \<noteq> []"
  shows "render_path r (us @ ws) = render_path r (us @ vs) \<longleftrightarrow> ws = vs"
  using assms Join_safe_inject [OF assms]
  by (cases "us = []") (auto simp: render_path_def Join_append)

section \<open>Parsed identifiers\<close>

lemma PathUnescape_nonempty: "PathUnescape s = Some t \<Longrightarrow> s \<noteq> [] \<Longrightarrow> t \<noteq> []"
  by (cases s) (auto split: if_splits list.splits)

lemma parse_segments_safe: "parse_segments d fs = Inr segs \<Longrightarrow> list_all safe_part segs"
proof (induction fs arbitrary: segs)
  case (Cons f fs)
  then show ?case
    using PathUnescape_nonempty [of f]
    by (auto simp: safe_part_def split: if_splits option.splits sum.splits)
qed simp

lemma parseDIDWeb_safe:
  assumes "parseDIDWeb d = Inr (host, segs)"
  shows "is_ok (Validate host)" and "list_all safe_part (host # segs)"
proof -
  from assms have v: "is_ok (Validate host)" and p: "\<exists>fs. parse_segments d fs = Inr segs"
    by (auto simp: parseDIDWeb_def Let_def split: if_splits option.splits sum.splits)
  show "is_ok (Validate host)" by (rule v)
  have "CHR ''/'' \<notin> set host"
    using Validate_ok(1) [OF v] by (fastforce simp: list_all_iff host_char_def isHostByte_def is_digit_def)
  with p parse_segments_safe Validate_ok(2-4) [OF v] show "list_all safe_part (host # segs)"
    by (auto simp: safe_part_def)
qed

text \<open>The components of a document's path below the directory.\<close>

definition doc_parts :: "string \<Rightarrow> string list \<Rightarrow> string list" where
  "doc_parts host segs = host # (if segs = [] then [''.well-known''] else segs) @ [''did.json'']"

lemma doc_parts_safe: "list_all safe_part (host # segs) \<Longrightarrow> list_all safe_part (doc_parts host segs)"
  by (auto simp: doc_parts_def safe_part_def)

lemma DocumentPath_eq:
  "DocumentPath dir d = map_sum id (\<lambda>(host, segs). render_path (rooted dir) (dir_parts dir @ doc_parts host segs)) (parseDIDWeb d)"
proof (cases "parseDIDWeb d")
  case (Inr hs)
  obtain host segs where hs: "hs = (host, segs)" by (cases hs)
  with Inr parseDIDWeb_safe(2) [of d host segs] have "list_all safe_part (doc_parts host segs)"
    by (intro doc_parts_safe) simp
  from filepath_Join_safe [OF this, of dir] Inr hs show ?thesis
    by (auto simp: DocumentPath_def doc_parts_def)
qed (simp add: DocumentPath_def)

text \<open>
  C13. Containment: an accepted \<^verbatim>\<open>did:web\<close> identifier maps to a file strictly below the
  publication directory.  The path is the directory's own normalised components followed
  by the host, the segments and the file name, none of which is empty, a dot segment or
  contains a slash; the host's bytes are those of a host name, port or address literal.
\<close>

theorem DocumentPath_contained:
  assumes "DocumentPath dir d = Inr path"
  shows "\<exists>host segs. parseDIDWeb d = Inr (host, segs) \<and>
    path = render_path (rooted dir) (dir_parts dir @ doc_parts host segs) \<and>
    list_all safe_part (doc_parts host segs) \<and> list_all host_char host"
proof -
  from assms obtain host segs where p: "parseDIDWeb d = Inr (host, segs)"
    and e: "path = render_path (rooted dir) (dir_parts dir @ doc_parts host segs)"
    by (cases "parseDIDWeb d") (auto simp: DocumentPath_eq)
  from p e parseDIDWeb_safe [OF p] Validate_ok(1) doc_parts_safe show ?thesis by blast
qed

theorem DocumentPath_contained_witness:
  "\<exists>host segs. parseDIDWeb ''did:web:a.example:org'' = Inr (host, segs) \<and>
    ''/pub/a.example/org/did.json'' = render_path (rooted ''/pub/'') (dir_parts ''/pub/'' @ doc_parts host segs) \<and>
    list_all safe_part (doc_parts host segs) \<and> list_all host_char host"
  by (rule DocumentPath_contained) code_simp

text \<open>
  When two identifiers share a file: exactly when they decode to the same host and segments,
  or when one has no segments and the other the single segment \<^verbatim>\<open>.well-known\<close>.
\<close>

theorem DocumentPath_same_file:
  assumes "parseDIDWeb d = Inr (h, ws)" "parseDIDWeb e = Inr (k, vs)"
  shows "DocumentPath dir d = DocumentPath dir e \<longleftrightarrow>
    h = k \<and> (ws = vs \<or> {ws, vs} = {[], [''.well-known'']})"
proof -
  have s: "list_all safe_part (doc_parts h ws)" "list_all safe_part (doc_parts k vs)"
    using assms by (auto intro!: doc_parts_safe dest: parseDIDWeb_safe(2))
  have "DocumentPath dir d = DocumentPath dir e \<longleftrightarrow> doc_parts h ws = doc_parts k vs"
    using assms render_path_inject [OF s(1) _ s(2)] by (simp add: DocumentPath_eq doc_parts_def)
  then show ?thesis by (auto simp: doc_parts_def doubleton_eq_iff)
qed

theorem DocumentPath_same_file_witness:
  "DocumentPath ''/pub'' ''did:web:a.example'' = DocumentPath ''/pub'' ''did:web:a.example:.well-known''"
proof -
  have "parseDIDWeb ''did:web:a.example'' = Inr (''a.example'', [])"
    "parseDIDWeb ''did:web:a.example:.well-known'' = Inr (''a.example'', [''.well-known''])" by code_simp+
  from DocumentPath_same_file [OF this] show ?thesis by simp
qed

section \<open>Publishing and resolving\<close>

text \<open>
  A written document is resolved from its directory by its own identifier.  For any other
  identifier the resolver answers as before the write, except that one sharing the file is
  refused: no document is ever returned for an identifier other than its own.
\<close>

theorem WriteDocument_resolves:
  assumes "WriteDocument marshal writable dir (Some doc) files = (Inr path, files')"
    and "unmarshal (marshal doc @ [char_of (10 :: nat)]) = Some doc"
  shows "FileResolver_Resolve unmarshal files' dir d =
    (if d = doc_ID doc then Inr doc
     else if DocumentPath dir d = Inr path then Inl (WrongID (doc_ID doc) d)
     else FileResolver_Resolve unmarshal files dir d)"
proof -
  let ?data = "marshal doc @ [char_of (10 :: nat)]"
  from assms(1) have p: "DocumentPath dir (doc_ID doc) = Inr path" and f: "files' = files(path \<mapsto> ?data)"
    by (auto simp: WriteDocument_def split: sum.splits if_splits)
  have "parseDocument unmarshal d ?data = (if d = doc_ID doc then Inr doc else Inl (WrongID (doc_ID doc) d))"
    using assms(2) by (simp add: parseDocument_def)
  then show ?thesis
    using p f by (cases "DocumentPath dir d") (auto simp: FileResolver_Resolve_def)
qed

definition sample_doc :: Document where
  "sample_doc = \<lparr>doc_Context = [], doc_ID = ''did:web:a.example:org'', doc_VerificationMethod = [],
     doc_Authentication = [], doc_AssertionMethod = []\<rparr>"

theorem WriteDocument_resolves_witness:
  "FileResolver_Resolve (\<lambda>b. if b = ''{}'' @ [char_of (10 :: nat)] then Some sample_doc else None)
     [''/pub/a.example/org/did.json'' \<mapsto> ''{}'' @ [char_of (10 :: nat)]] ''/pub'' ''did:web:a.example:org'' = Inr sample_doc"
proof -
  have "DocumentPath ''/pub'' ''did:web:a.example:org'' = Inr ''/pub/a.example/org/did.json''" by code_simp
  then have "DocumentPath ''/pub'' (doc_ID sample_doc) = Inr ''/pub/a.example/org/did.json''"
    by (simp only: sample_doc_def Document.select_convs)
  then have "WriteDocument (\<lambda>_. ''{}'') (\<lambda>_. True) ''/pub'' (Some sample_doc) Map.empty =
    (Inr ''/pub/a.example/org/did.json'', [''/pub/a.example/org/did.json'' \<mapsto> ''{}'' @ [char_of (10 :: nat)]])"
    by (simp add: WriteDocument_def)
  from WriteDocument_resolves [OF this, of "\<lambda>b. if b = ''{}'' @ [char_of (10 :: nat)] then Some sample_doc else None"]
  show ?thesis by (simp add: sample_doc_def)
qed

section \<open>URLs\<close>

lemma hex_upper:
  "n < 16 \<Longrightarrow> is_hex (upper_hex n) \<and> hex_value (upper_hex n) = n"
  by (auto simp: upper_hex_def is_hex_def hex_value_def is_digit_def)

lemma PathUnescape_plain: "c \<noteq> CHR ''%'' \<Longrightarrow> PathUnescape (c # s) = map_option ((#) c) (PathUnescape s)"
  by simp

lemma PathUnescape_escape: "PathUnescape (escape_path s) = Some s"
proof (induction s)
  case (Cons c s)
  have "ord c < 256" by (rule ord_less)
  then have "ord c div 16 < 16" "ord c mod 16 < 16" by auto
  note h = hex_upper [OF this(1)] hex_upper [OF this(2)]
  have "char_of (hex_value (upper_hex (ord c div 16)) * 16 + hex_value (upper_hex (ord c mod 16))) = c"
    using h by simp
  moreover have "c \<noteq> CHR ''%''" if "path_plain c"
    using that by (auto simp: path_plain_def is_digit_def)
  ultimately show ?case using Cons h by (auto simp: escape_path_def)
qed (simp add: escape_path_def)

lemma escape_path_no_delims: "c \<in> set (escape_path s) \<Longrightarrow> path_plain c \<or> c = CHR ''%''"
proof -
  have "path_plain (upper_hex n)" if "n < 16" for n
    using that by (auto simp: path_plain_def upper_hex_def is_digit_def)
  moreover have "ord x div 16 < 16" "ord x mod 16 < 16" for x :: char
    using ord_less [of x] by auto
  ultimately show "c \<in> set (escape_path s) \<Longrightarrow> path_plain c \<or> c = CHR ''%''"
    by (auto simp: escape_path_def split: if_splits)
qed

lemma didWebToURL_eq:
  "didWebToURL d scheme = map_sum id (\<lambda>(host, segs).
     (if scheme = [] then ''https'' else scheme) @ ''://'' @ host @
     escape_path (CHR ''/'' # Join ''/'' (tl (doc_parts host segs)))) (parseDIDWeb d)"
  by (auto simp: didWebToURL_def doc_parts_def Join_snoc split: sum.split)

text \<open>
  The URL fetched is determined by the identifier: scheme, host and an escaped path that
  decodes to the same components as the file path.  The host has no userinfo delimiter and
  the path no query or fragment delimiter, so the identifier cannot add structure to the URL.
\<close>

theorem didWebToURL_structure:
  assumes "didWebToURL d scheme = Inr u"
  shows "\<exists>host segs path. parseDIDWeb d = Inr (host, segs) \<and>
    u = (if scheme = [] then ''https'' else scheme) @ ''://'' @ host @ path \<and>
    PathUnescape path = Some (CHR ''/'' # Join ''/'' (tl (doc_parts host segs))) \<and>
    set host \<inter> set ''/?#@%'' = {} \<and> set path \<inter> set ''?# '' = {}"
proof -
  from assms obtain host segs where p: "parseDIDWeb d = Inr (host, segs)"
    and u: "u = (if scheme = [] then ''https'' else scheme) @ ''://'' @ host @
      escape_path (CHR ''/'' # Join ''/'' (tl (doc_parts host segs)))"
    by (cases "parseDIDWeb d") (auto simp: didWebToURL_eq)
  have "set host \<inter> set ''/?#@%'' = {}"
    using Validate_ok(1) [OF parseDIDWeb_safe(1) [OF p]]
    by (fastforce simp: list_all_iff host_char_def isHostByte_def is_digit_def)
  moreover have "set (escape_path s) \<inter> set ''?# '' = {}" for s
    by (fastforce simp: path_plain_def is_digit_def dest: escape_path_no_delims)
  ultimately show ?thesis using p u PathUnescape_escape by blast
qed

theorem didWebToURL_structure_witness:
  "\<exists>host segs path. parseDIDWeb ''did:web:a.example:x?y'' = Inr (host, segs) \<and>
    ''https://a.example/x%3Fy/did.json'' = (if [] = ([] :: string) then ''https'' else []) @ ''://'' @ host @ path \<and>
    PathUnescape path = Some (CHR ''/'' # Join ''/'' (tl (doc_parts host segs))) \<and>
    set host \<inter> set ''/?#@%'' = {} \<and> set path \<inter> set ''?# '' = {}"
proof (rule didWebToURL_structure)
  have "parseDIDWeb ''did:web:a.example:x?y'' = Inr (''a.example'', [''x?y''])"
    by code_simp
  moreover have "escape_path ''/x?y/did.json'' = ''/x%3Fy/did.json''"
    by code_simp
  ultimately show "didWebToURL ''did:web:a.example:x?y'' [] = Inr ''https://a.example/x%3Fy/did.json''"
    by (simp add: didWebToURL_def)
qed

section \<open>The web resolver's trust decision\<close>

lemma checkRedirect_ok:
  "is_ok (checkRedirect d u (o1 # via)) \<longleftrightarrow>
     length via < 2 \<and> sameHost o1 u \<and> (u_Scheme o1 = ''https'' \<longrightarrow> u_Scheme u = ''https'')"
  by (auto simp: checkRedirect_def maxRedirects_def Let_def)

lemma follow_ok:
  "follow d (o1 # via) hops = Inr final \<longleftrightarrow>
     final = last (o1 # via @ hops) \<and> (hops = [] \<or> length via + length hops \<le> 2) \<and>
     list_all (\<lambda>u. sameHost o1 u \<and> (u_Scheme o1 = ''https'' \<longrightarrow> u_Scheme u = ''https'')) hops"
proof (induction hops arbitrary: via)
  case (Cons u hops)
  from Cons.IH [of "via @ [u]"] checkRedirect_ok [of d u o1 via] show ?case
    by (auto split: sum.split)
qed auto

text \<open>
  C14. What network resolution trusts: a document is returned only for the identifier asked for,
  from a host on the deployment's list, after at most two redirects, all of which stay on
  the host of the first URL and never leave \<^verbatim>\<open>https\<close>.  With an empty list nothing resolves.
\<close>

theorem HTTPResolver_trust:
  assumes "HTTPResolver_Resolve parse get allowed scheme d = Inr (final, doc)"
  shows "doc_ID doc = d \<and> (\<exists>host segs h u a. parseDIDWeb d = Inr (host, segs) \<and>
    h \<in> set allowed \<and> ToLower (TrimSpace h) = ToLower host \<and>
    didWebToURL d scheme = Inr u \<and> get u = Some a \<and> an_status a = 200 \<and> an_body a = Some doc \<and>
    final = last (parse u # an_hops a) \<and> length (an_hops a) \<le> 2 \<and>
    list_all (\<lambda>v. sameHost (parse u) v \<and> (u_Scheme (parse u) = ''https'' \<longrightarrow> u_Scheme v = ''https''))
      (an_hops a))"
proof -
  from assms obtain host segs u a where p: "parseDIDWeb d = Inr (host, segs)"
    and h: "is_ok (hostAllowed allowed host)" and u: "didWebToURL d scheme = Inr u"
    and g: "get u = Some a" "an_status a = 200" "an_body a = Some doc" "doc_ID doc = d"
    and f: "follow d [parse u] (an_hops a) = Inr final"
    by (auto simp: HTTPResolver_Resolve_def split: sum.splits option.splits if_splits)
  from h obtain w where w: "w \<in> set allowed" "ToLower (TrimSpace w) = ToLower host"
    by (auto simp: hostAllowed_def list_ex_iff split: if_splits)
  from f have "final = last (parse u # an_hops a)" "length (an_hops a) \<le> 2"
    "list_all (\<lambda>v. sameHost (parse u) v \<and> (u_Scheme (parse u) = ''https'' \<longrightarrow> u_Scheme v = ''https''))
      (an_hops a)"
    using follow_ok [of d "parse u" "[]" "an_hops a" final] by auto
  with p w u g show ?thesis by blast
qed

text \<open>A server that redirects once to its own \<^verbatim>\<open>:443\<close> form.\<close>

definition sample_url :: "string \<Rightarrow> URL" where
  "sample_url port = \<lparr>u_Scheme = ''https'', u_Hostname = ''a.example'', u_Port = port\<rparr>"

definition sample_answer :: answer where
  "sample_answer = \<lparr>an_hops = [sample_url ''443''], an_status = 200, an_body = Some sample_doc\<rparr>"

theorem HTTPResolver_trust_witness:
  "doc_ID sample_doc = ''did:web:a.example:org'' \<and> (\<exists>host segs h u a.
    parseDIDWeb ''did:web:a.example:org'' = Inr (host, segs) \<and>
    h \<in> set [''A.example''] \<and> ToLower (TrimSpace h) = ToLower host \<and>
    didWebToURL ''did:web:a.example:org'' [] = Inr u \<and> Some sample_answer = Some a \<and> an_status a = 200 \<and>
    an_body a = Some sample_doc \<and> sample_url ''443'' = last (sample_url [] # an_hops a) \<and> length (an_hops a) \<le> 2 \<and>
    list_all (\<lambda>v. sameHost (sample_url []) v \<and> (u_Scheme (sample_url []) = ''https'' \<longrightarrow> u_Scheme v = ''https''))
      (an_hops a))"
proof (rule HTTPResolver_trust [where parse = "\<lambda>_. sample_url []" and get = "\<lambda>_. Some sample_answer"])
  have p: "parseDIDWeb ''did:web:a.example:org'' = Inr (''a.example'', [''org''])" by code_simp
  have h: "is_ok (hostAllowed [''A.example''] ''a.example'')" by code_simp
  have "follow d [sample_url []] [sample_url ''443''] = Inr (sample_url ''443'')" for d
    by (simp add: checkRedirect_ok follow_ok sample_url_def sameHost_def norm_host_def)
  then show "HTTPResolver_Resolve (\<lambda>_. sample_url []) (\<lambda>_. Some sample_answer) [''A.example''] []
    ''did:web:a.example:org'' = Inr (sample_url ''443'', sample_doc)"
    using p h by (auto simp: HTTPResolver_Resolve_def didWebToURL_def sample_answer_def sample_doc_def
        simp del: follow.simps split: sum.split)
qed

section \<open>Publication of status lists\<close>

lemma check_list_segments_ok:
  "is_ok (check_list_segments ws) \<longleftrightarrow> list_all (\<lambda>w. w \<noteq> [] \<and> w \<noteq> ''.'' \<and> w \<noteq> ''..'') ws"
  by (induction ws) auto

text \<open>
  A status list is published strictly below the publication directory too, at the host and
  path of its URL, and two accepted list URLs share a file exactly when they have the same
  host and, up to leading and trailing slashes, the same path.
\<close>

theorem PublishPath_contained:
  assumes "PublishPath parse dir url = Inr path" and "parse url = Some u"
  shows "let ws = lu_Host u # Split CHR ''/'' (trim_slashes (lu_Path u)) in
    list_all safe_part ws \<and> list_all host_char (lu_Host u) \<and>
    path = render_path (rooted dir) (dir_parts dir @ ws) \<and>
    (\<forall>url' u'. parse url' = Some u' \<and> is_ok (PublishPath parse dir url') \<longrightarrow>
      (PublishPath parse dir url' = Inr path \<longleftrightarrow>
       lu_Host u' = lu_Host u \<and> trim_slashes (lu_Path u') = trim_slashes (lu_Path u)))"
proof -
  let ?ws = "\<lambda>u. lu_Host u # Split CHR ''/'' (trim_slashes (lu_Path u))"
  have ok: "list_all safe_part (?ws v) \<and> list_all host_char (lu_Host v) \<and>
      PublishPath parse dir r = Inr (render_path (rooted dir) (dir_parts dir @ ?ws v))"
    if h: "is_ok (PublishPath parse dir r)" "parse r = Some v" for r v
  proof -
    from h have v: "is_ok (Validate (lu_Host v))"
      and c: "is_ok (check_list_segments (Split CHR ''/'' (trim_slashes (lu_Path v))))"
      and p: "PublishPath parse dir r = Inr (filepath_Join (dir # ?ws v))"
      by (auto simp: PublishPath_def Let_def split: if_splits sum.splits)
    have "safe_part (lu_Host v)"
      using Validate_ok [OF v]
      by (fastforce simp: safe_part_def list_all_iff host_char_def isHostByte_def is_digit_def)
    with c have s: "list_all safe_part (?ws v)"
      by (auto simp: check_list_segments_ok list_all_iff safe_part_def dest: Split_no_sep)
    from filepath_Join_safe [OF s, of dir] p s Validate_ok(1) [OF v] show ?thesis by simp
  qed
  have inj: "?ws u' = ?ws u \<longleftrightarrow> lu_Host u' = lu_Host u \<and> trim_slashes (lu_Path u') = trim_slashes (lu_Path u)"
    for u' using Join_Split [of "CHR ''/''"] by (metis list.inject)
  have "PublishPath parse dir r = Inr path \<longleftrightarrow> ?ws v = ?ws u"
    if "is_ok (PublishPath parse dir r)" "parse r = Some v" for r v
    using ok [OF that] ok [of url u] assms
      render_path_inject [of "?ws v" "?ws u" "rooted dir" "dir_parts dir"] by auto
  with ok [of url u] assms inj show ?thesis by (auto simp: Let_def)
qed

definition sample_list_url :: list_url where
  "sample_list_url = \<lparr>lu_Scheme = ''https'', lu_Host = ''a.example'', lu_User = False, lu_RawQuery = [],
     lu_ForceQuery = False, lu_Fragment = [], lu_Path = ''/status/1.json''\<rparr>"

theorem PublishPath_contained_witness:
  "let ws = lu_Host sample_list_url # Split CHR ''/'' (trim_slashes (lu_Path sample_list_url)) in
    list_all safe_part ws \<and> list_all host_char (lu_Host sample_list_url) \<and>
    ''/pub/a.example/status/1.json'' = render_path (rooted ''/pub'') (dir_parts ''/pub'' @ ws) \<and>
    (\<forall>url' u'. Some sample_list_url = Some u' \<and> is_ok (PublishPath (\<lambda>_. Some sample_list_url) ''/pub'' url') \<longrightarrow>
      (PublishPath (\<lambda>_. Some sample_list_url) ''/pub'' url' = Inr ''/pub/a.example/status/1.json'' \<longleftrightarrow>
       lu_Host u' = lu_Host sample_list_url \<and> trim_slashes (lu_Path u') = trim_slashes (lu_Path sample_list_url)))"
  by (rule PublishPath_contained [where parse = "\<lambda>_. Some sample_list_url" and url = "[]"]) code_simp+

lemma Status_Publish_Load_aux:
  assumes "Status_Publish parse mkdir enc writable l dir url files = (Inr path, files')"
    and "\<And>p. dec (enc p) = Some p"
  shows "PublishPath parse dir url = Inr path \<and> Status_Load dec files' path = Inr l \<and>
    sl_Signature l \<noteq> [] \<and> (\<forall>other. other \<noteq> path \<longrightarrow> files' other = files other)"
proof -
  from assms(1) obtain p where p: "PublishPath parse dir url = Inr path" "Status_Marshal l = Inr p"
    and f: "files' = files(path \<mapsto> enc p)"
    by (auto simp: Status_Publish_def Status_Save_def split: sum.splits if_splits prod.splits)
  from p(2) have s: "sl_Signature l \<noteq> []" by (auto simp: Status_Marshal_def)
  from Status_Marshal_Parse [OF s] p(2) have "Status_Parse p = Inr l" by simp
  with p(1) f s assms(2) show ?thesis by (simp add: Status_Load_def)
qed

text \<open>
  Publishing a signed list makes exactly it loadable at the path of its URL, leaves every
  other file alone, and is refused for an unsigned list; a refusal changes no file.
\<close>

theorem Status_Publish_Load:
  assumes "Status_Publish parse mkdir enc writable l dir url files = (r, files')"
    and "\<And>p. dec (enc p) = Some p"
  shows "case r of
      Inr path \<Rightarrow> PublishPath parse dir url = Inr path \<and> Status_Load dec files' path = Inr l \<and>
        sl_Signature l \<noteq> [] \<and> (\<forall>other. other \<noteq> path \<longrightarrow> files' other = files other)
    | Inl _ \<Rightarrow> files' = files"
proof (cases r)
  case (Inl e)
  with assms(1) show ?thesis
    by (auto simp: Status_Publish_def Status_Save_def split: sum.splits if_splits prod.splits)
next
  case (Inr path)
  with assms Status_Publish_Load_aux [of parse mkdir enc writable l dir url files path files' dec] show ?thesis by simp
qed

definition sample_list :: StatusList where
  "sample_list = \<lparr>sl_Issuer = ''did:web:a.example'', sl_Purpose = PurposeRevocation, sl_Bits = [], sl_Signature = ''s''\<rparr>"

text \<open>A stand-in encoding of the published form, one field per unary-framed block.\<close>

definition frame :: "string \<Rightarrow> bytes" where
  "frame s = replicate (length s) CHR ''1'' @ CHR ''0'' # s"

definition unframe :: "bytes \<Rightarrow> string \<times> bytes" where
  "unframe b =
     (let n = length (takeWhile (\<lambda>c. c = CHR ''1'') b); r = drop (Suc n) b in (take n r, drop n r))"

definition enc_frames :: "published \<Rightarrow> bytes" where
  "enc_frames p = frame (pb_Issuer p) @ frame (pb_Purpose p) @ frame (pb_Encoding p) @
     frame (pb_Bitstring p) @ frame (pb_Signature p)"

definition dec_frames :: "bytes \<Rightarrow> published option" where
  "dec_frames b0 =
     (let (i, b1) = unframe b0; (u, b2) = unframe b1; (e, b3) = unframe b2; (s, b4) = unframe b3;
          (g, _) = unframe b4
      in Some \<lparr>pb_Issuer = i, pb_Purpose = u, pb_Encoding = e, pb_Bitstring = s, pb_Signature = g\<rparr>)"

lemma unframe_frame: "unframe (frame s @ b) = (s, b)"
  by (simp add: unframe_def frame_def Let_def takeWhile_append)

lemma dec_enc_frames: "dec_frames (enc_frames p) = Some p"
  using unframe_frame [of "pb_Signature p" "[]"]
  by (simp add: dec_frames_def enc_frames_def unframe_frame)

theorem Status_Publish_Load_witness:
  "\<exists>files'. Status_Load dec_frames files' ''/pub/a.example/status/1.json'' = Inr sample_list"
proof -
  have p: "PublishPath (\<lambda>_. Some sample_list_url) ''/pub'' [] = Inr ''/pub/a.example/status/1.json''" by code_simp
  have "\<exists>m. Status_Marshal sample_list = Inr m" by (simp add: Status_Marshal_def sample_list_def)
  then obtain files' where "Status_Publish (\<lambda>_. Some sample_list_url) (\<lambda>_. True) enc_frames (\<lambda>_. True) sample_list
      ''/pub'' [] Map.empty = (Inr ''/pub/a.example/status/1.json'', files')"
    using p by (auto simp: Status_Publish_def Status_Save_def)
  from Status_Publish_Load [OF this dec_enc_frames] show ?thesis by auto
qed

end
