(* ===== verification/Http_Api.thy ===== *)
theory Http_Api
  imports Proxy_Correct Did_Web
begin

text \<open>
  The HTTP listener of \<^verbatim>\<open>internal/enforce\<close>: the ingress guards of \<^verbatim>\<open>ingress.go\<close> and the handler
  and client of \<^verbatim>\<open>http.go\<close>.  The decoders of JSON, URLs and media types are gathered in the
  record \<open>wire\<close>; \<^verbatim>\<open>net.ParseIP\<close> is written out.  The lemmas show that only a guarded, decoded
  request reaches the chokepoint and that the client gets back exactly its decision.
\<close>

section \<open>Requests and replies\<close>

text \<open>
  \<open>hr_Header\<close> is \<^verbatim>\<open>Header.Values\<close>; \<open>hr_Body\<close> the bytes the body yields before it ends or, with
  \<open>hr_ReadErr\<close>, before reading fails; \<open>hr_Path\<close> the path after the multiplexer cleaned it.
\<close>

record http_request =
  hr_Method :: string
  hr_Path :: string
  hr_Header :: "string \<Rightarrow> string list"
  hr_Body :: bytes
  hr_ReadErr :: "string option"

datatype http_body =
    ErrorText string
  | ResultJSON Decision Entry
  | TipJSON u64 bytes
  | ExportData bytes

record http_response =
  rp_Status :: int
  rp_Body :: http_body

text \<open>
  What a streaming decoder makes of the bytes read so far: a first complete value, the need
  for more (with the error if there is none), or an error.
\<close>

datatype 'a decoded = Complete 'a | Incomplete string | Malformed string

record wire =
  wi_url :: "string \<Rightarrow> (string \<times> string) option"
  wi_media :: "string \<Rightarrow> string option"
  wi_Request :: "bytes \<Rightarrow> Request decoded"
  wi_export :: "Export \<Rightarrow> string + bytes"
  wi_handle_err :: "handle_err \<Rightarrow> string"
  wi_export_err :: "export_err \<Rightarrow> string"

definition maxRequestBody :: nat where "maxRequestBody = 2 ^ 20"

section \<open>Loopback addresses\<close>

text \<open>The sixteen bytes of a textual address that \<^verbatim>\<open>ParseAddr\<close> accepts.\<close>

definition octets :: "string \<Rightarrow> nat list" where
  "octets s = map digits_value (Split CHR ''.'' s)"

definition hex_group :: "string \<Rightarrow> nat list" where
  "hex_group s =
     (if CHR ''.'' \<in> set s then octets s
      else let v = foldl (\<lambda>n c. n * 16 + hex_value c) 0 s in [v div 256, v mod 256])"

definition hex_groups :: "string \<Rightarrow> nat list" where
  "hex_groups s = (if s = [] then [] else concat (map hex_group (Split CHR '':'' s)))"

fun split_ellipsis :: "string \<Rightarrow> (string \<times> string) option" where
  "split_ellipsis [] = None"
| "split_ellipsis (c # s) =
     (if HasPrefix (c # s) ''::'' then Some ([], drop 1 s)
      else map_option (\<lambda>(l, r). (c # l, r)) (split_ellipsis s))"

definition As16 :: "string \<Rightarrow> nat list" where
  "As16 s =
     (if CHR '':'' \<notin> set s then replicate 10 0 @ [255, 255] @ octets s
      else case split_ellipsis s of
          None \<Rightarrow> hex_groups s
        | Some (l, r) \<Rightarrow>
            let a = hex_groups l; b = hex_groups r in a @ replicate (16 - (length a + length b)) 0 @ b)"

definition IsLoopback :: "nat list \<Rightarrow> bool" where
  "IsLoopback b \<longleftrightarrow>
     (if take 12 b = replicate 10 0 @ [255, 255] then b ! 12 = 127 else b = replicate 15 0 @ [1])"

definition isLoopbackHost :: "string \<Rightarrow> bool" where
  "isLoopbackHost host \<longleftrightarrow>
     (host = ''localhost'' \<or>
      (case ParseAddr host of
         None \<Rightarrow> False
       | Some a \<Rightarrow> ip_Zone a = [] \<and> IsLoopback (As16 host)))"

section \<open>Ingress guards\<close>

definition originAllowed :: "wire \<Rightarrow> http_request \<Rightarrow> bool" where
  "originAllowed W r =
     (case hr_Header r ''Origin'' of
        [] \<Rightarrow> True
      | [o1] \<Rightarrow>
          (case wi_url W o1 of
             None \<Rightarrow> False
           | Some (host, hostname) \<Rightarrow> host \<noteq> [] \<and> isLoopbackHost hostname)
      | _ \<Rightarrow> False)"

text \<open>\<^verbatim>\<open>Header.Get\<close>: the first value, or the empty text.\<close>

definition header_get :: "http_request \<Rightarrow> string \<Rightarrow> string" where
  "header_get r name = (case hr_Header r name of [] \<Rightarrow> [] | v # _ \<Rightarrow> v)"

definition hasJSONContentType :: "wire \<Rightarrow> http_request \<Rightarrow> bool" where
  "hasJSONContentType W r \<longleftrightarrow>
     (let ct = header_get r ''Content-Type'' in ct \<noteq> [] \<and> wi_media W ct = Some ''application/json'')"

definition text_reply :: "int \<Rightarrow> string \<Rightarrow> http_response" where
  "text_reply st msg = \<lparr>rp_Status = st, rp_Body = ErrorText msg\<rparr>"

text \<open>\<open>None\<close> lets the request proceed, otherwise the refusal is the reply.\<close>

definition checkIngress :: "wire \<Rightarrow> http_request \<Rightarrow> bool \<Rightarrow> http_response option" where
  "checkIngress W r bodyExpected =
     (if \<not> originAllowed W r then
        Some (text_reply 403 ''forbidden: cross-origin request to a local enforcement endpoint'')
      else if bodyExpected \<and> \<not> hasJSONContentType W r then
        Some (text_reply 415 ''unsupported media type: this endpoint accepts application/json'')
      else None)"

text \<open>Value, whether the header is present, and whether it is repeated.\<close>

definition singleHeader :: "http_request \<Rightarrow> string \<Rightarrow> string \<times> bool \<times> bool" where
  "singleHeader r name =
     (case hr_Header r name of
        [] \<Rightarrow> ([], False, False)
      | [v] \<Rightarrow> (v, True, False)
      | _ \<Rightarrow> ([], True, True))"

section \<open>The handler\<close>

definition read_request :: "wire \<Rightarrow> http_request \<Rightarrow> http_response + Request" where
  "read_request W r =
     (case wi_Request W (take maxRequestBody (hr_Body r)) of
        Complete req \<Rightarrow> Inr req
      | Malformed msg \<Rightarrow> Inl (text_reply 400 (''bad request: '' @ msg))
      | Incomplete msg \<Rightarrow>
          if length (hr_Body r) > maxRequestBody then Inl (text_reply 413 ''request body too large'')
          else Inl (text_reply 400 (''bad request: '' @
                 (case hr_ReadErr r of None \<Rightarrow> msg | Some e \<Rightarrow> e))))"

definition serve_enforce ::
  "crypto \<Rightarrow> (string \<Rightarrow> string) \<Rightarrow> wording \<Rightarrow> wire \<Rightarrow> gotime \<Rightarrow> disk \<Rightarrow> http_request \<Rightarrow> Proxy \<Rightarrow> http_response \<times> Proxy" where
  "serve_enforce C q T W now d r p =
     (case checkIngress W r True of
        Some refusal \<Rightarrow> (refusal, p)
      | None \<Rightarrow>
          (case read_request W r of
             Inl reply \<Rightarrow> (reply, p)
           | Inr req \<Rightarrow>
               (case Handle C q T now d req p of
                  (Inl e, p') \<Rightarrow> (text_reply 422 (wi_handle_err W e), p')
                | (Inr (dec, entry), p') \<Rightarrow> (\<lparr>rp_Status = 200, rp_Body = ResultJSON dec entry\<rparr>, p'))))"

definition serve_tip :: "wire \<Rightarrow> http_request \<Rightarrow> Proxy \<Rightarrow> http_response" where
  "serve_tip W r p =
     (case checkIngress W r False of
        Some refusal \<Rightarrow> refusal
      | None \<Rightarrow> (case Proxy_Tip p of (seq, prev) \<Rightarrow> \<lparr>rp_Status = 200, rp_Body = TipJSON seq prev\<rparr>))"

definition serve_export :: "crypto \<Rightarrow> wire \<Rightarrow> http_request \<Rightarrow> Proxy \<Rightarrow> http_response" where
  "serve_export C W r p =
     (case checkIngress W r False of
        Some refusal \<Rightarrow> refusal
      | None \<Rightarrow>
          (case Proxy_Export C p of
             Inl e \<Rightarrow> text_reply 500 (wi_export_err W e)
           | Inr ex \<Rightarrow>
               (case wi_export W ex of
                  Inl msg \<Rightarrow> text_reply 500 msg
                | Inr data \<Rightarrow> \<lparr>rp_Status = 200, rp_Body = ExportData data\<rparr>)))"

text \<open>The multiplexer: a \<^verbatim>\<open>GET\<close> pattern also serves \<^verbatim>\<open>HEAD\<close>.\<close>

definition Handler ::
  "crypto \<Rightarrow> (string \<Rightarrow> string) \<Rightarrow> wording \<Rightarrow> wire \<Rightarrow> gotime \<Rightarrow> disk \<Rightarrow> http_request \<Rightarrow> Proxy \<Rightarrow> http_response \<times> Proxy" where
  "Handler C q T W now d r p =
     (let get = (hr_Method r = ''GET'' \<or> hr_Method r = ''HEAD'') in
      if hr_Path r = ''/enforce'' \<and> hr_Method r = ''POST'' then serve_enforce C q T W now d r p
      else if hr_Path r = ''/tip'' \<and> get then (serve_tip W r p, p)
      else if hr_Path r = ''/export'' \<and> get then (serve_export C W r p, p)
      else if hr_Path r \<in> {''/enforce'', ''/tip'', ''/export''} then (text_reply 405 ''Method Not Allowed'', p)
      else (text_reply 404 ''404 page not found'', p))"

section \<open>The client\<close>

datatype submit_err =
    MarshalRequest string
  | PostFailed string
  | DecodeResult string
  | ErrRejected string
  | ProxyReturned int string

definition trimmed :: "bytes \<Rightarrow> string" where
  "trimmed b = rev (dropWhile (\<lambda>c. ord c = 10 \<or> ord c = 32) (rev b))"

text \<open>
  \<open>marshal\<close> and \<open>unmarshal\<close> are the JSON encoder and decoder, \<open>post\<close> sends a body of a content
  type to a URL and yields the status and the body of the answer.
\<close>

definition Submit ::
  "(Request \<Rightarrow> string + bytes) \<Rightarrow> (bytes \<Rightarrow> string + Decision \<times> Entry) \<Rightarrow>
   (string \<Rightarrow> string \<Rightarrow> bytes \<Rightarrow> string + int \<times> bytes) \<Rightarrow> string \<Rightarrow> Request \<Rightarrow> submit_err + Decision \<times> Entry" where
  "Submit marshal unmarshal post baseURL req =
     (case marshal req of
        Inl e \<Rightarrow> Inl (MarshalRequest e)
      | Inr body \<Rightarrow>
          (case post (baseURL @ ''/enforce'') ''application/json'' body of
             Inl e \<Rightarrow> Inl (PostFailed e)
           | Inr (st, respBody) \<Rightarrow>
               if st = 200 then
                 (case unmarshal respBody of Inl e \<Rightarrow> Inl (DecodeResult e) | Inr res \<Rightarrow> Inr res)
               else if st = 422 then Inl (ErrRejected (trimmed respBody))
               else Inl (ProxyReturned st (trimmed respBody))))"

definition FetchTip ::
  "(bytes \<Rightarrow> string + u64 \<times> bytes) \<Rightarrow> (string \<Rightarrow> string + int \<times> bytes) \<Rightarrow> string \<Rightarrow> submit_err + u64 \<times> bytes" where
  "FetchTip unmarshal get baseURL =
     (case get (baseURL @ ''/tip'') of
        Inl e \<Rightarrow> Inl (PostFailed e)
      | Inr (st, body) \<Rightarrow>
          if st \<noteq> 200 then Inl (ProxyReturned st (trimmed body))
          else (case unmarshal body of Inl e \<Rightarrow> Inl (DecodeResult e) | Inr tip \<Rightarrow> Inr tip))"

section \<open>Only guarded requests reach the chokepoint\<close>

lemma checkIngress_pass:
  "checkIngress W r b = None \<longleftrightarrow> originAllowed W r \<and> (b \<longrightarrow> hasJSONContentType W r)"
  by (simp add: checkIngress_def)

lemma checkIngress_refusal:
  "checkIngress W r b = Some reply \<Longrightarrow> rp_Status reply \<noteq> 200 \<and> (\<exists>msg. rp_Body reply = ErrorText msg)"
  by (auto simp: checkIngress_def text_reply_def split: if_splits)

lemma Handler_cases:
  assumes "Handler C q T W now d r p = (reply, p')"
  shows "(p' = p \<and> (\<forall>dec e. rp_Body reply \<noteq> ResultJSON dec e)) \<or>
    (\<exists>req res. hr_Method r = ''POST'' \<and> hr_Path r = ''/enforce'' \<and>
      originAllowed W r \<and> hasJSONContentType W r \<and>
      wi_Request W (take maxRequestBody (hr_Body r)) = Complete req \<and>
      Handle C q T now d req p = (res, p') \<and>
      reply = (case res of
          Inl e \<Rightarrow> text_reply 422 (wi_handle_err W e)
        | Inr (dec, entry) \<Rightarrow> \<lparr>rp_Status = 200, rp_Body = ResultJSON dec entry\<rparr>))"
proof (cases "hr_Path r = ''/enforce'' \<and> hr_Method r = ''POST''")
  case False
  then have "p' = p \<and> (\<forall>dec e. rp_Body reply \<noteq> ResultJSON dec e)"
    using assms
    by (auto simp: Handler_def Let_def serve_tip_def serve_export_def text_reply_def
        dest: checkIngress_refusal split: if_splits option.splits sum.splits prod.splits)
  then show ?thesis ..
next
  case True
  then have s: "serve_enforce C q T W now d r p = (reply, p')" using assms by (simp add: Handler_def)
  show ?thesis
  proof (cases "checkIngress W r True")
    case (Some a)
    with s show ?thesis by (auto simp: serve_enforce_def dest: checkIngress_refusal)
  next
    case None
    show ?thesis
    proof (cases "read_request W r")
      case (Inl a)
      with s None show ?thesis
        by (auto simp: serve_enforce_def read_request_def text_reply_def split: decoded.splits if_splits)
    next
      case (Inr req)
      then have "wi_Request W (take maxRequestBody (hr_Body r)) = Complete req"
        by (auto simp: read_request_def split: decoded.splits if_splits)
      moreover obtain res where "Handle C q T now d req p = (res, p')"
        and "reply = (case res of
          Inl e \<Rightarrow> text_reply 422 (wi_handle_err W e)
        | Inr (dec, entry) \<Rightarrow> \<lparr>rp_Status = 200, rp_Body = ResultJSON dec entry\<rparr>)"
        using s None Inr
        by (auto simp: serve_enforce_def split: sum.splits prod.splits)
      ultimately show ?thesis using None True by (auto simp: checkIngress_pass)
    qed
  qed
qed

text \<open>
  C10. The HTTP listener changes the proxy, or reports a decision, only by one call of \<^verbatim>\<open>Handle\<close> on
  the decoded body of a \<^verbatim>\<open>POST /enforce\<close> that passed both ingress guards: no \<^verbatim>\<open>Origin\<close> or exactly
  one naming a loopback host, and a JSON content type.  The reply is then 200 with exactly
  the decision and the entry, or 422 with the error and no decision.
\<close>

theorem Handler_guarded:
  assumes "Handler C q T W now d r p = (reply, p')"
  shows "(p' = p \<and> (\<forall>dec e. rp_Body reply \<noteq> ResultJSON dec e)) \<or>
    (\<exists>req res. hr_Method r = ''POST'' \<and> hr_Path r = ''/enforce'' \<and>
      originAllowed W r \<and> hasJSONContentType W r \<and>
      wi_Request W (take maxRequestBody (hr_Body r)) = Complete req \<and>
      Handle C q T now d req p = (res, p') \<and>
      reply = (case res of
          Inl e \<Rightarrow> text_reply 422 (wi_handle_err W e)
        | Inr (dec, entry) \<Rightarrow> \<lparr>rp_Status = 200, rp_Body = ResultJSON dec entry\<rparr>))"
  by (rule Handler_cases [OF assms])

text \<open>Decoders that read the given request from any body.\<close>

definition sample_wire :: "Request \<Rightarrow> wire" where
  "sample_wire req =
     \<lparr>wi_url = (\<lambda>_. Some (''localhost:3000'', ''localhost'')), wi_media = Some, wi_Request = (\<lambda>_. Complete req),
      wi_export = (\<lambda>_. Inr []), wi_handle_err = (\<lambda>_. ''rejected''), wi_export_err = (\<lambda>_. [])\<rparr>"

text \<open>The request the client's \<^verbatim>\<open>Post\<close> makes: no \<^verbatim>\<open>Origin\<close>, one content type.\<close>

definition posted :: "string \<Rightarrow> bytes \<Rightarrow> http_request" where
  "posted ct body =
     \<lparr>hr_Method = ''POST'', hr_Path = ''/enforce'',
      hr_Header = (\<lambda>n. if n = ''Content-Type'' then [ct] else []), hr_Body = body, hr_ReadErr = None\<rparr>"

theorem Handler_guarded_witness:
  "\<exists>req dec en p'.
     Handler toy_crypto id plain_wording (sample_wire req) sample_time DiskOk (posted ''application/json'' [])
       (sample_proxy None) = (\<lparr>rp_Status = 200, rp_Body = ResultJSON dec en\<rparr>, p') \<and>
     (\<exists>req'. Handle toy_crypto id plain_wording sample_time DiskOk req' (sample_proxy None) = (Inr (dec, en), p'))"
proof -
  obtain req e p' where h: "Handle toy_crypto id plain_wording sample_time DiskOk req (sample_proxy None) = (Inr e, p')"
    using sample_answered [of "[]" None "[]"] by auto
  obtain dec en where e: "e = (dec, en)" by (cases e)
  have hd: "Handler toy_crypto id plain_wording (sample_wire req) sample_time DiskOk (posted ''application/json'' [])
      (sample_proxy None) = (\<lparr>rp_Status = 200, rp_Body = ResultJSON dec en\<rparr>, p')"
    using h e
    by (simp add: Handler_def serve_enforce_def posted_def checkIngress_def originAllowed_def hasJSONContentType_def
        header_get_def sample_wire_def read_request_def)
  from Handler_guarded [OF this] obtain req' res where
    hr: "Handle toy_crypto id plain_wording sample_time DiskOk req' (sample_proxy None) = (res, p')"
    "\<lparr>rp_Status = 200, rp_Body = ResultJSON dec en\<rparr> = (case res of
       Inl e \<Rightarrow> text_reply 422 (wi_handle_err (sample_wire req) e)
     | Inr (dec, entry) \<Rightarrow> \<lparr>rp_Status = 200, rp_Body = ResultJSON dec entry\<rparr>)"
    by auto
  from hr(2) have "res = Inr (dec, en)" by (cases res) (auto simp: text_reply_def split: prod.splits)
  with hd hr(1) show ?thesis by blast
qed

section \<open>The client sees the decision\<close>

text \<open>The bytes of a reply; \<^verbatim>\<open>http.Error\<close> and the JSON encoder end them with a newline.\<close>

definition reply_bytes :: "(Decision \<Rightarrow> Entry \<Rightarrow> bytes) \<Rightarrow> http_body \<Rightarrow> bytes" where
  "reply_bytes enc b =
     (case b of
        ErrorText msg \<Rightarrow> msg @ [char_of (10 :: nat)]
      | ResultJSON dec e \<Rightarrow> enc dec e @ [char_of (10 :: nat)]
      | _ \<Rightarrow> [])"

lemma trimmed_newline: "msg \<noteq> [] \<Longrightarrow> ord (last msg) \<notin> {10, 32} \<Longrightarrow> trimmed (msg @ [char_of (10 :: nat)]) = msg"
  by (cases msg rule: rev_cases) (auto simp: trimmed_def)

lemma submit_answers:
  assumes "marshal req = Inr body" and "length body \<le> maxRequestBody"
    and "wi_Request W body = Complete req" and "wi_media W ''application/json'' = Some ''application/json''"
    and "\<And>dec e. fst (Handle C q T now d req p) = Inr (dec, e) \<Longrightarrow> unmarshal (enc dec e @ [char_of (10 :: nat)]) = Inr (dec, e)"
    and "\<And>e. wi_handle_err W e \<noteq> [] \<and> ord (last (wi_handle_err W e)) \<notin> {10, 32}"
    and "\<And>url ct b. post url ct b =
      (let reply = fst (Handler C q T W now d (posted ct b) p) in Inr (rp_Status reply, reply_bytes enc (rp_Body reply)))"
  shows "Submit marshal unmarshal post baseURL req =
      map_sum (\<lambda>e. ErrRejected (wi_handle_err W e)) id (fst (Handle C q T now d req p)) \<and>
    snd (Handler C q T W now d (posted ''application/json'' body) p) = snd (Handle C q T now d req p)"
proof -
  let ?r = "posted ''application/json'' body"
  have "checkIngress W ?r True = None"
    using assms(4) by (simp add: checkIngress_pass originAllowed_def hasJSONContentType_def header_get_def posted_def)
  moreover have "read_request W ?r = Inr req"
    using assms(2,3) by (simp add: read_request_def posted_def)
  ultimately have h: "Handler C q T W now d ?r p =
      (case Handle C q T now d req p of
         (Inl e, p') \<Rightarrow> (text_reply 422 (wi_handle_err W e), p')
       | (Inr (dec, entry), p') \<Rightarrow> (\<lparr>rp_Status = 200, rp_Body = ResultJSON dec entry\<rparr>, p'))"
    by (simp add: Handler_def serve_enforce_def posted_def)
  show ?thesis
    using assms(1,5,6,7) h
    by (auto simp: Submit_def Let_def text_reply_def reply_bytes_def trimmed_newline
        split: prod.splits sum.splits)
qed



end
