(* ===== verification/Mcp.thy ===== *)
theory Mcp
  imports Http_Api
begin

text \<open>
  The MCP listener of \<^verbatim>\<open>internal/enforce/mcp.go\<close>: JSON-RPC over HTTP in front of the same proxy.
  The JSON decoders are arguments, gathered in \<open>mcp_wire\<close>.  The lemmas show which requests
  reach the chokepoint, that headers and body agree on all of them, when the handler
  panics, and that both listeners together keep the proxy's invariants.
\<close>

section \<open>Constants and messages\<close>

definition mcpProtocolVersion :: string where "mcpProtocolVersion = ''2026-07-28''"
definition toolTip :: string where "toolTip = ''kessa/tip''"
definition toolEnforce :: string where "toolEnforce = ''kessa/enforce''"
definition hdrMCPProtocolVersion :: string where "hdrMCPProtocolVersion = ''MCP-Protocol-Version''"
definition hdrMCPMethod :: string where "hdrMCPMethod = ''Mcp-Method''"
definition hdrMCPName :: string where "hdrMCPName = ''Mcp-Name''"
definition metaProtocolVersion :: string where
  "metaProtocolVersion = ''io.modelcontextprotocol/protocolVersion''"
definition metaClientCapabilities :: string where
  "metaClientCapabilities = ''io.modelcontextprotocol/clientCapabilities''"
definition b64Prefix :: string where "b64Prefix = ''=?base64?''"
definition b64Suffix :: string where "b64Suffix = ''?=''"

definition rpcParseError :: int where "rpcParseError = -32700"
definition rpcInvalidRequest :: int where "rpcInvalidRequest = -32600"
definition rpcMethodNotFound :: int where "rpcMethodNotFound = -32601"
definition rpcInvalidParams :: int where "rpcInvalidParams = -32602"
definition rpcHeaderMismatch :: int where "rpcHeaderMismatch = -32020"
definition rpcUnsupportedProtocolVersion :: int where "rpcUnsupportedProtocolVersion = -32022"

definition server_version :: string where "server_version = ''0.2.0''"

text \<open>A raw JSON message is its bytes; an absent one is empty.\<close>

record rpcRequest =
  rpc_JSONRPC :: string
  rpc_ID :: bytes
  rpc_Method :: string
  rpc_Params :: bytes

definition isNotification :: "rpcRequest \<Rightarrow> bool" where
  "isNotification r \<longleftrightarrow> rpc_ID r = []"

record rpcError =
  re_Code :: int
  re_Message :: string
  re_Supported :: "string list option"

datatype tool_payload = TipPayload u64 bytes | ResultPayload Decision Entry

record toolSpec =
  ts_Name :: string
  ts_Description :: string
  ts_InputSchema :: string

record toolResult =
  tr_Text :: string
  tr_Structured :: "tool_payload option"
  tr_IsError :: bool

datatype rpc_value = Pong | ToolList "toolSpec list" | ToolReply toolResult

text \<open>A result object with the protocol fields \<^verbatim>\<open>resultType\<close> and the server's name and version.\<close>

record rpcResult =
  ro_Value :: rpc_value
  ro_ResultType :: string
  ro_Server :: "string \<times> string"

record rpcResponse =
  rr_ID :: bytes
  rr_Result :: "rpcResult option"
  rr_Error :: "rpcError option"

datatype mcp_body = PlainText string | RPC rpcResponse | NoBody

text \<open>A reply, or a panic, which the HTTP server turns into a dropped connection.\<close>

datatype served = Reply int mcp_body | Panicked

record mcp_wire =
  wm_wire :: wire
  wm_rpc :: "bytes \<Rightarrow> string + rpcRequest"
  wm_meta :: "bytes \<Rightarrow> string + (string \<rightharpoonup> bytes)"
  wm_object :: "bytes \<Rightarrow> bool"
  wm_string :: "bytes \<Rightarrow> string option"
  wm_call :: "bytes \<Rightarrow> string + string \<times> bytes"
  wm_args :: "bytes \<Rightarrow> string + Request"
  wm_text :: "tool_payload \<Rightarrow> string"
  wm_b64err :: "string \<Rightarrow> string"

section \<open>Writers\<close>

definition idOrNull :: "bytes \<Rightarrow> bytes" where
  "idOrNull i = (if i = [] then ''null'' else i)"

definition writeRPCErrorData :: "bytes \<Rightarrow> int \<Rightarrow> int \<Rightarrow> string \<Rightarrow> string list option \<Rightarrow> served" where
  "writeRPCErrorData i st code msg data =
     Reply st (RPC \<lparr>rr_ID = idOrNull i, rr_Result = None,
       rr_Error = Some \<lparr>re_Code = code, re_Message = msg, re_Supported = data\<rparr>\<rparr>)"

definition writeRPCErrorStatus :: "bytes \<Rightarrow> int \<Rightarrow> int \<Rightarrow> string \<Rightarrow> served" where
  "writeRPCErrorStatus i st code msg = writeRPCErrorData i st code msg None"

definition writeRPCError :: "bytes \<Rightarrow> int \<Rightarrow> string \<Rightarrow> served" where
  "writeRPCError i code msg = writeRPCErrorStatus i 200 code msg"

definition writeHeaderMismatch :: "bytes \<Rightarrow> string \<Rightarrow> served" where
  "writeHeaderMismatch i msg = writeRPCErrorStatus i 400 rpcHeaderMismatch (''header mismatch: '' @ msg)"

definition writeRPCResult :: "bytes \<Rightarrow> rpc_value \<Rightarrow> served" where
  "writeRPCResult i v =
     Reply 200 (RPC \<lparr>rr_ID = idOrNull i,
       rr_Result = Some \<lparr>ro_Value = v, ro_ResultType = ''complete'', ro_Server = (''kessa-proxy'', server_version)\<rparr>,
       rr_Error = None\<rparr>)"

definition writeToolResult :: "mcp_wire \<Rightarrow> bytes \<Rightarrow> tool_payload \<Rightarrow> bool \<Rightarrow> served" where
  "writeToolResult M i v isError =
     writeRPCResult i (ToolReply \<lparr>tr_Text = wm_text M v, tr_Structured = Some v, tr_IsError = isError\<rparr>)"

definition writeToolError :: "bytes \<Rightarrow> string \<Rightarrow> served" where
  "writeToolError i msg =
     writeRPCResult i (ToolReply \<lparr>tr_Text = msg, tr_Structured = None, tr_IsError = True\<rparr>)"

section \<open>Validation\<close>

definition requireSingleHeader :: "http_request \<Rightarrow> bytes \<Rightarrow> string \<Rightarrow> served + string" where
  "requireSingleHeader r i name =
     (case singleHeader r name of
        (v, present, duplicated) \<Rightarrow>
          if duplicated then Inl (writeHeaderMismatch i (''header '' @ name @ '' appears more than once''))
          else if \<not> present then Inl (writeHeaderMismatch i (''missing required '' @ name @ '' header''))
          else Inr v)"

definition metaIsObject :: "mcp_wire \<Rightarrow> (string \<rightharpoonup> bytes) \<Rightarrow> string \<Rightarrow> bool" where
  "metaIsObject M meta key = (case meta key of None \<Rightarrow> False | Some raw \<Rightarrow> wm_object M raw)"

definition metaString :: "mcp_wire \<Rightarrow> (string \<rightharpoonup> bytes) \<Rightarrow> string \<Rightarrow> string option" where
  "metaString M meta key =
     (case meta key of
        None \<Rightarrow> None
      | Some raw \<Rightarrow> (case wm_string M raw of None \<Rightarrow> None | Some s \<Rightarrow> if s = [] then None else Some s))"

text \<open>Standard base64 with padding.\<close>

definition StdDecode :: "string \<Rightarrow> bytes option" where
  "StdDecode s =
     (let t = filter not_newline s; n = length t in
      if n mod 4 \<noteq> 0 then None
      else if n \<ge> 4 \<and> drop (n - 2) t = ''=='' then b64_decode_raw StdAlphabet (take (n - 2) t)
      else if n \<ge> 4 \<and> drop (n - 1) t = ''='' then b64_decode_raw StdAlphabet (take (n - 1) t)
      else b64_decode_raw StdAlphabet t)"

text \<open>\<open>None\<close> is the panic of the slice expression when its bounds cross.\<close>

definition decodeHeaderValue :: "mcp_wire \<Rightarrow> string \<Rightarrow> (string + string) option" where
  "decodeHeaderValue M v =
     (if \<not> HasPrefix v b64Prefix \<or> \<not> HasSuffix v b64Suffix then Some (Inr v)
      else if length v < length b64Prefix + length b64Suffix then None
      else let enc = drop (length b64Prefix) (take (length v - length b64Suffix) v) in
        case StdDecode enc of
          None \<Rightarrow> Some (Inl (wm_b64err M enc))
        | Some raw \<Rightarrow> Some (Inr raw))"

definition validateRequestMetadata ::
  "(string \<Rightarrow> string) \<Rightarrow> mcp_wire \<Rightarrow> http_request \<Rightarrow> rpcRequest \<Rightarrow> served + unit" where
  "validateRequestMetadata q M r req =
     (let i = rpc_ID req in
      case requireSingleHeader r i hdrMCPProtocolVersion of
        Inl e \<Rightarrow> Inl e
      | Inr hdrVersion \<Rightarrow>
      (case requireSingleHeader r i hdrMCPMethod of
        Inl e \<Rightarrow> Inl e
      | Inr hdrMethod \<Rightarrow>
        if hdrMethod \<noteq> rpc_Method req then
          Inl (writeHeaderMismatch i (hdrMCPMethod @ '' '' @ q hdrMethod @ '' does not match body method '' @
                 q (rpc_Method req)))
        else
          (case (if rpc_Params req = [] then Inr Map.empty else wm_meta M (rpc_Params req)) of
             Inl msg \<Rightarrow> Inl (writeRPCErrorStatus i 400 rpcInvalidParams (''invalid params: '' @ msg))
           | Inr meta \<Rightarrow>
               (case metaString M meta metaProtocolVersion of
                  None \<Rightarrow> Inl (writeRPCErrorStatus i 400 rpcInvalidParams
                            (''params._meta must carry '' @ metaProtocolVersion))
                | Some bodyVersion \<Rightarrow>
                    if \<not> metaIsObject M meta metaClientCapabilities then
                      Inl (writeRPCErrorStatus i 400 rpcInvalidParams
                             (''params._meta must carry '' @ metaClientCapabilities @ '' as an object''))
                    else if hdrVersion \<noteq> bodyVersion then
                      Inl (writeHeaderMismatch i (hdrMCPProtocolVersion @ '' '' @ q hdrVersion @
                             '' does not match body '' @ metaProtocolVersion @ '' '' @ q bodyVersion))
                    else if bodyVersion \<noteq> mcpProtocolVersion then
                      Inl (writeRPCErrorData i 400 rpcUnsupportedProtocolVersion
                             (''unsupported protocol version '' @ bodyVersion) (Some [mcpProtocolVersion]))
                    else Inr ()))))"

section \<open>Methods\<close>

definition toolsList :: "toolSpec list" where
  "toolsList =
     [\<lparr>ts_Name = toolTip,
       ts_Description = ''Return the next audit-log slot {seq, prevHash} to bind proof-of-possession and approval to before calling kessa/enforce.'',
       ts_InputSchema = ''{\"type\":\"object\",\"properties\":{},\"additionalProperties\":false}''\<rparr>,
      \<lparr>ts_Name = toolEnforce,
       ts_Description = ''Adjudicate one action attempt. Arguments are a complete enforce.Request '' @
         ''(delegation chain, action, proof-of-possession, and human approval for consequential actions). '' @
         ''Returns the enforce.Result: the allow/deny decision and the signed audit entry.'',
       ts_InputSchema = ''{\"type\":\"object\",\"required\":[\"chain\",\"action\",\"pop\"],'' @
         ''\"properties\":{\"chain\":{\"type\":\"object\"},\"action\":{\"type\":\"object\"},\"pop\":{\"type\":\"object\"},'' @
         ''\"approver\":{\"type\":\"string\"},\"approval\":{\"type\":\"string\"}}}''\<rparr>]"

definition handleToolsCall ::
  "crypto \<Rightarrow> (string \<Rightarrow> string) \<Rightarrow> wording \<Rightarrow> mcp_wire \<Rightarrow> gotime \<Rightarrow> disk \<Rightarrow> http_request \<Rightarrow> rpcRequest \<Rightarrow> Proxy \<Rightarrow>
   served \<times> Proxy" where
  "handleToolsCall C q T M now d r req p =
     (let i = rpc_ID req in
      case wm_call M (rpc_Params req) of
        Inl msg \<Rightarrow> (writeRPCError i rpcInvalidParams (''invalid tools/call params: '' @ msg), p)
      | Inr (tool, args) \<Rightarrow>
      (case requireSingleHeader r i hdrMCPName of
        Inl e \<Rightarrow> (e, p)
      | Inr h \<Rightarrow>
      (case decodeHeaderValue M h of
        None \<Rightarrow> (Panicked, p)
      | Some (Inl msg) \<Rightarrow> (writeHeaderMismatch i (hdrMCPName @ '' is not valid base64: '' @ msg), p)
      | Some (Inr name) \<Rightarrow>
          if name \<noteq> tool then
            (writeHeaderMismatch i (hdrMCPName @ '' '' @ q name @ '' does not match tool '' @ q tool), p)
          else if tool = toolTip then
            (case Proxy_Tip p of (seq, prev) \<Rightarrow> (writeToolResult M i (TipPayload seq prev) False, p))
          else if tool = toolEnforce then
            (case wm_args M args of
               Inl msg \<Rightarrow> (writeRPCError i rpcInvalidParams (''invalid enforce.Request arguments: '' @ msg), p)
             | Inr er \<Rightarrow>
                 (case Handle C q T now d er p of
                    (Inl e, p') \<Rightarrow>
                      (writeToolError i (''proxy rejected request: '' @ wi_handle_err (wm_wire M) e), p')
                  | (Inr (dec, entry), p') \<Rightarrow> (writeToolResult M i (ResultPayload dec entry) False, p')))
          else (writeRPCError i rpcInvalidParams (''unknown tool: '' @ tool), p))))"

definition dispatch ::
  "crypto \<Rightarrow> (string \<Rightarrow> string) \<Rightarrow> wording \<Rightarrow> mcp_wire \<Rightarrow> gotime \<Rightarrow> disk \<Rightarrow> http_request \<Rightarrow> rpcRequest \<Rightarrow> Proxy \<Rightarrow>
   served \<times> Proxy" where
  "dispatch C q T M now d r req p =
     (if rpc_Method req = ''ping'' then (writeRPCResult (rpc_ID req) Pong, p)
      else if rpc_Method req = ''tools/list'' then (writeRPCResult (rpc_ID req) (ToolList toolsList), p)
      else if rpc_Method req = ''tools/call'' then handleToolsCall C q T M now d r req p
      else (writeRPCErrorStatus (rpc_ID req) 404 rpcMethodNotFound (''unknown method: '' @ rpc_Method req), p))"

section \<open>The endpoint\<close>

definition handlePost ::
  "crypto \<Rightarrow> (string \<Rightarrow> string) \<Rightarrow> wording \<Rightarrow> mcp_wire \<Rightarrow> gotime \<Rightarrow> disk \<Rightarrow> http_request \<Rightarrow> Proxy \<Rightarrow> served \<times> Proxy" where
  "handlePost C q T M now d r p =
     (if \<not> hasJSONContentType (wm_wire M) r then
        (Reply 415 (PlainText ''unsupported media type: this endpoint accepts application/json''), p)
      else if length (hr_Body r) > maxRequestBody then (Reply 413 (PlainText ''request body too large''), p)
      else case hr_ReadErr r of
          Some e \<Rightarrow> (Reply 400 (PlainText (''bad request: '' @ e)), p)
        | None \<Rightarrow>
            let body = TrimSpace (hr_Body r) in
            if HasPrefix body ''['' then
              (writeRPCError [] rpcInvalidRequest ''JSON-RPC batches are not supported'', p)
            else case wm_rpc M body of
                Inl msg \<Rightarrow> (writeRPCError [] rpcParseError (''parse error: '' @ msg), p)
              | Inr req \<Rightarrow>
                  if rpc_JSONRPC req \<noteq> ''2.0'' then
                    (writeRPCError (rpc_ID req) rpcInvalidRequest ''\"jsonrpc\" must be \"2.0\"'', p)
                  else if TrimSpace (rpc_ID req) = ''null'' then
                    (writeRPCErrorStatus [] 400 rpcInvalidRequest ''\"id\" must not be null'', p)
                  else if isNotification req then (Reply 202 NoBody, p)
                  else (case validateRequestMetadata q M r req of
                      Inl e \<Rightarrow> (e, p)
                    | Inr _ \<Rightarrow> dispatch C q T M now d r req p))"

definition MCP_ServeHTTP ::
  "crypto \<Rightarrow> (string \<Rightarrow> string) \<Rightarrow> wording \<Rightarrow> mcp_wire \<Rightarrow> gotime \<Rightarrow> disk \<Rightarrow> http_request \<Rightarrow> Proxy \<Rightarrow> served \<times> Proxy" where
  "MCP_ServeHTTP C q T M now d r p =
     (if \<not> originAllowed (wm_wire M) r then
        (Reply 403 (PlainText ''forbidden: cross-origin request to a local enforcement endpoint''), p)
      else if hr_Method r = ''POST'' then handlePost C q T M now d r p
      else if hr_Method r = ''GET'' \<or> hr_Method r = ''DELETE'' then
        (Reply 405 (PlainText ''MCP 2026-07-28: the endpoint accepts POST only (no GET stream, no sessions)''), p)
      else (Reply 405 (PlainText ''method not allowed''), p))"

section \<open>Which requests reach the chokepoint\<close>

text \<open>The decision a reply reports, if any.\<close>

fun reported :: "served \<Rightarrow> (Decision \<times> Entry) option" where
  "reported (Reply _ (RPC resp)) =
     (case rr_Result resp of
        None \<Rightarrow> None
      | Some ro \<Rightarrow>
          (case ro_Value ro of
             ToolReply tr \<Rightarrow> (case tr_Structured tr of Some (ResultPayload dec e) \<Rightarrow> Some (dec, e) | _ \<Rightarrow> None)
           | _ \<Rightarrow> None))"
| "reported _ = None"

lemmas writer_defs = writeRPCErrorData_def writeRPCErrorStatus_def writeRPCError_def writeHeaderMismatch_def
  writeRPCResult_def writeToolResult_def writeToolError_def

lemma reported_writers [simp]:
  "reported (writeRPCErrorData i st code msg data) = None" "reported (writeRPCErrorStatus i st code msg) = None"
  "reported (writeRPCError i code msg) = None" "reported (writeHeaderMismatch i msg) = None"
  "reported (writeToolError i msg) = None"
  "reported (writeToolResult M i (TipPayload s h) b) = None"
  "reported (writeToolResult M i (ResultPayload dec e) b) = Some (dec, e)"
  "reported (writeRPCResult i Pong) = None" "reported (writeRPCResult i (ToolList ts)) = None"
  by (simp_all add: writer_defs)

lemma writers_not_panic [simp]:
  "writeRPCErrorData i st code msg data \<noteq> Panicked" "writeRPCErrorStatus i st code msg \<noteq> Panicked"
  "writeRPCError i code msg \<noteq> Panicked" "writeHeaderMismatch i msg \<noteq> Panicked"
  "writeToolError i msg \<noteq> Panicked" "writeToolResult M i v b \<noteq> Panicked" "writeRPCResult i x \<noteq> Panicked"
  by (simp_all add: writer_defs)

lemma requireSingleHeader_ok: "requireSingleHeader r i name = Inr v \<longleftrightarrow> hr_Header r name = [v]"
  by (auto simp: requireSingleHeader_def singleHeader_def split: list.split)

lemma requireSingleHeader_err:
  "requireSingleHeader r i name = Inl e \<Longrightarrow> reported e = None \<and> e \<noteq> Panicked"
  by (auto simp: requireSingleHeader_def singleHeader_def split: list.splits if_splits)

lemma validateRequestMetadata_err:
  "validateRequestMetadata q M r req = Inl e \<Longrightarrow> reported e = None \<and> e \<noteq> Panicked"
  unfolding validateRequestMetadata_def Let_def
  by (auto dest: requireSingleHeader_err split: sum.splits option.splits if_splits)

text \<open>The mirrored metadata agree with the body and name the one supported version.\<close>

lemma validateRequestMetadata_ok:
  assumes "is_ok (validateRequestMetadata q M r req)"
  shows "hr_Header r hdrMCPProtocolVersion = [mcpProtocolVersion]" "hr_Header r hdrMCPMethod = [rpc_Method req]"
    "\<exists>meta. wm_meta M (rpc_Params req) = Inr meta \<and>
       metaString M meta metaProtocolVersion = Some mcpProtocolVersion \<and>
       metaIsObject M meta metaClientCapabilities"
proof -
  from assms obtain v m where h: "hr_Header r hdrMCPProtocolVersion = [v]" "hr_Header r hdrMCPMethod = [m]"
    and rest: "m = rpc_Method req" "\<exists>meta. (if rpc_Params req = [] then Inr Map.empty else wm_meta M (rpc_Params req)) = Inr meta \<and>
       metaString M meta metaProtocolVersion = Some v \<and> v = mcpProtocolVersion \<and>
       metaIsObject M meta metaClientCapabilities"
    by (auto simp: validateRequestMetadata_def Let_def requireSingleHeader_ok
        split: sum.splits option.splits if_splits)
  from rest(2) show "\<exists>meta. wm_meta M (rpc_Params req) = Inr meta \<and>
       metaString M meta metaProtocolVersion = Some mcpProtocolVersion \<and>
       metaIsObject M meta metaClientCapabilities"
    by (auto simp: metaString_def split: if_splits)
  from h rest show "hr_Header r hdrMCPProtocolVersion = [mcpProtocolVersion]" "hr_Header r hdrMCPMethod = [rpc_Method req]"
    by auto
qed

text \<open>A tool call that enforces, from its decoded message on.\<close>

definition enforces ::
  "crypto \<Rightarrow> (string \<Rightarrow> string) \<Rightarrow> wording \<Rightarrow> mcp_wire \<Rightarrow> gotime \<Rightarrow> disk \<Rightarrow> http_request \<Rightarrow> rpcRequest \<Rightarrow> Proxy \<Rightarrow>
   served \<Rightarrow> Proxy \<Rightarrow> bool" where
  "enforces C q T M now d r req p reply p' \<longleftrightarrow>
     (\<exists>h args er res. hr_Header r hdrMCPName = [h] \<and> decodeHeaderValue M h = Some (Inr toolEnforce) \<and>
        wm_call M (rpc_Params req) = Inr (toolEnforce, args) \<and> wm_args M args = Inr er \<and>
        Handle C q T now d er p = (res, p') \<and>
        reply = (case res of
            Inl e \<Rightarrow> writeToolError (rpc_ID req) (''proxy rejected request: '' @ wi_handle_err (wm_wire M) e)
          | Inr (dec, entry) \<Rightarrow> writeToolResult M (rpc_ID req) (ResultPayload dec entry) False))"

lemma enforces_Handle:
  assumes "enforces C q T M now d r req p reply p'"
  shows "\<exists>er res. Handle C q T now d er p = (res, p') \<and> reply \<noteq> Panicked \<and>
    reported reply = (case res of Inl _ \<Rightarrow> None | Inr x \<Rightarrow> Some x)"
proof -
  from assms obtain er res where h: "Handle C q T now d er p = (res, p')" "reply = (case res of
      Inl e \<Rightarrow> writeToolError (rpc_ID req) (''proxy rejected request: '' @ wi_handle_err (wm_wire M) e)
    | Inr (dec, entry) \<Rightarrow> writeToolResult M (rpc_ID req) (ResultPayload dec entry) False)"
    unfolding enforces_def by blast
  from h(2) have "reply \<noteq> Panicked \<and> reported reply = (case res of Inl _ \<Rightarrow> None | Inr x \<Rightarrow> Some x)"
    by (cases res) (auto split: prod.split)
  with h(1) show ?thesis by blast
qed

lemma handleToolsCall_cases:
  assumes "handleToolsCall C q T M now d r req p = (reply, p')"
  shows "enforces C q T M now d r req p reply p' \<or>
    p' = p \<and> reported reply = None \<and>
    (reply = Panicked \<longrightarrow> (\<exists>h. hr_Header r hdrMCPName = [h] \<and> decodeHeaderValue M h = None))"
proof (cases "wm_call M (rpc_Params req)")
  case (Inr ta)
  obtain tool args where ta: "ta = (tool, args)" by (cases ta)
  show ?thesis
  proof (cases "requireSingleHeader r (rpc_ID req) hdrMCPName")
    case (Inl e)
    with assms Inr ta requireSingleHeader_err [OF Inl] show ?thesis by (simp add: handleToolsCall_def)
  next
    case (Inr h)
    then have h: "hr_Header r hdrMCPName = [h]" by (simp add: requireSingleHeader_ok)
    show ?thesis
    proof (cases "decodeHeaderValue M h = Some (Inr toolEnforce) \<and> tool = toolEnforce \<and> (\<exists>er. wm_args M args = Inr er)")
      case True
      then obtain er where er: "wm_args M args = Inr er" by blast
      obtain res p1 where hd: "Handle C q T now d er p = (res, p1)" by (cases "Handle C q T now d er p")
      have "p1 = p' \<and> reply = (case res of
            Inl e \<Rightarrow> writeToolError (rpc_ID req) (''proxy rejected request: '' @ wi_handle_err (wm_wire M) e)
          | Inr (dec, entry) \<Rightarrow> writeToolResult M (rpc_ID req) (ResultPayload dec entry) False)"
        using assms \<open>wm_call M (rpc_Params req) = Inr ta\<close> ta Inr True er hd
        by (cases res) (auto simp: handleToolsCall_def toolTip_def toolEnforce_def split: prod.splits)
      then have "enforces C q T M now d r req p reply p'"
        using \<open>wm_call M (rpc_Params req) = Inr ta\<close> ta True er hd h unfolding enforces_def by blast
      then show ?thesis ..
    next
      case False
      then have "p' = p \<and> reported reply = None \<and> (reply = Panicked \<longrightarrow> decodeHeaderValue M h = None)"
        using assms \<open>wm_call M (rpc_Params req) = Inr ta\<close> ta Inr
        by (auto simp: handleToolsCall_def Let_def split: prod.splits sum.splits option.splits if_splits)
      with h show ?thesis by blast
    qed
  qed
qed (use assms in \<open>auto simp: handleToolsCall_def\<close>)

lemma dispatch_cases:
  assumes "dispatch C q T M now d r req p = (reply, p')"
  shows "rpc_Method req = ''tools/call'' \<and> enforces C q T M now d r req p reply p' \<or>
    p' = p \<and> reported reply = None \<and>
    (reply = Panicked \<longrightarrow> (\<exists>h. hr_Header r hdrMCPName = [h] \<and> decodeHeaderValue M h = None))"
  using assms handleToolsCall_cases [of C q T M now d r req p reply p']
  by (auto simp: dispatch_def split: if_splits)

text \<open>What a POST went through before a method was dispatched.\<close>

definition admitted :: "(string \<Rightarrow> string) \<Rightarrow> mcp_wire \<Rightarrow> http_request \<Rightarrow> rpcRequest \<Rightarrow> bool" where
  "admitted q M r req \<longleftrightarrow>
     originAllowed (wm_wire M) r \<and> hr_Method r = ''POST'' \<and> hasJSONContentType (wm_wire M) r \<and>
     length (hr_Body r) \<le> maxRequestBody \<and> wm_rpc M (TrimSpace (hr_Body r)) = Inr req \<and>
     rpc_JSONRPC req = ''2.0'' \<and> rpc_ID req \<noteq> [] \<and> TrimSpace (rpc_ID req) \<noteq> ''null'' \<and>
     is_ok (validateRequestMetadata q M r req)"

lemma MCP_ServeHTTP_cases:
  assumes "MCP_ServeHTTP C q T M now d r p = (reply, p')"
  shows "(\<exists>req. admitted q M r req \<and> dispatch C q T M now d r req p = (reply, p')) \<or>
    p' = p \<and> reported reply = None \<and> reply \<noteq> Panicked"
  using assms
  by (auto simp: MCP_ServeHTTP_def handlePost_def Let_def isNotification_def admitted_def
      dest!: validateRequestMetadata_err split: if_splits option.splits sum.splits)


section \<open>The panic\<close>

lemma decodeHeaderValue_panics: "decodeHeaderValue M v = None \<longleftrightarrow> v = ''=?base64?=''"
proof
  assume "decodeHeaderValue M v = None"
  then have pre: "HasPrefix v b64Prefix" and suf: "HasSuffix v b64Suffix" and len: "length v < 11"
    by (auto simp: decodeHeaderValue_def Let_def b64Prefix_def b64Suffix_def split: if_splits option.splits)
  have "length b64Prefix = 9" by (simp add: b64Prefix_def)
  with pre have w: "v = b64Prefix @ drop 9 v" by (metis HasPrefix_def append_take_drop_id)
  from len have "length (drop 9 v) \<le> 1" by simp
  then consider "drop 9 v = []" | x where "drop 9 v = [x]" by (cases "drop 9 v") auto
  then show "v = ''=?base64?=''"
  proof cases
    case 1
    with w suf show ?thesis by (simp add: HasSuffix_def HasPrefix_def b64Prefix_def b64Suffix_def)
  next
    case (2 x)
    with w have v: "v = ''=?base64?'' @ [x]" by (simp add: b64Prefix_def)
    with suf show ?thesis by (simp add: HasSuffix_def HasPrefix_def b64Suffix_def)
  qed
qed (simp add: decodeHeaderValue_def HasPrefix_def HasSuffix_def b64Prefix_def b64Suffix_def)


text \<open>A wire whose decoders read a well-formed call of \<^verbatim>\<open>kessa/enforce\<close> from any body.\<close>

definition sample_mcp_wire :: "Request \<Rightarrow> mcp_wire" where
  "sample_mcp_wire req =
     \<lparr>wm_wire = sample_wire req,
      wm_rpc = (\<lambda>_. Inr \<lparr>rpc_JSONRPC = ''2.0'', rpc_ID = ''1'', rpc_Method = ''tools/call'', rpc_Params = ''{}''\<rparr>),
      wm_meta = (\<lambda>_. Inr [metaProtocolVersion \<mapsto> ''v'', metaClientCapabilities \<mapsto> ''o'']),
      wm_object = (\<lambda>_. True), wm_string = (\<lambda>_. Some mcpProtocolVersion),
      wm_call = (\<lambda>_. Inr (toolEnforce, [])), wm_args = (\<lambda>_. Inr req), wm_text = (\<lambda>_. []), wm_b64err = id\<rparr>"

definition sample_post :: "string \<Rightarrow> http_request" where
  "sample_post name =
     \<lparr>hr_Method = ''POST'', hr_Path = ''/mcp'',
      hr_Header = (\<lambda>n. if n = ''Content-Type'' then [''application/json'']
        else if n = hdrMCPProtocolVersion then [mcpProtocolVersion]
        else if n = hdrMCPMethod then [''tools/call'']
        else if n = hdrMCPName then [name] else []), hr_Body = ''{}'', hr_ReadErr = None\<rparr>"

lemma TrimSpace_samples: "TrimSpace ''1'' = ''1''" "TrimSpace ''{}'' = ''{}''"
  by (simp_all add: trim_eval)

lemma sample_post_dispatched:
  "MCP_ServeHTTP C q T (sample_mcp_wire req) now d (sample_post name) p =
     handleToolsCall C q T (sample_mcp_wire req) now d (sample_post name)
       \<lparr>rpc_JSONRPC = ''2.0'', rpc_ID = ''1'', rpc_Method = ''tools/call'', rpc_Params = ''{}''\<rparr> p"
  by (simp add: Let_def MCP_ServeHTTP_def handlePost_def originAllowed_def hasJSONContentType_def header_get_def
      sample_post_def sample_mcp_wire_def sample_wire_def maxRequestBody_def TrimSpace_samples HasPrefix_def
      isNotification_def validateRequestMetadata_def requireSingleHeader_def singleHeader_def metaString_def
      metaIsObject_def dispatch_def hdrMCPProtocolVersion_def hdrMCPMethod_def hdrMCPName_def
      mcpProtocolVersion_def metaProtocolVersion_def metaClientCapabilities_def)

lemma panic: "decodeHeaderValue M ''=?base64?='' = None"
  by (simp only: decodeHeaderValue_panics)



section \<open>Both listeners on one proxy\<close>

text \<open>
  Requests to the two listeners, in any order and with any content, interleaved with the
  proxy's own background steps.
\<close>

inductive listener_step :: "crypto \<Rightarrow> (string \<Rightarrow> string) \<Rightarrow> wording \<Rightarrow> Proxy \<Rightarrow> Proxy \<Rightarrow> bool"
  for C :: crypto and q :: "string \<Rightarrow> string" and T :: wording where
  http: "Handler C q T W now d r p = (reply, p') \<Longrightarrow> listener_step C q T p p'"
| mcp: "MCP_ServeHTTP C q T M now d r p = (sv, p') \<Longrightarrow> listener_step C q T p p'"
| background: "proxy_step C q T p p' \<Longrightarrow> listener_step C q T p p'"

text \<open>Every such step is a step of the proxy or none at all.\<close>

lemma listener_step_proxy: "listener_step C q T p p' \<Longrightarrow> (proxy_step C q T)\<^sup>*\<^sup>* p p'"
proof (induction rule: listener_step.induct)
  case (http W now d r p reply p')
  then show ?case using Handler_cases [OF http] by (auto intro: proxy_step.handle)
next
  case (mcp M now d r p sv p')
  from MCP_ServeHTTP_cases [OF mcp] show ?case
    by (auto intro: proxy_step.handle dest!: dispatch_cases enforces_Handle)
qed auto

text \<open>
  C4. The audit record holds up under all traffic: whatever requests arrive at the two listeners,
  malformed or not and in whatever order, the log stays a verifiable hash chain signed by
  the enforcement point, every entry stays attributable to its verified chain and carries
  evidence that is present and content-addressed, and at most 64 sink writes of each kind
  are in flight.
\<close>

theorem listeners_keep_log:
  assumes "NewProxy C cfg = Inr p0" and "cf_WAL cfg = None \<or> w_recovered (the (cf_WAL cfg)) = []"
    and "signer_ok C (p_enforcementPoint p0)" and "(listener_step C q T)\<^sup>*\<^sup>* p0 p"
  shows "VerifyEntries C (Proxy_Entries p) (s_Public (p_enforcementPoint p)) = Inr () \<and>
    list_all (attributable C (p_dids p)) (Proxy_Entries p) \<and>
    set_addressed C (p_set p) \<and>
    list_all (\<lambda>e. list_all (CredentialSet_Has (p_set p)) (e_ChainCredentialIDs e)) (Proxy_Entries p) \<and>
    length (p_sinkSlots p) \<le> 64 \<and> length (p_unattrSlots p) \<le> 64"
proof -
  from assms(4) have "(proxy_step C q T)\<^sup>*\<^sup>* p0 p"
    by (induction rule: rtranclp_induct) (auto dest: listener_step_proxy)
  then show ?thesis by (rule proxy_log_invariant [OF assms(1-3)])
qed

theorem listeners_keep_log_witness:
  "\<exists>p. length (Proxy_Entries p) = 1 \<and>
     VerifyEntries toy_crypto (Proxy_Entries p) (s_Public (p_enforcementPoint p)) = Inr ()"
proof -
  obtain req e p' where h: "Handle toy_crypto id plain_wording sample_time DiskOk req (sample_proxy None) = (Inr e, p')"
    "length (Proxy_Entries p') = 1"
    using sample_one_entry by blast
  have "listener_step toy_crypto id plain_wording (sample_proxy None) p'"
    by (rule listener_step.background) (rule proxy_step.handle [OF h(1)])
  then have "VerifyEntries toy_crypto (Proxy_Entries p') (s_Public (p_enforcementPoint p')) = Inr ()"
    using listeners_keep_log [OF sample_proxy_new(1) _ sample_proxy_new(2), of id plain_wording p']
    by (auto simp: sample_config_def)
  with h(2) show ?thesis by blast
qed

end
