(* ===== verification/Shadow.thy ===== *)
theory Shadow
  imports Proxy_Correct
begin

text \<open>
  \<^verbatim>\<open>internal/shadow\<close>: passive evaluation of a candidate policy over recorded or hand-written
  actions.  The JSON decoders are arguments.  The lemmas show that every input line is
  accounted for once, that the summary counts exactly the disagreements it names, and that
  replaying a proxy's own log against its own policy finds none.
\<close>

definition SourceExport :: string where "SourceExport = ''export''"
definition SourceActionsFile :: string where "SourceActionsFile = ''actions-file''"

record Source =
  src_Kind :: string
  src_Path :: string
  src_Index :: int

record Input =
  in_Source :: Source
  in_Action :: Action
  in_Actual :: "Decision option"

record Prediction =
  pr_Source :: Source
  pr_Action :: Action
  pr_Consequential :: bool
  pr_PolicyDenies :: bool
  pr_MatchedRule :: string
  pr_Reason :: string
  pr_PolicyVersion :: string
  pr_PolicyID :: string
  pr_Note :: string
  pr_Actual :: "Decision option"
  pr_ActualSourceVerified :: "bool option"
  pr_Agreement :: "bool option"

definition predictionNote :: string where
  "predictionNote = ''kessa-shadow prediction; nothing was enforced and this is not an audit record''"

section \<open>Predictions\<close>

text \<open>The shipped evaluator never returns an error, so neither does \<^verbatim>\<open>Predict\<close>.\<close>

definition Predict :: "(string \<Rightarrow> string) \<Rightarrow> Policy \<Rightarrow> string \<Rightarrow> Input \<Rightarrow> Prediction" where
  "Predict q pol policyID inp =
     (let dec = Policy_Evaluate q pol (in_Action inp);
          p = \<lparr>pr_Source = in_Source inp, pr_Action = in_Action inp,
               pr_Consequential = d_Consequential dec, pr_PolicyDenies = (\<not> d_Allowed dec),
               pr_MatchedRule = d_RuleFired dec, pr_Reason = d_Reason dec,
               pr_PolicyVersion = d_PolicyVersion dec, pr_PolicyID = policyID, pr_Note = predictionNote,
               pr_Actual = None, pr_ActualSourceVerified = None, pr_Agreement = None\<rparr>
      in case in_Actual inp of
           None \<Rightarrow> p
         | Some actual \<Rightarrow>
             p\<lparr>pr_Actual := Some actual, pr_ActualSourceVerified := Some False,
               pr_Agreement := Some (d_Consequential actual = pr_Consequential p)\<rparr>)"

definition PredictAll :: "(string \<Rightarrow> string) \<Rightarrow> Policy \<Rightarrow> string \<Rightarrow> Input list \<Rightarrow> Prediction list" where
  "PredictAll q pol policyID inputs = map (Predict q pol policyID) inputs"

section \<open>Export replay\<close>

text \<open>\<^verbatim>\<open>int(e.Seq)\<close> reads the 64-bit sequence number as a signed one.\<close>

definition replay_input :: "string \<Rightarrow> Entry \<Rightarrow> Input" where
  "replay_input path e =
     \<lparr>in_Source = \<lparr>src_Kind = SourceExport, src_Path = path, src_Index = sint (e_Seq e)\<rparr>,
      in_Action = e_Action e, in_Actual = Some (e_Decision e)\<rparr>"

definition FromExport :: "(bytes \<Rightarrow> Export option) \<Rightarrow> bytes \<Rightarrow> string \<Rightarrow> export_err + Input list" where
  "FromExport unmarshal data path =
     map_sum id (\<lambda>exp. map (replay_input path) (x_Entries exp)) (Export_Parse unmarshal data)"

section \<open>Action files\<close>

definition maxActionLine :: nat where "maxActionLine = 8 * 1024 * 1024"

text \<open>\<^verbatim>\<open>bufio.ScanLines\<close>: the raw lines, and a line without its carriage return.\<close>

definition scan_lines :: "bytes \<Rightarrow> bytes list" where
  "scan_lines data =
     (let ls = Split (char_of (10 :: nat)) data in if last ls = [] then butlast ls else ls)"

definition drop_cr :: "bytes \<Rightarrow> bytes" where
  "drop_cr l = (if l \<noteq> [] \<and> last l = char_of (13 :: nat) then butlast l else l)"

datatype skip_reason = Undecodable string | NoType

record SkippedLine =
  sk_Line :: nat
  sk_Err :: skip_reason

datatype shadow_err = ReadActions string

fun actions_loop ::
  "(string \<Rightarrow> string + Action) \<Rightarrow> string \<Rightarrow> nat \<Rightarrow> bytes list \<Rightarrow> Input list \<times> SkippedLine list" where
  "actions_loop decode path n [] = ([], [])"
| "actions_loop decode path n (l # ls) =
     (let line = Suc n; raw = TrimSpace (drop_cr l); (ins, sks) = actions_loop decode path line ls in
      if raw = [] then (ins, sks)
      else case decode raw of
          Inl e \<Rightarrow> (ins, \<lparr>sk_Line = line, sk_Err = Undecodable e\<rparr> # sks)
        | Inr a \<Rightarrow>
            if TrimSpace (a_Type a) = [] then (ins, \<lparr>sk_Line = line, sk_Err = NoType\<rparr> # sks)
            else (\<lparr>in_Source = \<lparr>src_Kind = SourceActionsFile, src_Path = path, src_Index = int line\<rparr>,
                   in_Action = a, in_Actual = None\<rparr> # ins, sks))"

text \<open>\<open>data\<close> is what the reader yields and \<open>failed\<close> the error it ends with, if any; a line that fills the
  scanner's buffer is an error too.\<close>

definition FromActions ::
  "(string \<Rightarrow> string + Action) \<Rightarrow> bytes \<Rightarrow> string option \<Rightarrow> string \<Rightarrow>
   shadow_err + Input list \<times> SkippedLine list" where
  "FromActions decode data failed path =
     (if list_ex (\<lambda>l. length l \<ge> maxActionLine) (scan_lines data)
      then Inl (ReadActions ''bufio.Scanner: token too long'')
      else case failed of
          Some e \<Rightarrow> Inl (ReadActions e)
        | None \<Rightarrow> Inr (actions_loop decode path 0 (scan_lines data)))"

section \<open>Summary\<close>

record Summary =
  su_Total :: nat
  su_Consequential :: nat
  su_Routine :: nat
  su_PolicyDenied :: nat
  su_Compared :: nat
  su_Agreed :: nat
  su_UnderPredicted :: nat
  su_OverPredicted :: nat
  su_Skipped :: nat

definition summary_step :: "Summary \<Rightarrow> Prediction \<Rightarrow> Summary" where
  "summary_step s p =
     (let s1 = (if pr_Consequential p then s\<lparr>su_Consequential := Suc (su_Consequential s)\<rparr>
                else s\<lparr>su_Routine := Suc (su_Routine s)\<rparr>);
          s2 = (if pr_PolicyDenies p then s1\<lparr>su_PolicyDenied := Suc (su_PolicyDenied s1)\<rparr> else s1)
      in case pr_Agreement p of
           None \<Rightarrow> s2
         | Some agreed \<Rightarrow>
             let s3 = s2\<lparr>su_Compared := Suc (su_Compared s2)\<rparr> in
             if agreed then s3\<lparr>su_Agreed := Suc (su_Agreed s3)\<rparr>
             else if \<not> pr_Consequential p then s3\<lparr>su_UnderPredicted := Suc (su_UnderPredicted s3)\<rparr>
             else s3\<lparr>su_OverPredicted := Suc (su_OverPredicted s3)\<rparr>)"

definition Summarize :: "Prediction list \<Rightarrow> nat \<Rightarrow> Summary" where
  "Summarize preds skipped =
     foldl summary_step
       \<lparr>su_Total = length preds, su_Consequential = 0, su_Routine = 0, su_PolicyDenied = 0, su_Compared = 0,
        su_Agreed = 0, su_UnderPredicted = 0, su_OverPredicted = 0, su_Skipped = skipped\<rparr> preds"

section \<open>Every line is accounted for\<close>

lemma actions_loop_lines:
  assumes "actions_loop decode path n ls = (ins, sks)"
  shows "mset (map (src_Index \<circ> in_Source) ins @ map (int \<circ> sk_Line) sks) =
    mset (map (\<lambda>i. int (Suc i)) (filter (\<lambda>i. TrimSpace (drop_cr (ls ! (i - n))) \<noteq> []) [n ..< n + length ls]))"
  using assms
proof (induction ls arbitrary: n ins sks)
  case (Cons l ls)
  obtain ins' sks' where r: "actions_loop decode path (Suc n) ls = (ins', sks')" by force
  have idx: "filter (\<lambda>i. TrimSpace (drop_cr ((l # ls) ! (i - n))) \<noteq> []) [n ..< n + length (l # ls)] =
      (if TrimSpace (drop_cr l) \<noteq> [] then [n] else []) @
      filter (\<lambda>i. TrimSpace (drop_cr (ls ! (i - Suc n))) \<noteq> []) [Suc n ..< Suc n + length ls]"
    by (simp add: upt_conv_Cons del: upt_Suc) (auto intro!: filter_cong simp: nth_Cons' Suc_le_eq)
  show ?case
    using Cons.prems Cons.IH [OF r] unfolding idx
    by (auto simp: r Let_def split: if_splits sum.splits)
qed simp

text \<open>
  An actions file is read without silent loss: when it can be read at all, every line that is
  not blank appears exactly once, under its own line number, either as an input or among the
  skipped lines.
\<close>

theorem FromActions_accounts:
  assumes "FromActions decode data failed path = Inr (ins, sks)"
  shows "mset (map (src_Index \<circ> in_Source) ins @ map (int \<circ> sk_Line) sks) =
    mset (map (\<lambda>i. int (Suc i))
      (filter (\<lambda>i. TrimSpace (drop_cr (scan_lines data ! i)) \<noteq> []) [0 ..< length (scan_lines data)]))"
proof -
  from assms have "actions_loop decode path 0 (scan_lines data) = (ins, sks)"
    by (auto simp: FromActions_def split: if_splits option.splits)
  from actions_loop_lines [OF this] show ?thesis by simp
qed

theorem FromActions_accounts_witness:
  "\<exists>ins sks. FromActions (\<lambda>raw. if raw = ''a'' then Inr tiny_action else Inl ''bad'') ''a\<newline>\<newline>x'' None ''f'' = Inr (ins, sks) \<and>
     mset (map (src_Index \<circ> in_Source) ins @ map (int \<circ> sk_Line) sks) = {#1, 3#}"
proof -
  let ?d = "\<lambda>raw. if raw = ''a'' then Inr tiny_action else Inl ''bad''"
  have ls: "scan_lines ''a\<newline>\<newline>x'' = [''a'', [], ''x'']" by code_simp
  obtain ins sks where r: "FromActions ?d ''a\<newline>\<newline>x'' None ''f'' = Inr (ins, sks)"
    by (cases "actions_loop ?d ''f'' 0 [''a'', [], ''x'']") (simp add: FromActions_def ls maxActionLine_def)
  have d: "drop_cr ''a'' = ''a''" "drop_cr ''x'' = ''x''" "drop_cr [] = []" by code_simp+
  have t: "TrimSpace ''a'' = ''a''" "TrimSpace ''x'' = ''x''" "TrimSpace [] = []"
    by (simp_all add: trim_eval)
  from FromActions_accounts [OF r] have
    "mset (map (src_Index \<circ> in_Source) ins @ map (int \<circ> sk_Line) sks) = {#1, 3#}"
    unfolding ls by (simp add: d t upt_rec)
  with r show ?thesis by blast
qed

section \<open>The summary counts what it names\<close>

lemma foldl_summary:
  "let s' = foldl summary_step s ps in
    su_Total s' = su_Total s \<and> su_Skipped s' = su_Skipped s \<and>
    su_Consequential s' = su_Consequential s + length (filter pr_Consequential ps) \<and>
    su_Routine s' = su_Routine s + length (filter (\<lambda>p. \<not> pr_Consequential p) ps) \<and>
    su_PolicyDenied s' = su_PolicyDenied s + length (filter pr_PolicyDenies ps) \<and>
    su_Compared s' = su_Compared s + length (filter (\<lambda>p. pr_Agreement p \<noteq> None) ps) \<and>
    su_Agreed s' = su_Agreed s + length (filter (\<lambda>p. pr_Agreement p = Some True) ps) \<and>
    su_UnderPredicted s' = su_UnderPredicted s +
      length (filter (\<lambda>p. pr_Agreement p = Some False \<and> \<not> pr_Consequential p) ps) \<and>
    su_OverPredicted s' = su_OverPredicted s +
      length (filter (\<lambda>p. pr_Agreement p = Some False \<and> pr_Consequential p) ps)"
proof (induction ps arbitrary: s)
  case (Cons p ps)
  have "foldl summary_step s (p # ps) = foldl summary_step (summary_step s p) ps" by simp
  with Cons [of "summary_step s p"] show ?case
    by (simp add: Let_def) (auto simp: summary_step_def Let_def split: option.splits if_splits)
qed simp

lemma Predict_fields [simp]:
  "pr_Consequential (Predict q pol k i) = d_Consequential (Policy_Evaluate q pol (in_Action i))"
  "pr_PolicyDenies (Predict q pol k i) = (\<not> d_Allowed (Policy_Evaluate q pol (in_Action i)))"
  "pr_Agreement (Predict q pol k i) =
     map_option (\<lambda>d. d_Consequential d = d_Consequential (Policy_Evaluate q pol (in_Action i))) (in_Actual i)"
  by (simp_all add: Predict_def Let_def split: option.split)

text \<open>
  The summary's figures are exact counts over the inputs, stated on the recorded decisions and
  the policy's own classification: under-predictions are the actions recorded as
  consequential that the candidate calls routine, over-predictions the converse.
\<close>

theorem Summarize_exact:
  "let s = Summarize (PredictAll q pol k ins) skipped;
       con = (\<lambda>i. d_Consequential (Policy_Evaluate q pol (in_Action i)));
       was = (\<lambda>i b. \<exists>d. in_Actual i = Some d \<and> d_Consequential d = b)
   in su_Total s = length ins \<and> su_Skipped s = skipped \<and>
      su_Consequential s = length (filter con ins) \<and>
      su_Routine s = length (filter (\<lambda>i. \<not> con i) ins) \<and>
      su_PolicyDenied s = length (filter (\<lambda>i. \<not> d_Allowed (Policy_Evaluate q pol (in_Action i))) ins) \<and>
      su_Agreed s = length (filter (\<lambda>i. was i (con i)) ins) \<and>
      su_UnderPredicted s = length (filter (\<lambda>i. was i True \<and> \<not> con i) ins) \<and>
      su_OverPredicted s = length (filter (\<lambda>i. was i False \<and> con i) ins) \<and>
      su_Compared s = su_Agreed s + su_UnderPredicted s + su_OverPredicted s"
proof -
  let ?con = "\<lambda>i. d_Consequential (Policy_Evaluate q pol (in_Action i))"
  let ?was = "\<lambda>i b. \<exists>d. in_Actual i = Some d \<and> d_Consequential d = b"
  define ps where "ps = PredictAll q pol k ins"
  have len: "length (filter P ps) = length (filter (P \<circ> Predict q pol k) ins)" for P
    by (simp add: ps_def PredictAll_def filter_map)
  have agreed: "((\<lambda>p. pr_Agreement p = Some True) \<circ> Predict q pol k) = (\<lambda>i. ?was i (?con i))"
    and under: "((\<lambda>p. pr_Agreement p = Some False \<and> \<not> pr_Consequential p) \<circ> Predict q pol k) =
      (\<lambda>i. ?was i True \<and> \<not> ?con i)"
    and over: "((\<lambda>p. pr_Agreement p = Some False \<and> pr_Consequential p) \<circ> Predict q pol k) =
      (\<lambda>i. ?was i False \<and> ?con i)"
    by (auto simp: fun_eq_iff)
  have split: "length (filter (\<lambda>p. pr_Agreement p \<noteq> None) ps) =
      length (filter (\<lambda>p. pr_Agreement p = Some True) ps) +
      length (filter (\<lambda>p. pr_Agreement p = Some False \<and> \<not> pr_Consequential p) ps) +
      length (filter (\<lambda>p. pr_Agreement p = Some False \<and> pr_Consequential p) ps)"
    by (induction ps) (auto, (metis (full_types) option.exhaust)+)
  show ?thesis
    using foldl_summary [of "\<lparr>su_Total = length ps, su_Consequential = 0, su_Routine = 0, su_PolicyDenied = 0,
        su_Compared = 0, su_Agreed = 0, su_UnderPredicted = 0, su_OverPredicted = 0, su_Skipped = skipped\<rparr>" ps]
    unfolding ps_def [symmetric] Summarize_def Let_def split
    unfolding len agreed under over
    by (simp add: ps_def PredictAll_def comp_def)
qed

section \<open>Replaying the proxy's own log\<close>

lemma decide_consequential:
  assumes "p_policy p = Shipped pol"
  shows "d_Consequential (decide C q T p req ch t s h) = d_Consequential (Policy_Evaluate q pol (rq_Action req))"
  using assms
  by (auto simp: decide_def evaluate_def deny_def Let_def split: sum.split option.split prod.split)

definition replays :: "(string \<Rightarrow> string) \<Rightarrow> Policy \<Rightarrow> Proxy \<Rightarrow> bool" where
  "replays q pol p \<longleftrightarrow> p_policy p = Shipped pol \<and>
     list_all (\<lambda>e. d_Consequential (e_Decision e) = d_Consequential (Policy_Evaluate q pol (e_Action e)))
       (l_entries (p_log p))"

lemma replays_same_record: "same_record p p' \<Longrightarrow> replays q pol p' = replays q pol p"
  using same_record_fields [of p p'] by (simp add: replays_def)

lemma replays_step:
  assumes "proxy_step C q T p p'" and "replays q pol p"
  shows "replays q pol p'"
  using assms(1)
proof cases
  case (handle now d req res)
  show ?thesis
  proof (cases rule: Handle_cases [OF handle])
    case (1 ch e i)
    have "d_Consequential (e_Decision e) = d_Consequential (Policy_Evaluate q pol (e_Action e))"
      using assms(2) by (simp add: recorded_entry [OF 1(3)] decision_of_def decide_consequential replays_def)
    with assms(2) show ?thesis by (simp add: recorded_fields [OF 1(3)] replays_def)
  qed (use assms(2) replays_same_record in blast)
next
  case (flush evs b)
  with FlushSink_effect [OF flush] assms(2) replays_same_record show ?thesis by blast
next
  case (close w b r w')
  then show ?thesis using assms(2) by (simp add: replays_def)
qed (use assms(2) sink_done_same replays_same_record in blast)+

text \<open>
  C16. Shadow mode predicts what enforcement does: replaying the log of a proxy that ran the
  shipped evaluator, against the policy it ran, agrees on every entry, so the summary shows no
  disagreement in either direction.
\<close>

theorem replay_agrees:
  assumes "NewProxy C cfg = Inr p0" and "cf_Policy cfg = Some (Shipped pol)"
    and "cf_WAL cfg = None \<or> w_recovered (the (cf_WAL cfg)) = []" and "(proxy_step C q T)\<^sup>*\<^sup>* p0 p"
  shows "let preds = PredictAll q pol k (map (replay_input path) (Proxy_Entries p)); s = Summarize preds 0 in
    list_all (\<lambda>pr. pr_Agreement pr = Some True) preds \<and>
    su_Agreed s = length (Proxy_Entries p) \<and> su_UnderPredicted s = 0 \<and> su_OverPredicted s = 0"
proof -
  have "replays q pol p0"
    using assms(1-3)
    by (auto simp: replays_def NewProxy_def recoverFrom_def Recovered_def fresh_proxy_def NewLog_def Let_def
        split: option.splits)
  with assms(4) have "replays q pol p"
    by (induction rule: rtranclp_induct) (auto intro: replays_step)
  then have a: "list_all (\<lambda>pr. pr_Agreement pr = Some True) (PredictAll q pol k (map (replay_input path) (Proxy_Entries p)))"
    by (simp add: PredictAll_def list_all_iff replays_def replay_input_def Proxy_Entries_def Entries_def)
  then show ?thesis
    using foldl_summary [of _ "PredictAll q pol k (map (replay_input path) (Proxy_Entries p))"]
    by (auto simp: Summarize_def Let_def list_all_iff filter_empty_conv PredictAll_def)
qed

theorem replay_agrees_witness:
  "\<exists>p. length (Proxy_Entries p) = 1 \<and>
     su_Agreed (Summarize (PredictAll id routine_policy [] (map (replay_input []) (Proxy_Entries p))) 0) = 1"
proof -
  obtain req e p' where h: "Handle toy_crypto id plain_wording sample_time DiskOk req (sample_proxy None) = (Inr e, p')"
    "length (Proxy_Entries p') = 1"
    using sample_one_entry by blast
  from replay_agrees [OF sample_proxy_new(1), of routine_policy id plain_wording p' "[]" "[]"]
    proxy_step.handle [OF h(1)] h(2) show ?thesis
    by (auto simp: sample_config_def Let_def intro!: exI [of _ p'])
qed

end
