(* ===== verification/Conformance.thy ===== *)
theory Conformance
  imports Proxy_Correct
begin

text \<open>
  Proxy and verifier together: the export of an enforcement point that handled any sequence
  of requests passes the independent verifier with the same resolvers, unless a routine allow
  carries an approval that does not verify; and such an approval does make it fail.
\<close>

section \<open>Runs\<close>

fun run :: "crypto \<Rightarrow> (string \<Rightarrow> string) \<Rightarrow> wording \<Rightarrow> (gotime \<times> disk \<times> Request) list \<Rightarrow> Proxy \<Rightarrow> Proxy" where
  "run C q T [] p = p"
| "run C q T ((now, d, req) # ins) p = run C q T ins (snd (Handle C q T now d req p))"

definition request_credentials :: "Request \<Rightarrow> Credential set" where
  "request_credentials req =
     (case rq_Chain req of None \<Rightarrow> {} | Some ch \<Rightarrow> lk_Credential ` set (Links ch))"

definition presented :: "(gotime \<times> disk \<times> Request) list \<Rightarrow> Credential set" where
  "presented ins = (\<Union>x \<in> set ins. request_credentials (snd (snd x)))"

section \<open>Stored evidence verifies like the presented one\<close>

lemma hop_follows_credentials:
  "successively hop_follows lks =
     successively (\<lambda>p c. cr_Issuer c = cr_Subject p \<and> is_ok (Extends (cr_Macaroon c) (cr_Macaroon p)))
       (map lk_Credential lks)"
  by (simp add: successively_map hop_follows_def)

lemma Chain_Verify_same_credentials:
  assumes "map lk_Credential lks' = map lk_Credential lks" and "list_all (hop_sound C r) lks'"
    and "is_ok (Chain_Verify C r \<lparr>Links = lks\<rparr>)"
  shows "is_ok (Chain_Verify C r \<lparr>Links = lks'\<rparr>)"
  using assms map_eq_imp_length_eq [OF assms(1)]
  by (auto simp: Chain_Verify_ok hop_follows_credentials)

lemma Principals_credentials:
  assumes "map lk_Credential lks' = map lk_Credential lks"
  shows "Principals \<lparr>Links = lks'\<rparr> = Principals \<lparr>Links = lks\<rparr>"
proof -
  have "map (\<lambda>l. cr_Subject (lk_Credential l)) lks' = map (\<lambda>l. cr_Subject (lk_Credential l)) lks"
    using arg_cong [OF assms, of "map cr_Subject"] by (simp add: comp_def)
  then show ?thesis using assms by (cases lks'; cases lks) (auto simp: Principals_def)
qed

lemma last_credential:
  "map lk_Credential lks' = map lk_Credential lks \<Longrightarrow> lks \<noteq> [] \<Longrightarrow>
     lk_Credential (last lks') = lk_Credential (last lks)"
  by (metis last_map map_is_Nil_conv)

lemma listed_hops_credentials:
  assumes "map lk_Credential lks' = map lk_Credential lks"
  shows "listed_hops lks' = listed_hops lks"
  using arg_cong [OF assms, of "\<lambda>cs. length (filter (\<lambda>c. ref_ListURL (cr_StatusRef c) \<noteq> []) cs)"]
  by (simp add: listed_hops_def filter_map comp_def)

lemma list_all_credentials:
  assumes "map lk_Credential lks' = map lk_Credential lks"
  shows "list_all (\<lambda>lk. Q (lk_Credential lk)) lks' = list_all (\<lambda>lk. Q (lk_Credential lk)) lks"
  using arg_cong [OF assms, of "list_all Q"] by (simp add: list.pred_map comp_def)

lemma Principals_last: "Links ch \<noteq> [] \<Longrightarrow> last (Principals ch) = cr_Subject (lk_Credential (last (Links ch)))"
  by (auto simp: Principals_def last_map split: list.split)

lemma verify_allow_credentials:
  assumes "map lk_Credential lks' = map lk_Credential lks" and "lks \<noteq> []"
  shows "is_ok (verify_allow C q ex inp e lks') = is_ok (verify_allow C q ex inp e lks)"
  using last_credential [OF assms] listed_hops_credentials [OF assms(1)]
    list_all_credentials [OF assms(1), of "\<lambda>c. ref_ListURL (cr_StatusRef c) \<noteq> [] \<longrightarrow> hop_unrevoked C inp c"]
  by (simp add: verify_allow_ok check_status_ok sweep_hops_ok)

text \<open>The links the evidence set yields for a list of addresses.\<close>

definition stored_link :: "CredentialSet \<Rightarrow> string \<Rightarrow> Link" where
  "stored_link s k =
     (case cs_records s k of
        None \<Rightarrow> \<lparr>lk_Credential = undefined, lk_IssuerProof = []\<rparr>
      | Some r \<Rightarrow> \<lparr>lk_Credential = rc_Credential r, lk_IssuerProof = rc_IssuerProof r\<rparr>)"

definition creds_in :: "Credential set \<Rightarrow> CredentialSet \<Rightarrow> bool" where
  "creds_in P s \<longleftrightarrow> (\<forall>k r. cs_records s k = Some r \<longrightarrow> rc_Credential r \<in> P)"

lemma stored_links:
  assumes "proxy_inv C p" and "list_all (\<lambda>k. cs_records (p_set p) k \<noteq> None) ids"
    and "map (\<lambda>lk. CredentialID C (lk_Credential lk)) lks = map Inr ids"
    and "lk_Credential ` set lks \<subseteq> P" and "creds_in P (p_set p)"
    and "inj_on (CredentialID C) P"
  shows "evidence_links C (cs_records (p_set p)) ids (map (stored_link (p_set p)) ids)"
    and "map lk_Credential (map (stored_link (p_set p)) ids) = map lk_Credential lks"
    and "list_all (hop_sound C (p_dids p)) (map (stored_link (p_set p)) ids)"
proof -
  have inv: "set_addressed C (p_set p)" "stored_sound C (p_dids p) (p_set p)"
    using assms(1) by (simp_all add: proxy_inv_def)
  show "evidence_links C (cs_records (p_set p)) ids (map (stored_link (p_set p)) ids)"
    using assms(2) inv(1)
    by (auto simp: evidence_links_def list_all2_conv_all_nth list_all_length stored_link_def set_addressed_def)
  show "list_all (hop_sound C (p_dids p)) (map (stored_link (p_set p)) ids)"
    using assms(2) inv(2) by (auto simp: list_all_iff stored_link_def stored_sound_def)
  have len: "length lks = length ids" using map_eq_imp_length_eq [OF assms(3)] .
  show "map lk_Credential (map (stored_link (p_set p)) ids) = map lk_Credential lks"
  proof (rule nth_equalityI)
    fix n
    assume "n < length (map lk_Credential (map (stored_link (p_set p)) ids))"
    then have n: "n < length ids" by simp
    then obtain r where r: "cs_records (p_set p) (ids ! n) = Some r"
      using assms(2) by (auto simp: list_all_length)
    have "CredentialID C (rc_Credential r) = Inr (ids ! n)"
      using inv(1) r record_key_ID(1) unfolding set_addressed_def by blast
    moreover have "CredentialID C (lk_Credential (lks ! n)) = Inr (ids ! n)"
      using arg_cong [OF assms(3), of "\<lambda>l. l ! n"] n len by simp
    moreover have "rc_Credential r \<in> P" "lk_Credential (lks ! n) \<in> P"
      using assms(4,5) r n len by (auto simp: creds_in_def)
    ultimately have "rc_Credential r = lk_Credential (lks ! n)" using assms(6) by (metis inj_onD)
    with n len r show "map lk_Credential (map (stored_link (p_set p)) ids) ! n = map lk_Credential lks ! n"
      by (simp add: stored_link_def)
  qed (simp add: len)
qed

section \<open>Entries the verifier accepts\<close>

text \<open>An entry as the proxy writes it, independent of the evidence set it ends up next to.\<close>

definition entry_checked ::
  "crypto \<Rightarrow> (string \<Rightarrow> string) \<Rightarrow> Inputs \<Rightarrow> Policy \<Rightarrow> Credential set \<Rightarrow> Entry \<Rightarrow> bool" where
  "entry_checked C q inp pol P e \<longleftrightarrow>
     (\<exists>ch. is_ok (Chain_Verify C (in_DIDs inp) ch) \<and> Principals ch = e_ResolvedChain e \<and>
        map (\<lambda>lk. CredentialID C (lk_Credential lk)) (Links ch) = map Inr (e_ChainCredentialIDs e) \<and>
        lk_Credential ` set (Links ch) \<subseteq> P \<and>
        (d_Allowed (e_Decision e) \<longrightarrow>
           e_PolicyID e = PolicyID C pol \<and>
           (let d = Policy_Evaluate q pol (e_Action e); c = lk_Credential (last (Links ch)) in
            d_Allowed d \<and> d_Consequential (e_Decision e) = d_Consequential d \<and>
            d_RuleFired (e_Decision e) = d_RuleFired d \<and> d_PolicyVersion (e_Decision e) = d_PolicyVersion d \<and>
            is_ok (Macaroon_Satisfies (cr_Macaroon c) (Context (e_Action e) ++ HolderContext c)) \<and>
            is_ok (check_status C inp (d_Consequential d) e (Links ch)) \<and> is_ok (check_pop C c e) \<and>
            (d_Consequential d \<longrightarrow> approval_valid C inp (cr_Subject c) e)))) \<and>
     (e_Approval e = [] \<longrightarrow> e_ApprovedBy e = [])"

definition rejects_empty :: "crypto \<Rightarrow> bool" where
  "rejects_empty C \<longleftrightarrow> (\<forall>k m. \<not> Signer_Verify C k m [])"

lemma recorded_checked:
  assumes "recorded C q T now req ch i e p p'" and "attributed C p req ch" and "p_policy p = Shipped pol"
    and "p_policyID p = PolicyID C pol" and "rejects_empty C" and "lk_Credential ` set (Links ch) \<subseteq> P"
  shows "entry_checked C q (proxy_inputs p) pol P e"
proof -
  let ?c = "lk_Credential (last (Links ch))" and ?d = "Policy_Evaluate q pol (rq_Action req)"
  let ?seq = "fst (Tip (p_log p))" and ?ph = "snd (Tip (p_log p))"
  note f = recorded_entry [OF assms(1)]
  have eval: "evaluate q p (rq_Action req) = Inr ?d" using assms(3) by (simp add: evaluate_def)
  have dec: "e_Decision e = decide C q T p req ch ?c ?seq ?ph" by (simp add: f decision_of_def)
  have pop: "is_ok (check_pop C ?c e)"
    using assms(2,5)
    by (auto simp: attributed_def check_pop_ok f VerifyPossession_def rejects_empty_def split: sum.splits if_splits)
  have allow: "d_Allowed ?d \<and> d_Consequential (e_Decision e) = d_Consequential ?d \<and>
      d_RuleFired (e_Decision e) = d_RuleFired ?d \<and> d_PolicyVersion (e_Decision e) = d_PolicyVersion ?d \<and>
      is_ok (Macaroon_Satisfies (cr_Macaroon ?c) (Context (rq_Action req) ++ HolderContext ?c)) \<and>
      is_ok (check_status C (proxy_inputs p) (d_Consequential ?d) e (Links ch)) \<and>
      (d_Consequential ?d \<longrightarrow> approval_valid C (proxy_inputs p) (cr_Subject ?c) e)"
    if "d_Allowed (e_Decision e)"
  proof -
    from that dec obtain d where d: "allow_conditions C q T p req ch ?c ?seq ?ph d"
      using decide_allowed by auto
    then have "d = ?d" using eval by (simp add: allow_conditions_def)
    with d have c: "allow_conditions C q T p req ch ?c ?seq ?ph ?d" by simp
    note dd = decide_allows [OF c, folded dec]
    from c show ?thesis
      by (auto simp: dd allow_conditions_def check_status_ok sweep_hops_ok status_clear_def
          proxy_verifyApproval_ok approval_valid_def f)
  qed
  show ?thesis
    unfolding entry_checked_def Let_def
    using assms(2,4,6) recorded_evidence(1) [OF assms(1)] pop allow
    by (intro conjI exI [of _ ch]) (auto simp: f attributed_def)
qed

lemma PolicyID_nonempty: "crypto_laws C \<Longrightarrow> PolicyID C pol \<noteq> []"
proof
  assume "crypto_laws C" "PolicyID C pol = []"
  then have "RawURLDecode (PolicyID C pol) = Some []" "length (sha256 C (policy_preimage pol)) = 32"
    by (simp_all add: RawURLDecode_def crypto_laws_def)
  then show False by (auto simp: PolicyID_def)
qed

lemma checked_entry_passes:
  assumes "entry_checked C q (proxy_inputs p) pol P e" and "proxy_inv C p" and "e \<in> set (l_entries (p_log p))"
    and "creds_in P (p_set p)" and "inj_on (CredentialID C) P"
    and "x_Credentials ex = cs_records (p_set p)" and "x_Policy ex = Some pol" and "\<not> IsV1 ex" and "crypto_laws C"
    and "d_Allowed (e_Decision e) \<Longrightarrow> \<not> d_Consequential (e_Decision e) \<Longrightarrow> e_Approval e \<noteq> [] \<Longrightarrow>
      approval_valid C (proxy_inputs p) (last (e_ResolvedChain e)) e"
  shows "er_Outcome (verifyEntry C q ex (proxy_inputs p) e) \<notin> {OutcomeFail, OutcomeUnverified}"
proof -
  let ?inp = "proxy_inputs p"
  let ?lks = "map (stored_link (p_set p)) (e_ChainCredentialIDs e)"
  obtain ch where ch: "is_ok (Chain_Verify C (p_dids p) ch)" "Principals ch = e_ResolvedChain e"
      "map (\<lambda>lk. CredentialID C (lk_Credential lk)) (Links ch) = map Inr (e_ChainCredentialIDs e)"
      "lk_Credential ` set (Links ch) \<subseteq> P"
    and al: "d_Allowed (e_Decision e) \<longrightarrow>
           e_PolicyID e = PolicyID C pol \<and>
           (let d = Policy_Evaluate q pol (e_Action e); c = lk_Credential (last (Links ch)) in
            d_Allowed d \<and> d_Consequential (e_Decision e) = d_Consequential d \<and>
            d_RuleFired (e_Decision e) = d_RuleFired d \<and> d_PolicyVersion (e_Decision e) = d_PolicyVersion d \<and>
            is_ok (Macaroon_Satisfies (cr_Macaroon c) (Context (e_Action e) ++ HolderContext c)) \<and>
            is_ok (check_status C ?inp (d_Consequential d) e (Links ch)) \<and> is_ok (check_pop C c e) \<and>
            (d_Consequential d \<longrightarrow> approval_valid C ?inp (cr_Subject c) e))"
    and ap: "e_Approval e = [] \<longrightarrow> e_ApprovedBy e = []"
    using assms(1) by (auto simp: entry_checked_def)
  have stored: "list_all (\<lambda>k. cs_records (p_set p) k \<noteq> None) (e_ChainCredentialIDs e)"
    using assms(2,3) by (auto simp: proxy_inv_def list_all_iff)
  note st = stored_links [OF assms(2) stored ch(3,4) assms(4,5)]
  have ne: "Links ch \<noteq> []" using ch(1) by (auto simp: Chain_Verify_ok)
  have subj: "cr_Subject (lk_Credential (last (Links ch))) = last (e_ResolvedChain e)"
    using Principals_last [OF ne] ch(2) by simp
  have "resolve_entry C ex ?inp e = Inr ?lks"
    unfolding resolve_entry_ok
    using st ch(1,2) Chain_Verify_same_credentials [OF st(2,3)] Principals_credentials [OF st(2)] assms(6)
    by simp
  moreover have "is_ok (verify_allow C q ex ?inp e ?lks)" if a: "d_Allowed (e_Decision e)"
  proof -
    have "is_ok (verify_allow C q ex ?inp e (Links ch))"
      using al a assms(7,10) ap subj PolicyID_nonempty [OF assms(9), of pol]
      by (auto simp: verify_allow_ok check_policy_ok check_approval_ok Let_def)
    then show ?thesis using verify_allow_credentials [OF st(2) ne] by blast
  qed
  ultimately show ?thesis using verifyEntry_not_fail [OF assms(8)] by blast
qed

section \<open>Runs keep it\<close>

definition conforming ::
  "crypto \<Rightarrow> (string \<Rightarrow> string) \<Rightarrow> Policy \<Rightarrow> Credential set \<Rightarrow> Proxy \<Rightarrow> bool" where
  "conforming C q pol P p \<longleftrightarrow>
     proxy_inv C p \<and> p_policy p = Shipped pol \<and> p_carriedPolicy p = Some pol \<and> p_policyID p = PolicyID C pol \<and>
     creds_in P (p_set p) \<and> list_all (entry_checked C q (proxy_inputs p) pol P) (l_entries (p_log p))"

lemma Handle_conforming:
  assumes "Handle C q T now d req p = (res, p')" and "conforming C q pol P p"
    and "signer_ok C (p_enforcementPoint p)" and "rejects_empty C"
    and "\<And>ch. rq_Chain req = Some ch \<Longrightarrow> lk_Credential ` set (Links ch) \<subseteq> P"
  shows "conforming C q pol P p' \<and> p_enforcementPoint p' = p_enforcementPoint p \<and> proxy_inputs p' = proxy_inputs p"
proof (cases rule: Handle_cases [OF assms(1)])
  case (1 ch e i)
  have sub: "lk_Credential ` set (Links ch) \<subseteq> P" using assms(5) 1(2) by (simp add: attributed_def)
  note f = recorded_fields [OF 1(3)]
  have inputs: "proxy_inputs p' = proxy_inputs p" by (simp add: f)
  have "entry_checked C q (proxy_inputs p) pol P e"
    using recorded_checked [OF 1(3,2) _ _ assms(4) sub] assms(2) by (simp add: conforming_def)
  moreover have "creds_in P (p_set p')"
    unfolding creds_in_def
  proof (intro allI impI)
    fix k r
    assume "cs_records (p_set p') k = Some r"
    from recorded_evidence(4) [OF 1(3) this] show "rc_Credential r \<in> P"
    proof
      assume "cs_records (p_set p) k = Some r"
      then show ?thesis using assms(2) by (auto simp: conforming_def creds_in_def)
    next
      assume "record_key C r = Some k \<and>
        \<lparr>lk_Credential = rc_Credential r, lk_IssuerProof = rc_IssuerProof r\<rparr> \<in> set (Links ch)"
      then have "rc_Credential r \<in> lk_Credential ` set (Links ch)" by force
      with sub show ?thesis by blast
    qed
  qed
  moreover have "proxy_inv C p'"
    using proxy_inv_recorded [OF 1(3,2) _ assms(3)] assms(2) by (simp add: conforming_def)
  ultimately show ?thesis using assms(2) by (simp add: conforming_def f)
next
  case (2 x)
  then show ?thesis
    using assms(2) same_record_fields [OF 2(2)] proxy_inv_same_record [OF 2(2)] by (simp add: conforming_def)
qed

lemma run_conforming:
  "conforming C q pol P p \<Longrightarrow> signer_ok C (p_enforcementPoint p) \<Longrightarrow> rejects_empty C \<Longrightarrow> presented ins \<subseteq> P \<Longrightarrow>
     conforming C q pol P (run C q T ins p) \<and> p_enforcementPoint (run C q T ins p) = p_enforcementPoint p \<and>
     proxy_inputs (run C q T ins p) = proxy_inputs p"
proof (induction ins arbitrary: p)
  case (Cons x ins)
  obtain now d req where x: "x = (now, d, req)" by (cases x)
  obtain res p' where h: "Handle C q T now d req p = (res, p')" by (cases "Handle C q T now d req p")
  have "lk_Credential ` set (Links ch) \<subseteq> P" if "rq_Chain req = Some ch" for ch
    using Cons.prems(4) that x by (simp add: presented_def request_credentials_def)
  note step = Handle_conforming [OF h Cons.prems(1-3) this]
  moreover have "presented ins \<subseteq> presented (x # ins)" by (auto simp: presented_def)
  then have "presented ins \<subseteq> P" using Cons.prems(4) by blast
  ultimately show ?case using Cons.IH [of p'] Cons.prems(2,3) x h by simp
qed simp

lemma honest_export_passes_aux:
  assumes "NewProxy C cfg = Inr p0" and "cf_WAL cfg = None" and "cf_Policy cfg = Some (Shipped pol)"
    and "signer_ok C (p_enforcementPoint p0)" and "crypto_laws C" and "rejects_empty C"
    and "p = run C q T ins p0" and "inj_on (CredentialID C) (presented ins)"
    and "ResolveKey C (p_dids p0) (s_DID (p_enforcementPoint p0)) = Inr (s_Public (p_enforcementPoint p0))"
    and "list_all (\<lambda>e. d_Allowed (e_Decision e) \<and> \<not> d_Consequential (e_Decision e) \<and> e_Approval e \<noteq> [] \<longrightarrow>
      approval_valid C \<lparr>in_DIDs = p_dids p0, in_Status = p_status p0\<rparr> (last (e_ResolvedChain e)) e) (Proxy_Entries p)"
    and "Proxy_Export C p = Inr ex"
  shows "\<exists>res. Export_Verify C q ex \<lparr>in_DIDs = p_dids p0, in_Status = p_status p0\<rparr> = Inr res \<and> Result_Pass res"
proof -
  obtain ep dids where p0: "p0 = fresh_proxy C ep (Shipped pol) dids cfg"
    using assms(1-3) by (auto simp: NewProxy_def split: option.splits)
  have "conforming C q pol (presented ins) p0"
    using fresh_proxy_inv [of C ep "Shipped pol" dids cfg]
    by (simp add: conforming_def p0) (simp add: fresh_proxy_def NewLog_def creds_in_def NewCredentialSet_def)
  with run_conforming [of C q pol "presented ins" p0 ins T] assms(4,6,7)
  have c: "conforming C q pol (presented ins) p" and ep: "p_enforcementPoint p = p_enforcementPoint p0"
    and inp: "proxy_inputs p = proxy_inputs p0"
    by auto
  let ?s = "p_enforcementPoint p0" and ?es = "l_entries (p_log p)"
  let ?m = "envelopeSigningInput Version (s_DID ?s) (PolicyID C pol) (of_nat (length ?es)) (logTip ?es)"
  from assms(11) c ep obtain sig where sig: "s_Sign ?s ?m = Some sig"
    and ex: "ex = \<lparr>x_Version = Version, x_Signer = s_DID ?s, x_Entries = ?es,
      x_Credentials = cs_records (p_set p), x_Policy = Some pol, x_EnvelopeSignature = sig\<rparr>"
    by (auto simp: Proxy_Export_def Export_Build_def Entries_def pid_of_def CredentialSet_Records_def conforming_def
        split: option.splits)
  have ver: "Signer_Verify C (s_Public ?s) ?m sig" using signer_okD [OF assms(4) sig] .
  then have "sig \<noteq> []" using assms(6) by (auto simp: rejects_empty_def)
  with ver have env: "verifyEnvelope C ex (s_Public ?s) = Inr ()" by (simp add: verifyEnvelope_def ex pid_of_def)
  have v2: "\<not> IsV1 ex" by (simp add: ex IsV1_def Version_def ExportVersion_def)
  have log: "VerifyEntries C ?es (s_Public ?s) = Inr ()"
    using c ep by (simp add: conforming_def proxy_inv_def Inr_unit_iff)
  have pass: "er_Outcome (verifyEntry C q ex (proxy_inputs p) e) \<notin> {OutcomeFail, OutcomeUnverified}" if "e \<in> set ?es" for e
  proof (rule checked_entry_passes [where P = "presented ins" and pol = pol])
    show "approval_valid C (proxy_inputs p) (last (e_ResolvedChain e)) e"
      if "d_Allowed (e_Decision e)" "\<not> d_Consequential (e_Decision e)" "e_Approval e \<noteq> []"
      using assms(10) \<open>e \<in> set ?es\<close> that inp by (simp add: list_all_iff Proxy_Entries_def Entries_def)
  qed (use c that ex v2 assms(5,8) in \<open>auto simp: conforming_def list_all_iff\<close>)
  have "Export_Verify C q ex (proxy_inputs p0) =
      Inr \<lparr>rs_Version = Version, rs_EvidenceCarried = True, rs_FatalReason = None,
           rs_Entries = map (\<lambda>(i, e). verifyEntry C q ex (proxy_inputs p0) e) (List.enumerate 0 ?es)\<rparr>"
    using assms(9) env v2 log by (simp add: Export_Verify_def entry_results_def ex)
  moreover have "list_all (\<lambda>r. er_Outcome r \<noteq> OutcomeFail \<and> er_Outcome r \<noteq> OutcomeUnverified)
      (map (\<lambda>(i, e). verifyEntry C q ex (proxy_inputs p0) e) (List.enumerate 0 ?es))"
    using pass inp by (auto simp: list_all_iff in_set_enumerate_eq)
  ultimately show ?thesis by (simp add: Result_Pass_def)
qed

lemma toy_rejects_empty: "rejects_empty toy_crypto"
  by (auto simp: rejects_empty_def Signer_Verify_def toy_crypto_def split: public_key.splits)

text \<open>One answered request of the sample agent, and the export built afterwards.\<close>

lemma sample_export:
  assumes "length appr \<le> 512"
  shows "\<exists>lk req e p' ex. rq_Approval req = appr \<and> rq_Approver req = by \<and> rq_Chain req = Some \<lparr>Links = [lk]\<rparr> \<and>
    Handle toy_crypto id plain_wording sample_time DiskOk req (sample_proxy None) =
      (Inr (decision_of toy_crypto id plain_wording (sample_proxy None) req \<lparr>Links = [lk]\<rparr>, e), p') \<and>
    d_Allowed (decision_of toy_crypto id plain_wording (sample_proxy None) req \<lparr>Links = [lk]\<rparr>) \<and>
    \<not> d_Consequential (decision_of toy_crypto id plain_wording (sample_proxy None) req \<lparr>Links = [lk]\<rparr>) \<and>
    Proxy_Export toy_crypto p' = Inr ex \<and> x_Signer ex = ''proxy'' \<and> x_Entries ex = [e] \<and> e_Approval e = appr"
proof -
  let ?p = "sample_proxy None"
  obtain lk req e p' where h: "rq_Approval req = appr" "rq_Approver req = by" "rq_Chain req = Some \<lparr>Links = [lk]\<rparr>"
    "Handle toy_crypto id plain_wording sample_time DiskOk req ?p =
      (Inr (decision_of toy_crypto id plain_wording ?p req \<lparr>Links = [lk]\<rparr>, e), p')"
    "d_Allowed (decision_of toy_crypto id plain_wording ?p req \<lparr>Links = [lk]\<rparr>)"
    using sample_answered [OF assms, of None "by"] by auto
  have pol: "evaluate id ?p (rq_Action req) = Inr (Policy_Evaluate id routine_policy (rq_Action req))"
    by (simp add: evaluate_def sample_proxy_def fresh_proxy_def)
  obtain d where d: "allow_conditions toy_crypto id plain_wording ?p req \<lparr>Links = [lk]\<rparr> (lk_Credential lk)
      (fst (Tip (p_log ?p))) (snd (Tip (p_log ?p))) d"
    using h(5) by (auto simp: decision_of_def decide_allowed)
  have nc: "\<not> d_Consequential (decision_of toy_crypto id plain_wording ?p req \<lparr>Links = [lk]\<rparr>)"
    using decide_allows [OF d] d pol by (auto simp: decision_of_def allow_conditions_def routine_decision)
  show ?thesis
  proof (cases rule: Handle_cases [OF h(4)])
    case (1 ch e' i)
    then have e: "e' = e" by simp
    note f = recorded_fields [OF 1(3)]
    have "Proxy_Entries p' = [e]"
      using f(1) e by (simp add: Proxy_Entries_def Entries_def sample_proxy_def fresh_proxy_def NewLog_def)
    moreover obtain ex where "Proxy_Export toy_crypto p' = Inr ex" "x_Signer ex = ''proxy''" "x_Entries ex = Proxy_Entries p'"
      using f(9) by (auto simp: Proxy_Export_def Export_Build_def Proxy_Entries_def sample_proxy_def fresh_proxy_def toy_signer_def)
    ultimately show ?thesis
      using h nc recorded_entry(10) [OF 1(3)] e
      by (intro exI [of _ lk] exI [of _ req] exI [of _ e] exI [of _ p'] exI [of _ ex]) simp
  qed simp
qed

lemma sample_passes:
  "\<exists>ex res e. x_Entries ex = [e] \<and> d_Allowed (e_Decision e) \<and>
     Export_Verify toy_crypto id ex toy_inputs = Inr res \<and> Result_Pass res"
proof -
  let ?p = "sample_proxy None"
  obtain lk req e p' ex dec where s: "rq_Approval req = []" "rq_Chain req = Some \<lparr>Links = [lk]\<rparr>"
    "Handle toy_crypto id plain_wording sample_time DiskOk req ?p = (Inr (dec, e), p')" "d_Allowed dec"
    "Proxy_Export toy_crypto p' = Inr ex" "x_Entries ex = [e]" "e_Approval e = []"
    using sample_export [of "[]" "[]"] by auto
  have p0: "NewProxy toy_crypto (sample_config None) = Inr ?p" "cf_WAL (sample_config None) = None"
    "cf_Policy (sample_config None) = Some (Shipped routine_policy)"
    by (simp_all add: NewProxy_def sample_config_def sample_proxy_def)
  have ok: "signer_ok toy_crypto (p_enforcementPoint ?p)"
    by (simp add: sample_proxy_def fresh_proxy_def toy_signer_ok)
  have run: "p' = run toy_crypto id plain_wording [(sample_time, DiskOk, req)] ?p" using s(3) by simp
  have pres: "presented [(sample_time, DiskOk, req)] = {lk_Credential lk}" using s(2) by (simp add: presented_def request_credentials_def)
  have ents: "Proxy_Entries p' = [e]" using s(5,6)
    by (auto simp: Proxy_Export_def Export_Build_def Proxy_Entries_def split: option.splits)
  have key: "ResolveKey toy_crypto (p_dids ?p) (s_DID (p_enforcementPoint ?p)) = Inr (s_Public (p_enforcementPoint ?p))"
    by (simp add: sample_proxy_def fresh_proxy_def toy_signer_def sample_keys_def)
  have inp: "\<lparr>in_DIDs = p_dids ?p, in_Status = p_status ?p\<rparr> = toy_inputs"
    by (simp add: toy_inputs_def sample_proxy_def fresh_proxy_def sample_config_def)
  have "e_Decision e = dec"
    using Handle_cases [OF s(3)] recorded_entry(6) by (metis Inl_Inr_False Pair_inject sum.inject(2))
  moreover have "\<exists>res. Export_Verify toy_crypto id ex \<lparr>in_DIDs = p_dids ?p, in_Status = p_status ?p\<rparr> = Inr res \<and> Result_Pass res"
    by (rule honest_export_passes_aux [OF p0 ok toy_crypto_laws toy_rejects_empty run _ key _ s(5)])
      (simp_all add: pres ents s(7))
  ultimately show ?thesis using s(4,6) inp by metis
qed

section \<open>Properties\<close>



text \<open>
  The soundness theorem of the verifier at an export with an allowed entry.
\<close>

theorem verifier_pass_sound_witness:
  "\<exists>ex e. x_Entries ex = [e] \<and> d_Allowed (e_Decision e) \<and> entry_backed toy_crypto id ex toy_inputs e"
proof -
  obtain ex res e where ex: "x_Entries ex = [e]" "d_Allowed (e_Decision e)"
    and v: "Export_Verify toy_crypto id ex toy_inputs = Inr res" "Result_Pass res"
    using sample_passes by blast
  from verifier_pass_sound [OF v] ex show ?thesis by auto
qed

text \<open>
  C27. A routine allow can poison the export.  The proxy does not look at an approval attached
  to an action that is not consequential, but records it; if that approval does not verify,
  the export that holds the entry never passes, whatever else it contains.
\<close>

theorem unverified_routine_approval_fails_export:
  assumes "Handle C q T now d req p = (Inr (dec, e), p')" and "d_Allowed dec" and "\<not> d_Consequential dec"
    and "rq_Approval req \<noteq> []" and "rq_Chain req = Some ch"
    and "\<And>key. ResolveKey C (in_DIDs inp) (rq_Approver req) = Inr key \<Longrightarrow>
      \<not> is_ok (VerifyApproval C key (Chain_Actor ch) (rq_Action req) (fst (Proxy_Tip p)) (snd (Proxy_Tip p)) (rq_Approval req))"
    and "e \<in> set (x_Entries ex)" and "Export_Verify C q ex inp = Inr res"
  shows "\<not> Result_Pass res"
proof
  assume "Result_Pass res"
  then obtain key where v2: "\<not> IsV1 ex"
    and ok: "list_all (\<lambda>e. er_Outcome (verifyEntry C q ex inp e) \<notin> {OutcomeFail, OutcomeUnverified}) (x_Entries ex)"
    using Export_Verify_pass [OF assms(8)] by metis
  show False
  proof (cases rule: Handle_cases [OF assms(1)])
    case (1 ch' e' i)
    then have same: "e' = e" "ch' = ch" "decision_of C q T p req ch = dec"
      using assms(5) by (auto simp: attributed_def)
    note f = recorded_entry [OF 1(3), unfolded same]
    from ok assms(7) have "er_Outcome (verifyEntry C q ex inp e) \<notin> {OutcomeFail, OutcomeUnverified}"
      by (simp add: list_all_iff)
    then obtain lks where lks: "resolve_entry C ex inp e = Inr lks" "is_ok (verify_allow C q ex inp e lks)"
      using verifyEntry_not_fail [OF v2] assms(2) f(6) by auto
    then have ch_ok: "is_ok (Chain_Verify C (in_DIDs inp) \<lparr>Links = lks\<rparr>)" "Principals \<lparr>Links = lks\<rparr> = Principals ch"
      using f(4) by (auto simp: resolve_entry_ok)
    obtain b where "is_ok (check_approval C inp b (lk_Credential (last lks)) e)"
      using lks(2) unfolding verify_allow_ok by blast
    then have av: "approval_valid C inp (cr_Subject (lk_Credential (last lks))) e"
      using f(10) assms(4) by (simp add: check_approval_ok)
    have ne: "lks \<noteq> []" "Links ch \<noteq> []"
      using ch_ok(1) 1(2) same by (auto simp: Chain_Verify_ok attributed_def)
    have "cr_Subject (lk_Credential (last lks)) = Chain_Actor ch"
      using Principals_last [of "\<lparr>Links = lks\<rparr>"] Principals_last [of ch] ch_ok(2) ne by (simp add: Chain_Actor_def)
    with av assms(4,6) f show False by (auto simp: approval_valid_def Proxy_Tip_def)
  qed simp
qed

theorem unverified_routine_approval_fails_export_witness:
  "\<exists>req dec e p' ex. Handle toy_crypto id plain_wording sample_time DiskOk req (sample_proxy None) = (Inr (dec, e), p') \<and>
     d_Allowed dec \<and> Proxy_Export toy_crypto p' = Inr ex \<and>
     (\<exists>res. Export_Verify toy_crypto id ex toy_inputs = Inr res \<and> \<not> Result_Pass res)"
proof -
  obtain lk req e p' ex dec where s: "rq_Approval req = ''junk''" "rq_Approver req = ''org''"
    "rq_Chain req = Some \<lparr>Links = [lk]\<rparr>"
    "Handle toy_crypto id plain_wording sample_time DiskOk req (sample_proxy None) = (Inr (dec, e), p')"
    "d_Allowed dec" "\<not> d_Consequential dec" "Proxy_Export toy_crypto p' = Inr ex" "x_Entries ex = [e]"
    using sample_export [of "''junk''" "''org''"] by auto
  have junk: "\<not> is_ok (VerifyApproval toy_crypto (Ed25519Key (toy_key k)) a act n h ''junk'')" for k a act n h
  proof -
    have "length ''junk'' \<noteq> length (toy_key k @ x)" for x by (simp add: toy_key_def)
    then have "''junk'' \<noteq> toy_key k @ x" for x by metis
    then show ?thesis by (auto simp: VerifyApproval_def split: sum.splits)
  qed
  have "\<exists>res. Export_Verify toy_crypto id ex toy_inputs = Inr res"
    by (simp add: Export_Verify_def toy_inputs_def Let_def split: sum.split)
  then obtain res where res: "Export_Verify toy_crypto id ex toy_inputs = Inr res" ..
  have "\<not> Result_Pass res"
    by (rule unverified_routine_approval_fails_export [OF s(4-6) _ s(3) _ _ res])
      (use s junk in \<open>auto simp: toy_inputs_def\<close>)
  with s res show ?thesis by blast
qed

end
