(* ===== verification/Issuer.thy ===== *)
theory Issuer
  imports Evidence Did_Web
begin

text \<open>
  The issuer's publication step: \<^verbatim>\<open>internal/keystore\<close> and \<^verbatim>\<open>cmd/issuer/publish.go\<close>.  The file system is a
  map from paths to contents; encoders, \<^verbatim>\<open>url.Parse\<close> and the file system's refusals are gathered
  in the record \<open>outside\<close>.  The lemmas show that a published directory resolves and that its
  chain verifies against it, and that revoking flips exactly one published bit.
\<close>

section \<open>Keystore\<close>

fun hex_DecodeString :: "string \<Rightarrow> bytes option" where
  "hex_DecodeString [] = Some []"
| "hex_DecodeString [_] = None"
| "hex_DecodeString (a # b # s) =
     (if is_hex a \<and> is_hex b
      then map_option ((#) (char_of (hex_value a * 16 + hex_value b))) (hex_DecodeString s)
      else None)"

type_synonym Keystore = "DID \<rightharpoonup> string"

datatype keystore_err = KeystoreRead string | KeystoreParse string | NoSeed DID | SeedNotHex DID | BadSeed DID

definition keystore_Load ::
  "(bytes \<Rightarrow> Keystore option) \<Rightarrow> (string \<rightharpoonup> bytes) \<Rightarrow> string \<Rightarrow> keystore_err + Keystore" where
  "keystore_Load unmarshal files path =
     (case files path of
        None \<Rightarrow> Inl (KeystoreRead path)
      | Some data \<Rightarrow> (case unmarshal data of None \<Rightarrow> Inl (KeystoreParse path) | Some ks \<Rightarrow> Inr ks))"

definition keystore_Signer :: "crypto \<Rightarrow> Keystore \<Rightarrow> DID \<Rightarrow> keystore_err + Signer" where
  "keystore_Signer C ks d =
     (case ks d of
        None \<Rightarrow> Inl (NoSeed d)
      | Some h \<Rightarrow>
          (case hex_DecodeString h of
             None \<Rightarrow> Inl (SeedNotHex d)
           | Some seed \<Rightarrow>
               (case NewSoftwareSignerFromSeed C d seed of None \<Rightarrow> Inl (BadSeed d) | Some s \<Rightarrow> Inr s)))"

section \<open>Specifications\<close>

record HopSpec =
  hs_Issuer :: DID
  hs_Subject :: DID
  hs_Caveats :: "Caveat list"
  hs_StatusIndex :: "int option"

record StatusSpec =
  ss_URL :: string
  ss_Issuer :: DID
  ss_Bits :: int

record Spec =
  sp_RootKeyHex :: string
  sp_Identifier :: string
  sp_Location :: string
  sp_Status :: StatusSpec
  sp_Hops :: "HopSpec list"
  sp_ExtraPrincipals :: "DID list"

datatype spec_err =
    RootKeyRequired
  | IdentifierRequired
  | NoHops
  | HopsTooDeep nat
  | StatusRequired
  | HopEnds nat
  | HopSelf nat
  | HopContinuity nat DID DID
  | RootKeyNotHex
  | SpecKey keystore_err
  | SpecDocument web_err
  | HopAttenuate nat macaroon_err
  | HopCredential nat credential_err
  | HopIssuance nat chain_err
  | HopID export_err
  | SpecList status_err
  | SpecPublish publish_err
  | ChainMarshal
  | ChainWrite string

fun validate_hops :: "nat \<Rightarrow> DID option \<Rightarrow> HopSpec list \<Rightarrow> spec_err + unit" where
  "validate_hops i prev [] = Inr ()"
| "validate_hops i prev (h # hs) =
     (if hs_Issuer h = [] \<or> hs_Subject h = [] then Inl (HopEnds i)
      else if hs_Issuer h = hs_Subject h then Inl (HopSelf i)
      else case prev of
          Some d \<Rightarrow>
            if hs_Issuer h \<noteq> d then Inl (HopContinuity i (hs_Issuer h) d)
            else validate_hops (Suc i) (Some (hs_Subject h)) hs
        | None \<Rightarrow> validate_hops (Suc i) (Some (hs_Subject h)) hs)"

definition Spec_validate :: "Spec \<Rightarrow> spec_err + unit" where
  "Spec_validate s =
     (if sp_RootKeyHex s = [] then Inl RootKeyRequired
      else if sp_Identifier s = [] then Inl IdentifierRequired
      else if sp_Hops s = [] then Inl NoHops
      else if length (sp_Hops s) > MaxDepth then Inl (HopsTooDeep (length (sp_Hops s)))
      else if ss_URL (sp_Status s) = [] \<or> ss_Issuer (sp_Status s) = [] then Inl StatusRequired
      else validate_hops 0 None (sp_Hops s))"

text \<open>The principals in order of first mention, the empty identifier left out.\<close>

fun add_new :: "DID list \<Rightarrow> DID list \<Rightarrow> DID list" where
  "add_new out [] = out"
| "add_new out (d # ds) = add_new (if d \<noteq> [] \<and> d \<notin> set out then out @ [d] else out) ds"

definition Spec_principals :: "Spec \<Rightarrow> DID list" where
  "Spec_principals s =
     add_new [] (concat (map (\<lambda>h. [hs_Issuer h, hs_Subject h]) (sp_Hops s)) @
       ss_Issuer (sp_Status s) # sp_ExtraPrincipals s)"

section \<open>Publication\<close>

record outside =
  ou_doc :: "Document \<Rightarrow> bytes"
  ou_list :: "published \<Rightarrow> bytes"
  ou_chain :: "Chain \<Rightarrow> bytes option"
  ou_url :: "string \<Rightarrow> list_url option"
  ou_mkdir :: "string \<Rightarrow> bool"
  ou_writable :: "string \<Rightarrow> bool"

record PublishResult =
  pu_Root :: string
  pu_DIDDocs :: "string list"
  pu_StatusPath :: string
  pu_ChainPath :: string
  pu_Chain :: Chain
  pu_CredentialIDs :: "string list"

fun publish_docs ::
  "crypto \<Rightarrow> outside \<Rightarrow> Keystore \<Rightarrow> string \<Rightarrow> DID list \<Rightarrow> (string \<rightharpoonup> bytes) \<Rightarrow>
   (spec_err + string list) \<times> (string \<rightharpoonup> bytes)" where
  "publish_docs C env ks dir [] files = (Inr [], files)"
| "publish_docs C env ks dir (d # ds) files =
     (case keystore_Signer C ks d of
        Inl e \<Rightarrow> (Inl (SpecKey e), files)
      | Inr s \<Rightarrow>
          (case WriteDocument (ou_doc env) (ou_writable env) dir (NewDocument d (s_Public s)) files of
             (Inl e, files') \<Rightarrow> (Inl (SpecDocument e), files')
           | (Inr path, files') \<Rightarrow>
               (case publish_docs C env ks dir ds files' of
                  (Inl e, files'') \<Rightarrow> (Inl e, files'')
                | (Inr paths, files'') \<Rightarrow> (Inr (path # paths), files''))))"

definition hop_reference :: "StatusSpec \<Rightarrow> HopSpec \<Rightarrow> Reference" where
  "hop_reference st h =
     (case hs_StatusIndex h of
        None \<Rightarrow> \<lparr>ref_ListURL = [], ref_Index = 0, ref_Issuer = []\<rparr>
      | Some k \<Rightarrow>
          \<lparr>ref_ListURL = ss_URL st, ref_Index = k,
           ref_Issuer = (if ss_Issuer st \<noteq> hs_Issuer h then ss_Issuer st else [])\<rparr>)"

text \<open>The minting loop: the links with their content addresses.\<close>

fun mint_hops ::
  "crypto \<Rightarrow> Keystore \<Rightarrow> StatusSpec \<Rightarrow> nat \<Rightarrow> Macaroon \<Rightarrow> HopSpec list \<Rightarrow> spec_err + (string \<times> Link) list" where
  "mint_hops C ks st i m [] = Inr []"
| "mint_hops C ks st i m (h # hs) =
     (case attenuate_all (hmac_sha256 C) m (hs_Caveats h) of
        Inl e \<Rightarrow> Inl (HopAttenuate i e)
      | Inr m' \<Rightarrow>
      (case keystore_Signer C ks (hs_Subject h) of
        Inl e \<Rightarrow> Inl (SpecKey e)
      | Inr holder \<Rightarrow>
      (case Credential_New C \<lparr>o_Subject = hs_Subject h, o_Issuer = hs_Issuer h, o_Macaroon = m',
               o_HolderKey = Some (s_Public holder), o_StatusRef = hop_reference st h, o_VCWrapper = None\<rparr> of
        Inl e \<Rightarrow> Inl (HopCredential i e)
      | Inr cred \<Rightarrow>
      (case keystore_Signer C ks (hs_Issuer h) of
        Inl e \<Rightarrow> Inl (SpecKey e)
      | Inr issuer \<Rightarrow>
      (case SignIssuance issuer cred of
        Inl e \<Rightarrow> Inl (HopIssuance i e)
      | Inr proof_ \<Rightarrow>
      (case CredentialID C cred of
        Inl e \<Rightarrow> Inl (HopID e)
      | Inr cid \<Rightarrow>
          map_sum id ((#) (cid, \<lparr>lk_Credential = cred, lk_IssuerProof = proof_\<rparr>))
            (mint_hops C ks st (Suc i) m' hs)))))))"

definition publish ::
  "crypto \<Rightarrow> outside \<Rightarrow> Keystore \<Rightarrow> Spec \<Rightarrow> string \<Rightarrow> string \<Rightarrow> (string \<rightharpoonup> bytes) \<Rightarrow>
   (spec_err + PublishResult) \<times> (string \<rightharpoonup> bytes)" where
  "publish C env ks spec dir chainOut files =
     (case Spec_validate spec of
        Inl e \<Rightarrow> (Inl e, files)
      | Inr _ \<Rightarrow>
      (case publish_docs C env ks dir (Spec_principals spec) files of
        (Inl e, files1) \<Rightarrow> (Inl e, files1)
      | (Inr docs, files1) \<Rightarrow>
      (case hex_DecodeString (sp_RootKeyHex spec) of
        None \<Rightarrow> (Inl RootKeyNotHex, files1)
      | Some rootKey \<Rightarrow>
      (case mint_hops C ks (sp_Status spec) 0
              (Mint (hmac_sha256 C) rootKey (sp_Identifier spec) (sp_Location spec)) (sp_Hops spec) of
        Inl e \<Rightarrow> (Inl e, files1)
      | Inr minted_links \<Rightarrow>
      (case keystore_Signer C ks (ss_Issuer (sp_Status spec)) of
        Inl e \<Rightarrow> (Inl (SpecKey e), files1)
      | Inr statusSigner \<Rightarrow>
      (case Status_Sign statusSigner (Status_New (ss_Bits (sp_Status spec))) of
        Inl e \<Rightarrow> (Inl (SpecList e), files1)
      | Inr list \<Rightarrow>
      (case Status_Publish (ou_url env) (ou_mkdir env) (ou_list env) (ou_writable env) list dir (ss_URL (sp_Status spec)) files1 of
        (Inl e, files2) \<Rightarrow> (Inl (SpecPublish e), files2)
      | (Inr statusPath, files2) \<Rightarrow>
          let ch = \<lparr>Links = map snd minted_links\<rparr> in
          (case ou_chain env ch of
             None \<Rightarrow> (Inl ChainMarshal, files2)
           | Some data \<Rightarrow>
               if \<not> ou_mkdir env chainOut \<or> \<not> ou_writable env chainOut then (Inl (ChainWrite chainOut), files2)
               else (Inr \<lparr>pu_Root = dir, pu_DIDDocs = docs, pu_StatusPath = statusPath, pu_ChainPath = chainOut,
                          pu_Chain = ch, pu_CredentialIDs = map fst minted_links\<rparr>,
                     files2(chainOut \<mapsto> data @ [char_of (10 :: nat)]))))))))))"

definition revoke ::
  "crypto \<Rightarrow> outside \<Rightarrow> (bytes \<Rightarrow> published option) \<Rightarrow> Keystore \<Rightarrow> Spec \<Rightarrow> string \<Rightarrow> int \<Rightarrow> bool \<Rightarrow> (string \<rightharpoonup> bytes) \<Rightarrow>
   (spec_err + string) \<times> (string \<rightharpoonup> bytes)" where
  "revoke C env dec ks spec dir index clear files =
     (case Spec_validate spec of
        Inl e \<Rightarrow> (Inl e, files)
      | Inr _ \<Rightarrow>
      (case PublishPath (ou_url env) dir (ss_URL (sp_Status spec)) of
        Inl e \<Rightarrow> (Inl (SpecPublish e), files)
      | Inr path \<Rightarrow>
      (case Status_Load dec files path of
        Inl e \<Rightarrow> (Inl (SpecPublish e), files)
      | Inr list \<Rightarrow>
      (case Status_Set list index (\<not> clear) of
        Inl e \<Rightarrow> (Inl (SpecList e), files)
      | Inr list1 \<Rightarrow>
      (case keystore_Signer C ks (ss_Issuer (sp_Status spec)) of
        Inl e \<Rightarrow> (Inl (SpecKey e), files)
      | Inr statusSigner \<Rightarrow>
      (case Status_Sign statusSigner list1 of
        Inl e \<Rightarrow> (Inl (SpecList e), files)
      | Inr list2 \<Rightarrow>
      (case Status_Publish (ou_url env) (ou_mkdir env) (ou_list env) (ou_writable env) list2 dir (ss_URL (sp_Status spec)) files of
        (Inl e, files') \<Rightarrow> (Inl (SpecPublish e), files')
      | (Inr path', files') \<Rightarrow> (Inr path', files'))))))))"

section \<open>Published documents\<close>

lemma keystore_Signer_ok:
  assumes "keystore_Signer C ks d = Inr s" and "crypto_laws C"
  shows "signer_ok C s" and "s_DID s = d" and "key_supported C (s_Public s)"
proof -
  from assms(1) obtain seed where n: "NewSoftwareSignerFromSeed C d seed = Some s"
    by (auto simp: keystore_Signer_def split: option.splits)
  show "signer_ok C s" by (rule SoftwareSigner_ok [OF assms(2) n])
  from n assms(2) show "s_DID s = d" "key_supported C (s_Public s)"
    by (auto simp: NewSoftwareSignerFromSeed_def Let_def key_supported_def crypto_laws_def split: if_splits)
qed

lemma publish_docs_ok:
  assumes "publish_docs C env ks dir ds files = (Inr paths, files')" and "distinct paths"
  shows "list_all2 (\<lambda>d p. DocumentPath dir d = Inr p \<and> (\<exists>s doc. keystore_Signer C ks d = Inr s \<and>
      NewDocument d (s_Public s) = Some doc \<and> files' p = Some (ou_doc env doc @ [char_of (10 :: nat)]))) ds paths \<and>
    (\<forall>p. p \<notin> set paths \<longrightarrow> files' p = files p)"
  using assms
proof (induction ds arbitrary: files paths)
  case (Cons d ds)
  from Cons.prems(1) obtain s path files1 paths1 where s: "keystore_Signer C ks d = Inr s"
    and w: "WriteDocument (ou_doc env) (ou_writable env) dir (NewDocument d (s_Public s)) files = (Inr path, files1)"
    and r: "publish_docs C env ks dir ds files1 = (Inr paths1, files')" and p: "paths = path # paths1"
    by (auto split: sum.splits prod.splits)
  from w obtain doc where doc: "NewDocument d (s_Public s) = Some doc" "DocumentPath dir (doc_ID doc) = Inr path"
    and f: "files1 = files(path \<mapsto> ou_doc env doc @ [char_of (10 :: nat)])"
    by (auto simp: WriteDocument_def split: option.splits sum.splits if_splits)
  have "doc_ID doc = d" using doc(1) by (auto simp: NewDocument_def Let_def split: option.splits)
  moreover note IH = Cons.IH [OF r]
  ultimately show ?case using Cons.prems(2) p f s doc by auto
qed simp

text \<open>A directory as a resolver.\<close>

definition dir_resolver :: "(bytes \<Rightarrow> Document option) \<Rightarrow> (string \<rightharpoonup> bytes) \<Rightarrow> string \<Rightarrow> Resolver" where
  "dir_resolver unmarshal files dir d =
     map_sum (\<lambda>_. ResolveFailed d) id (FileResolver_Resolve unmarshal files dir d)"

lemma published_key_resolves:
  assumes "crypto_laws C" and "keystore_Signer C ks d = Inr s" and "NewDocument d (s_Public s) = Some doc"
    and "DocumentPath dir d = Inr p" and "files p = Some (ou_doc env doc @ [char_of (10 :: nat)])"
    and "unmarshal (ou_doc env doc @ [char_of (10 :: nat)]) = Some doc"
  shows "ResolveKey C (dir_resolver unmarshal files dir) d = Inr (s_Public s)"
  using NewDocument_resolves [OF keystore_Signer_ok(3) [OF assms(2,1)], of d] assms(3-6)
  by (auto simp: ResolveKey_def dir_resolver_def FileResolver_Resolve_def parseDocument_def)

section \<open>Minted chains\<close>

lemma attenuate_all_Extends: "attenuate_all hm m cs = Inr m' \<Longrightarrow> is_ok (Extends m' m)"
proof (induction cs arbitrary: m)
  case (Cons c cs)
  then show ?case by (auto split: sum.splits intro: Extends_trans dest: Attenuate_Extends)
qed (simp add: Extends_refl)

lemma minted_hop_sound:
  assumes "crypto_laws C" and "keystore_Signer C ks (hs_Issuer h) = Inr issuer"
    and "keystore_Signer C ks (hs_Subject h) = Inr holder"
    and "Credential_New C \<lparr>o_Subject = hs_Subject h, o_Issuer = hs_Issuer h, o_Macaroon = m,
        o_HolderKey = Some (s_Public holder), o_StatusRef = ref, o_VCWrapper = None\<rparr> = Inr cred"
    and "SignIssuance issuer cred = Inr sig"
    and "ResolveKey C r (hs_Issuer h) = Inr (s_Public issuer)"
    and "ResolveKey C r (hs_Subject h) = Inr (s_Public holder)"
  shows "hop_sound C r \<lparr>lk_Credential = cred, lk_IssuerProof = sig\<rparr> \<and> cr_Issuer cred = hs_Issuer h \<and>
    cr_Subject cred = hs_Subject h \<and> cr_Macaroon cred = m"
proof -
  note c = Credential_New_ok [OF assms(4)]
  obtain input where "IssuanceInput cred = Inr input" "s_Sign issuer input = Some sig"
    using assms(5) by (auto simp: SignIssuance_def split: if_splits sum.splits option.splits)
  moreover note signer_okD [OF keystore_Signer_ok(1) [OF assms(2,1)] this(2)]
  ultimately show ?thesis using c assms(6,7) by (auto simp: hop_sound_def Let_def)
qed

lemma map_sum_Inr_iff: "map_sum f g x = Inr y \<longleftrightarrow> (\<exists>z. x = Inr z \<and> y = g z)"
  by (cases x) auto

lemma mint_hops_ok:
  assumes "mint_hops C ks st i m hs = Inr mls" and "crypto_laws C" and "is_ok (validate_hops j prev hs)"
    and "\<forall>h \<in> set hs. \<forall>d \<in> {hs_Issuer h, hs_Subject h}. \<forall>s.
      keystore_Signer C ks d = Inr s \<longrightarrow> ResolveKey C r d = Inr (s_Public s)"
  shows "list_all2 (\<lambda>l h. cr_Issuer (lk_Credential (snd l)) = hs_Issuer h \<and>
      cr_Subject (lk_Credential (snd l)) = hs_Subject h) mls hs \<and>
    list_all (hop_sound C r) (map snd mls) \<and> successively hop_follows (map snd mls) \<and>
    (mls \<noteq> [] \<longrightarrow> is_ok (Extends (cr_Macaroon (lk_Credential (snd (hd mls)))) m))"
  using assms
proof (induction hs arbitrary: i m j prev mls)
  case (Cons h hs)
  from Cons.prems(1) obtain m' holder cred issuer sig cid mls' where m': "attenuate_all (hmac_sha256 C) m (hs_Caveats h) = Inr m'"
    and holder: "keystore_Signer C ks (hs_Subject h) = Inr holder"
    and cred: "Credential_New C \<lparr>o_Subject = hs_Subject h, o_Issuer = hs_Issuer h, o_Macaroon = m',
        o_HolderKey = Some (s_Public holder), o_StatusRef = hop_reference st h, o_VCWrapper = None\<rparr> = Inr cred"
    and issuer: "keystore_Signer C ks (hs_Issuer h) = Inr issuer" and sig: "SignIssuance issuer cred = Inr sig"
    and rest: "mint_hops C ks st (Suc i) m' hs = Inr mls'"
    and mls: "mls = (cid, \<lparr>lk_Credential = cred, lk_IssuerProof = sig\<rparr>) # mls'"
    by (auto simp: map_sum_Inr_iff split: sum.splits)
  have v: "is_ok (validate_hops (Suc j) (Some (hs_Subject h)) hs)"
    using Cons.prems(3) by (auto split: if_splits option.splits)
  have "\<forall>h \<in> set hs. \<forall>d \<in> {hs_Issuer h, hs_Subject h}. \<forall>s.
      keystore_Signer C ks d = Inr s \<longrightarrow> ResolveKey C r d = Inr (s_Public s)" using Cons.prems(4) by simp
  note IH = Cons.IH [OF rest assms(2) v this]
  have "ResolveKey C r (hs_Issuer h) = Inr (s_Public issuer)" "ResolveKey C r (hs_Subject h) = Inr (s_Public holder)"
    using Cons.prems(4) issuer holder by simp_all
  note hop = minted_hop_sound [OF assms(2) issuer holder cred sig this]
  have "hop_follows \<lparr>lk_Credential = cred, lk_IssuerProof = sig\<rparr> (snd l)" if l: "mls' = l # ls" for l ls
  proof -
    from IH [THEN conjunct1] obtain h2 hs2 where h2: "hs = h2 # hs2" and iss: "cr_Issuer (lk_Credential (snd l)) = hs_Issuer h2"
      unfolding l list_all2_Cons1 by blast
    with v have "hs_Issuer h2 = hs_Subject h" by (simp split: if_splits)
    moreover have "is_ok (Extends (cr_Macaroon (lk_Credential (snd l))) m')" using IH l by simp
    ultimately show ?thesis using iss hop by (simp add: hop_follows_def)
  qed
  then show ?case
    using IH hop attenuate_all_Extends [OF m'] mls by (cases mls') simp_all
qed simp

lemma minted_principals:
  assumes "list_all2 (\<lambda>l h. cr_Issuer (lk_Credential (snd l)) = hs_Issuer h \<and>
      cr_Subject (lk_Credential (snd l)) = hs_Subject h) mls hs" and "hs \<noteq> []"
  shows "Principals \<lparr>Links = map snd mls\<rparr> = hs_Issuer (hd hs) # map hs_Subject hs"
proof -
  have "map (\<lambda>l. cr_Subject (lk_Credential (snd l))) mls = map hs_Subject hs"
    using assms(1) by (auto intro!: nth_equalityI simp: list_all2_conv_all_nth)
  moreover obtain l ls where l: "mls = l # ls" using assms by (cases mls) auto
  moreover have "cr_Issuer (lk_Credential (snd l)) = hs_Issuer (hd hs)"
    using assms(1) unfolding l list_all2_Cons1 by auto
  ultimately show ?thesis by (simp add: Principals_def comp_def)
qed

section \<open>The published directory\<close>

lemma signed_lookup: "Status_Sign s l = Inr l' \<Longrightarrow> Status_Lookup l' i = Status_Lookup l i"
  by (auto simp: Status_Sign_def Status_Lookup_def checkIndex_def Status_Len_def Let_def split: option.splits)

lemma set_add_new: "set (add_new out ds) = set out \<union> (set ds - {[]})"
  by (induction ds arbitrary: out) auto

lemma validate_hops_ends:
  "is_ok (validate_hops i prev hs) \<Longrightarrow> h \<in> set hs \<Longrightarrow> hs_Issuer h \<noteq> [] \<and> hs_Subject h \<noteq> []"
  by (induction hs arbitrary: i prev) (auto split: if_splits option.splits)

lemma publish_ok:
  assumes "publish C env ks spec dir chainOut files = (Inr res, files')"
  obtains files1 files2 mls rootKey s l data where "is_ok (Spec_validate spec)"
    "publish_docs C env ks dir (Spec_principals spec) files = (Inr (pu_DIDDocs res), files1)"
    "mint_hops C ks (sp_Status spec) 0 (Mint (hmac_sha256 C) rootKey (sp_Identifier spec) (sp_Location spec))
       (sp_Hops spec) = Inr mls"
    "pu_Chain res = \<lparr>Links = map snd mls\<rparr>"
    "keystore_Signer C ks (ss_Issuer (sp_Status spec)) = Inr s"
    "Status_Sign s (Status_New (ss_Bits (sp_Status spec))) = Inr l"
    "Status_Publish (ou_url env) (ou_mkdir env) (ou_list env) (ou_writable env) l dir (ss_URL (sp_Status spec)) files1 =
       (Inr (pu_StatusPath res), files2)"
    "files' = files2(chainOut \<mapsto> data)"
  using assms
  by (auto simp: publish_def Let_def split: sum.splits prod.splits option.splits if_splits)

text \<open>Every principal's key resolves from the directory to the key in the keystore.\<close>

lemma published_principals:
  assumes "crypto_laws C" and "publish_docs C env ks dir ds files = (Inr paths, files1)" and "distinct paths"
    and "\<And>d pub doc. NewDocument d pub = Some doc \<Longrightarrow> unmarshal (ou_doc env doc @ [char_of (10 :: nat)]) = Some doc"
    and "\<And>p. p \<in> set paths \<Longrightarrow> files' p = files1 p" and "d \<in> set ds"
  shows "\<exists>s. keystore_Signer C ks d = Inr s \<and> ResolveKey C (dir_resolver unmarshal files' dir) d = Inr (s_Public s)"
proof -
  from publish_docs_ok [OF assms(2,3)] assms(6) obtain p s doc where
    "DocumentPath dir d = Inr p" "p \<in> set paths" and s: "keystore_Signer C ks d = Inr s"
    and doc: "NewDocument d (s_Public s) = Some doc" "files1 p = Some (ou_doc env doc @ [char_of (10 :: nat)])"
    by (auto simp: list_all2_conv_all_nth in_set_conv_nth) (metis nth_mem)
  with assms(4) [OF doc(1)] assms(5) published_key_resolves [OF assms(1) s doc(1)] show ?thesis by metis
qed


lemma revoke_effect:
  assumes "crypto_laws C" and "revoke C env dec ks spec dir index clear files = (Inr path, files')"
    and "\<And>p. dec (ou_list env p) = Some p"
  shows "\<exists>l l' s. PublishPath (ou_url env) dir (ss_URL (sp_Status spec)) = Inr path \<and>
    Status_Load dec files path = Inr l \<and> Status_Load dec files' path = Inr l' \<and>
    keystore_Signer C ks (ss_Issuer (sp_Status spec)) = Inr s \<and>
    (\<forall>j. Status_Lookup l' j = (if j = index then Inr (\<not> clear) else Status_Lookup l j)) \<and>
    (MinBits \<le> Status_Len l \<longrightarrow> Status_Verify C l' (ss_Issuer (sp_Status spec)) (s_Public s) = Inr ()) \<and>
    (\<forall>other. other \<noteq> path \<longrightarrow> files' other = files other)"
proof -
  from assms(2) obtain path0 l l1 s l2 where v: "is_ok (Spec_validate spec)"
    and p: "PublishPath (ou_url env) dir (ss_URL (sp_Status spec)) = Inr path0"
    and l: "Status_Load dec files path0 = Inr l" and l1: "Status_Set l index (\<not> clear) = Inr l1"
    and s: "keystore_Signer C ks (ss_Issuer (sp_Status spec)) = Inr s" and l2: "Status_Sign s l1 = Inr l2"
    and pub: "Status_Publish (ou_url env) (ou_mkdir env) (ou_list env) (ou_writable env) l2 dir
      (ss_URL (sp_Status spec)) files = (Inr path, files')"
    by (auto simp: revoke_def split: sum.splits prod.splits)
  note load = Status_Publish_Load_aux [OF pub assms(3)]
  from load p have path: "path0 = path" by simp
  have st: "ss_Issuer (sp_Status spec) \<noteq> []" using v by (auto simp: Spec_validate_def split: if_splits)
  note bits = Status_Set_Lookup [OF l1]
  have "Status_Verify C l2 (ss_Issuer (sp_Status spec)) (s_Public s) = Inr ()" if "MinBits \<le> Status_Len l"
    using signed_list_verifies [OF keystore_Signer_ok(1) [OF s assms(1)] l2] keystore_Signer_ok(2) [OF s assms(1)]
      st bits load that by auto
  moreover have "Status_Lookup l2 j = (if j = index then Inr (\<not> clear) else Status_Lookup l j)" for j
    using bits by (simp add: signed_lookup [OF l2])
  ultimately show ?thesis using load p path l s by blast
qed

text \<open>
  C15. Revocation rewrites one bit of the published list and nothing else: afterwards the list at
  the same path has the bit at the index as asked, every other index as before, and carries
  a signature its authority's key verifies; no other file changes.
\<close>

theorem revoke_exact:
  assumes "crypto_laws C" and "revoke C env dec ks spec dir index clear files = (Inr path, files')"
    and "\<And>p. dec (ou_list env p) = Some p"
  shows "\<exists>l l' s. PublishPath (ou_url env) dir (ss_URL (sp_Status spec)) = Inr path \<and>
    Status_Load dec files path = Inr l \<and> Status_Load dec files' path = Inr l' \<and>
    keystore_Signer C ks (ss_Issuer (sp_Status spec)) = Inr s \<and>
    (\<forall>j. Status_Lookup l' j = (if j = index then Inr (\<not> clear) else Status_Lookup l j)) \<and>
    (MinBits \<le> Status_Len l \<longrightarrow> Status_Verify C l' (ss_Issuer (sp_Status spec)) (s_Public s) = Inr ()) \<and>
    (\<forall>other. other \<noteq> path \<longrightarrow> files' other = files other)"
  by (rule revoke_effect) (fact assms)+

section \<open>A concrete publication\<close>

definition jwk_doc :: "DID \<Rightarrow> JWK \<Rightarrow> Document" where
  "jwk_doc d j =
     \<lparr>doc_Context = [''https://www.w3.org/ns/did/v1'', ''https://w3id.org/security/suites/jws-2020/v1''],
      doc_ID = d,
      doc_VerificationMethod = [\<lparr>vm_ID = d @ ''#key-1'', vm_Type = ''JsonWebKey2020'', vm_Controller = d,
        vm_PublicKeyJwk = Some j\<rparr>],
      doc_Authentication = [d @ ''#key-1''], doc_AssertionMethod = [d @ ''#key-1'']\<rparr>"

text \<open>A stand-in document encoding: the identifier and the key's four fields, framed.\<close>

definition enc_doc :: "Document \<Rightarrow> bytes" where
  "enc_doc doc =
     (let j = the (vm_PublicKeyJwk (hd (doc_VerificationMethod doc))) in
      frame (doc_ID doc) @ frame (jwk_Kty j) @ frame (jwk_Crv j) @ frame (jwk_X j) @ frame (jwk_Y j))"

definition dec_doc :: "bytes \<Rightarrow> Document option" where
  "dec_doc b0 =
     (let (d, b1) = unframe b0; (t, b2) = unframe b1; (c, b3) = unframe b2; (x, b4) = unframe b3; (y, _) = unframe b4
      in Some (jwk_doc d \<lparr>jwk_Kty = t, jwk_Crv = c, jwk_X = x, jwk_Y = y\<rparr>))"

lemma dec_enc_doc:
  assumes "NewDocument d pub = Some doc"
  shows "dec_doc (enc_doc doc @ t) = Some doc"
proof -
  obtain j where "doc = jwk_doc d j" using assms by (auto simp: NewDocument_def jwk_doc_def Let_def split: option.splits)
  then show ?thesis by (simp add: dec_doc_def enc_doc_def jwk_doc_def Let_def unframe_frame)
qed

definition sample_outside :: outside where
  "sample_outside =
     \<lparr>ou_doc = enc_doc, ou_list = enc_frames, ou_chain = (\<lambda>_. Some []), ou_url = (\<lambda>_. Some sample_list_url),
      ou_mkdir = (\<lambda>_. True), ou_writable = (\<lambda>_. True)\<rparr>"

definition sample_keystore :: Keystore where
  "sample_keystore = [''did:web:a.example'' \<mapsto> replicate 64 CHR ''3'', ''did:web:b.example'' \<mapsto> replicate 64 CHR ''4'']"

definition sample_hop :: HopSpec where
  "sample_hop = \<lparr>hs_Issuer = ''did:web:a.example'', hs_Subject = ''did:web:b.example'', hs_Caveats = [],
     hs_StatusIndex = Some 3\<rparr>"

definition sample_spec :: Spec where
  "sample_spec =
     \<lparr>sp_RootKeyHex = ''00'', sp_Identifier = ''id'', sp_Location = [],
      sp_Status = \<lparr>ss_URL = ''https://a.example/status/1.json'', ss_Issuer = ''did:web:a.example'', ss_Bits = 0\<rparr>,
      sp_Hops = [sample_hop], sp_ExtraPrincipals = []\<rparr>"

lemma sample_signers:
  "keystore_Signer toy_crypto sample_keystore ''did:web:a.example'' = Inr (toy_signer ''did:web:a.example'' CHR ''3'')"
  "keystore_Signer toy_crypto sample_keystore ''did:web:b.example'' = Inr (toy_signer ''did:web:b.example'' CHR ''D'')"
proof -
  have "hex_DecodeString (replicate 64 CHR ''3'') = Some (toy_key CHR ''3'')"
    "hex_DecodeString (replicate 64 CHR ''4'') = Some (toy_key CHR ''D'')" by code_simp+
  then show "keystore_Signer toy_crypto sample_keystore ''did:web:a.example'' = Inr (toy_signer ''did:web:a.example'' CHR ''3'')"
    "keystore_Signer toy_crypto sample_keystore ''did:web:b.example'' = Inr (toy_signer ''did:web:b.example'' CHR ''D'')"
    by (simp_all add: keystore_Signer_def sample_keystore_def NewSoftwareSignerFromSeed_def toy_signer_def toy_crypto_def
        toy_key_def Let_def)
qed

lemma sample_spec_valid:
  "Spec_validate sample_spec = Inr ()" "Spec_principals sample_spec = [''did:web:a.example'', ''did:web:b.example'']"
  by (simp_all add: Spec_validate_def Spec_principals_def sample_spec_def sample_hop_def MaxDepth_def)

lemma sample_paths:
  "DocumentPath ''/pub'' ''did:web:a.example'' = Inr ''/pub/a.example/.well-known/did.json''"
  "DocumentPath ''/pub'' ''did:web:b.example'' = Inr ''/pub/b.example/.well-known/did.json''"
  "PublishPath (\<lambda>_. Some sample_list_url) ''/pub'' url = Inr ''/pub/a.example/status/1.json''"
proof -
  show "DocumentPath ''/pub'' ''did:web:a.example'' = Inr ''/pub/a.example/.well-known/did.json''"
    "DocumentPath ''/pub'' ''did:web:b.example'' = Inr ''/pub/b.example/.well-known/did.json''" by code_simp+
  have "PublishPath (\<lambda>_. Some sample_list_url) ''/pub'' [] = Inr ''/pub/a.example/status/1.json''" by code_simp
  then show "PublishPath (\<lambda>_. Some sample_list_url) ''/pub'' url = Inr ''/pub/a.example/status/1.json''"
    by (simp add: PublishPath_def)
qed

lemma sample_docs:
  "\<exists>files1. publish_docs toy_crypto sample_outside sample_keystore ''/pub''
     [''did:web:a.example'', ''did:web:b.example''] Map.empty =
     (Inr [''/pub/a.example/.well-known/did.json'', ''/pub/b.example/.well-known/did.json''], files1)"
proof -
  have "\<exists>doc. NewDocument d (s_Public (toy_signer d c)) = Some doc \<and> doc_ID doc = d" for d c
    using NewDocument_resolves [of toy_crypto "Ed25519Key (toy_key c)" d]
    by (auto simp: toy_signer_def key_supported_def toy_key_def)
  then obtain da db where "NewDocument ''did:web:a.example'' (s_Public (toy_signer ''did:web:a.example'' CHR ''3'')) = Some da"
    "doc_ID da = ''did:web:a.example''"
    "NewDocument ''did:web:b.example'' (s_Public (toy_signer ''did:web:b.example'' CHR ''D'')) = Some db"
    "doc_ID db = ''did:web:b.example''" by metis
  then show ?thesis
    by (simp add: sample_signers WriteDocument_def sample_paths sample_outside_def)
qed

lemma sample_mint:
  "\<exists>mls. mint_hops toy_crypto sample_keystore (sp_Status sample_spec) 0
     (Mint (hmac_sha256 toy_crypto) [NUL] ''id'' []) [sample_hop] = Inr mls"
proof -
  let ?opts = "\<lparr>o_Subject = ''did:web:b.example'', o_Issuer = ''did:web:a.example'',
    o_Macaroon = Mint (hmac_sha256 toy_crypto) [NUL] ''id'' [], o_HolderKey = Some (Ed25519Key (toy_key CHR ''D'')),
    o_StatusRef = hop_reference (sp_Status sample_spec) sample_hop, o_VCWrapper = None\<rparr>"
  obtain c where c: "Credential_New toy_crypto ?opts = Inr c"
    using toy_holderJWK [of "CHR ''D''"] by (auto simp: Credential_New_def Mint_def toy_crypto_def)
  have "cr_VCWrapper c = None" using c by (auto simp: Credential_New_def bind_Inr_iff)
  then have m: "credential_marshals c" by (simp add: credential_marshals_def)
  then obtain sig where "SignIssuance (toy_signer ''did:web:a.example'' CHR ''3'') c = Inr sig"
    using Credential_New_ok(2) [OF c] by (auto simp: SignIssuance_def IssuanceInput_def toy_signer_def)
  moreover obtain cid where "CredentialID toy_crypto c = Inr cid" using m by (simp add: CredentialID_def)
  ultimately show ?thesis
    using c by (simp add: sample_hop_def sample_signers toy_signer_def)
qed

lemma toy_signed_list:
  "\<exists>l'. Status_Sign (toy_signer d c) l = Inr l' \<and> sl_Signature l' \<noteq> []"
  by (simp add: Status_Sign_def toy_signer_def toy_key_def Let_def)

lemma toy_published_list:
  assumes "sl_Signature l \<noteq> []"
  shows "\<exists>files'. Status_Publish (ou_url sample_outside) (ou_mkdir sample_outside) (ou_list sample_outside)
    (ou_writable sample_outside) l ''/pub'' url files = (Inr ''/pub/a.example/status/1.json'', files')"
  using assms by (simp add: Status_Publish_def Status_Save_def Status_Marshal_def sample_outside_def sample_paths)

lemma sample_publish:
  "\<exists>res files'. publish toy_crypto sample_outside sample_keystore sample_spec ''/pub'' ''/chain.json'' Map.empty = (Inr res, files') \<and>
     pu_DIDDocs res = [''/pub/a.example/.well-known/did.json'', ''/pub/b.example/.well-known/did.json''] \<and>
     pu_StatusPath res = ''/pub/a.example/status/1.json''"
proof -
  obtain files1 where f: "publish_docs toy_crypto sample_outside sample_keystore ''/pub''
     [''did:web:a.example'', ''did:web:b.example''] Map.empty =
     (Inr [''/pub/a.example/.well-known/did.json'', ''/pub/b.example/.well-known/did.json''], files1)"
    using sample_docs by blast
  obtain mls where m: "mint_hops toy_crypto sample_keystore (sp_Status sample_spec) 0
     (Mint (hmac_sha256 toy_crypto) [NUL] ''id'' []) [sample_hop] = Inr mls" using sample_mint by blast
  obtain l where l: "Status_Sign (toy_signer ''did:web:a.example'' CHR ''3'') (Status_New 0) = Inr l" "sl_Signature l \<noteq> []"
    using toy_signed_list by blast
  obtain files2 where p: "Status_Publish (ou_url sample_outside) (ou_mkdir sample_outside) (ou_list sample_outside)
    (ou_writable sample_outside) l ''/pub'' ''https://a.example/status/1.json'' files1 =
    (Inr ''/pub/a.example/status/1.json'', files2)" using toy_published_list [OF l(2)] by blast
  have hex: "hex_DecodeString ''00'' = Some [NUL]" by code_simp
  have sp: "sp_RootKeyHex sample_spec = ''00''" "sp_Identifier sample_spec = ''id''" "sp_Location sample_spec = []"
    "sp_Hops sample_spec = [sample_hop]" "ss_Issuer (sp_Status sample_spec) = ''did:web:a.example''"
    "ss_Bits (sp_Status sample_spec) = 0" "ss_URL (sp_Status sample_spec) = ''https://a.example/status/1.json''"
    by (simp_all add: sample_spec_def)
  have ou: "ou_chain sample_outside ch = Some []" "ou_mkdir sample_outside x" "ou_writable sample_outside x" for ch x
    by (simp_all add: sample_outside_def)
  show ?thesis
    unfolding publish_def sample_spec_valid sp sum.case f prod.case hex option.case m sample_signers l(1) p Let_def
    by (simp add: ou)
qed

lemma sample_codecs:
  "NewDocument d pub = Some doc \<Longrightarrow> dec_doc (ou_doc sample_outside doc @ [char_of (10 :: nat)]) = Some doc"
  "dec_frames (ou_list sample_outside p) = Some p"
  by (simp_all add: sample_outside_def dec_enc_doc dec_enc_frames)


text \<open>The published list with index 3 revoked, beside any other files.\<close>

lemma sample_revoke:
  "\<exists>files files' l. revoke toy_crypto sample_outside dec_frames sample_keystore sample_spec ''/pub'' 3 False files =
       (Inr ''/pub/a.example/status/1.json'', files') \<and>
     Status_Load dec_frames files ''/pub/a.example/status/1.json'' = Inr l \<and> MinBits \<le> Status_Len l \<and>
     (\<forall>other. other \<noteq> ''/pub/a.example/status/1.json'' \<longrightarrow> files' other = rest other)"
proof -
  obtain l where l: "Status_Sign (toy_signer ''did:web:a.example'' CHR ''3'') (Status_New 0) = Inr l" "sl_Signature l \<noteq> []"
    using toy_signed_list by blast
  obtain files where pub: "Status_Publish (ou_url sample_outside) (ou_mkdir sample_outside) (ou_list sample_outside)
    (ou_writable sample_outside) l ''/pub'' [] rest = (Inr ''/pub/a.example/status/1.json'', files)"
    using toy_published_list [OF l(2)] by blast
  note f = Status_Publish_Load_aux [OF pub sample_codecs(2)]
  have "Status_Len l = Status_Len (Status_New 0)"
    using l(1) by (auto simp: Status_Sign_def Status_Len_def Let_def split: option.splits)
  then have len: "MinBits \<le> Status_Len l" using Status_New_Len(1) [of 0] by simp
  then have "3 < Status_Len l" by (simp add: MinBits_def)
  then obtain l1 where l1: "Status_Set l 3 (\<not> False) = Inr l1" by (simp add: Status_Set_def checkIndex_def Let_def)
  obtain l2 where l2: "Status_Sign (toy_signer ''did:web:a.example'' CHR ''3'') l1 = Inr l2" "sl_Signature l2 \<noteq> []"
    using toy_signed_list by blast
  have sp: "ss_Issuer (sp_Status sample_spec) = ''did:web:a.example''" by (simp add: sample_spec_def)
  have ou: "PublishPath (ou_url sample_outside) ''/pub'' u = Inr ''/pub/a.example/status/1.json''" for u
    by (simp add: sample_outside_def sample_paths)
  obtain files' where p: "Status_Publish (ou_url sample_outside) (ou_mkdir sample_outside) (ou_list sample_outside)
    (ou_writable sample_outside) l2 ''/pub'' (ss_URL (sp_Status sample_spec)) files = (Inr ''/pub/a.example/status/1.json'', files')"
    using toy_published_list [OF l2(2)] by blast
  have load: "Status_Load dec_frames files ''/pub/a.example/status/1.json'' = Inr l" using f by simp
  have r: "revoke toy_crypto sample_outside dec_frames sample_keystore sample_spec ''/pub'' 3 False files =
      (Inr ''/pub/a.example/status/1.json'', files')"
    unfolding revoke_def sample_spec_valid ou load l1 sp sample_signers l2(1) p sum.case prod.case by (rule refl)
  have "files' other = rest other" if "other \<noteq> ''/pub/a.example/status/1.json''" for other
    using f Status_Publish_Load_aux [OF p sample_codecs(2)] that by simp
  with r load len show ?thesis by blast
qed

theorem revoke_exact_witness:
  "\<exists>files files' l'. revoke toy_crypto sample_outside dec_frames sample_keystore sample_spec ''/pub'' 3 False files =
       (Inr ''/pub/a.example/status/1.json'', files') \<and>
     Status_Load dec_frames files' ''/pub/a.example/status/1.json'' = Inr l' \<and> Status_Lookup l' 3 = Inr True"
proof -
  obtain files files' where r: "revoke toy_crypto sample_outside dec_frames sample_keystore sample_spec ''/pub'' 3 False files =
      (Inr ''/pub/a.example/status/1.json'', files')" using sample_revoke [of Map.empty] by blast
  from revoke_exact [OF toy_crypto_laws r sample_codecs(2)] obtain l l'
    where "Status_Load dec_frames files' ''/pub/a.example/status/1.json'' = Inr l'"
      "\<forall>j. Status_Lookup l' j = (if j = 3 then Inr (\<not> False) else Status_Lookup l j)" by blast
  with r show ?thesis by (intro exI [of _ files] exI [of _ files'] exI [of _ l']) simp
qed

end
