(* ===== verification/Enroll.thy ===== *)
theory Enroll
  imports Issuer
begin

text \<open>
  \<^verbatim>\<open>internal/enroll\<close>: the enrollment of a device key.  The state is the file system and the
  keychain's tags; the secure element, random keys, the confirmation backend and the codecs
  are gathered in \<open>enroll_env\<close>.  The lemmas show what an enrolled device can prove, what a
  rejected enrollment leaves behind, and that the uniqueness checks on identifiers do not
  keep a device from replacing the published document of its own organisation.
\<close>

section \<open>The mapping\<close>

definition mappingVersion :: int where "mappingVersion = 1"

record DeviceCredential =
  dc_DID :: DID
  dc_CredentialID :: string
  dc_StatusURL :: string
  dc_StatusIndex :: int
  dc_KeyFingerprint :: string
  dc_KeyBackend :: string
  dc_KeyTag :: string
  dc_Algorithm :: string
  dc_EnrolledAt :: gotime
  dc_Revoked :: bool

record Employee =
  em_Identity :: string
  em_Credentials :: "DeviceCredential list"

text \<open>The employees by identity, in the order they were first enrolled.\<close>

record Mapping =
  mp_Version :: int
  mp_Employees :: "(string \<times> Employee) list"

definition NewMapping :: Mapping where
  "NewMapping = \<lparr>mp_Version = mappingVersion, mp_Employees = []\<rparr>"

fun findByDID :: "DID \<Rightarrow> (string \<times> Employee) list \<Rightarrow> string option" where
  "findByDID d [] = None"
| "findByDID d ((i, e) # es) =
     (if list_ex (\<lambda>c. dc_DID c = d) (em_Credentials e) then Some i else findByDID d es)"

datatype enroll_err =
    IdentityRequired
  | DeviceRequired
  | OrgRequired
  | OrgSignerRequired
  | OrgSignerMismatch DID DID
  | DeviceIsOrg
  | EnrollRootKeyRequired
  | EnrollIdentifierRequired
  | StatusURLRequired
  | StatusIndexNegative
  | RootRequired
  | MappingPathRequired
  | CredentialOutRequired
  | NoBackend
  | OrgUnresolvable DID did_err
  | MappingRead string
  | MappingParse string
  | MappingSchema int
  | AlreadyRegistered DID string
  | EmptyIdentity
  | EmptyCredentialDID
  | KeyGeneration
  | DeviceKeyType
  | Declined string
  | DeviceDocument web_err
  | EnrollCaveat macaroon_err
  | EnrollCredential credential_err
  | EnrollIssuance chain_err
  | EnrollID export_err
  | CredentialMarshal
  | CredentialWrite string
  | MappingWrite string

fun append_credential :: "string \<Rightarrow> DeviceCredential \<Rightarrow> (string \<times> Employee) list \<Rightarrow> (string \<times> Employee) list" where
  "append_credential i c [] = [(i, \<lparr>em_Identity = i, em_Credentials = [c]\<rparr>)]"
| "append_credential i c ((j, e) # es) =
     (if j = i then (j, e\<lparr>em_Credentials := em_Credentials e @ [c]\<rparr>) # es
      else (j, e) # append_credential i c es)"

definition AddCredential :: "string \<Rightarrow> DeviceCredential \<Rightarrow> Mapping \<Rightarrow> enroll_err + Mapping" where
  "AddCredential identity c m =
     (if identity = [] then Inl EmptyIdentity
      else if dc_DID c = [] then Inl EmptyCredentialDID
      else case findByDID (dc_DID c) (mp_Employees m) of
          Some owner \<Rightarrow> Inl (AlreadyRegistered (dc_DID c) owner)
        | None \<Rightarrow> Inr (m\<lparr>mp_Employees := append_credential identity c (mp_Employees m)\<rparr>))"

section \<open>Device keys\<close>

definition backendSecureEnclave :: string where "backendSecureEnclave = ''secure-enclave''"
definition backendSoftware :: string where "backendSoftware = ''software''"

record DeviceKeyOptions =
  dk_ForceSoftware :: bool
  dk_Seed :: bytes
  dk_Tag :: bytes

record KeyInfo =
  ki_Algorithm :: string
  ki_Fingerprint :: string
  ki_Backend :: string
  ki_Tag :: bytes

definition algorithmOf :: "public_key \<Rightarrow> string option" where
  "algorithmOf pub =
     (case pub of Ed25519Key _ \<Rightarrow> Some ''Ed25519'' | ECDSAKey _ _ _ \<Rightarrow> Some ''P-256'' | UnknownKey \<Rightarrow> None)"

text \<open>A curve without a JWK form, which the encoder refuses, is an error here too.\<close>

definition Fingerprint :: "crypto \<Rightarrow> public_key \<Rightarrow> string option" where
  "Fingerprint C pub =
     (case PublicKeyToJWK pub of
        None \<Rightarrow> None
      | Some jwk \<Rightarrow> Some (''SHA256:'' @ RawURLEncode (sha256 C (json_enc (jwk_json jwk)))))"

definition describeKey :: "crypto \<Rightarrow> Signer \<Rightarrow> string \<Rightarrow> bytes \<Rightarrow> enroll_err + KeyInfo" where
  "describeKey C sg backend tag =
     (case algorithmOf (s_Public sg) of
        None \<Rightarrow> Inl DeviceKeyType
      | Some alg \<Rightarrow>
          (case Fingerprint C (s_Public sg) of
             None \<Rightarrow> Inl DeviceKeyType
           | Some fp \<Rightarrow> Inr \<lparr>ki_Algorithm = alg, ki_Fingerprint = fp, ki_Backend = backend, ki_Tag = tag\<rparr>))"

record ConfirmRequest =
  cq_Identity :: string
  cq_DID :: DID
  cq_Fingerprint :: string
  cq_Algorithm :: string

text \<open>
  \<open>ev_confirm\<close> is the backend: \<open>None\<close> if there is none, otherwise its name and its answer, \<open>None\<close>
  to authorise.  \<open>ev_generate\<close> is the secure element, if there is one, \<open>ev_fresh\<close> a random
  software key.
\<close>

record enroll_env =
  ev_doc :: "Document \<Rightarrow> bytes"
  ev_undoc :: "bytes \<Rightarrow> Document option"
  ev_chain :: "Chain \<Rightarrow> bytes option"
  ev_mapping :: "Mapping \<Rightarrow> bytes"
  ev_unmapping :: "bytes \<Rightarrow> Mapping option"
  ev_unreadable :: "string \<Rightarrow> bool"
  ev_writable :: "string \<Rightarrow> bool"
  ev_confirm :: "(string \<times> (ConfirmRequest \<Rightarrow> string option)) option"
  ev_generate :: "(DID \<Rightarrow> bytes \<Rightarrow> Signer option) option"
  ev_fresh :: "DID \<Rightarrow> Signer option"

definition softwareKey :: "crypto \<Rightarrow> enroll_env \<Rightarrow> DID \<Rightarrow> bytes \<Rightarrow> Signer option" where
  "softwareKey C V d seed = (if seed \<noteq> [] then NewECDSASignerFromSeed C d seed else ev_fresh V d)"

type_synonym keychain = "bytes set"

definition ProvisionDeviceKey ::
  "crypto \<Rightarrow> enroll_env \<Rightarrow> DID \<Rightarrow> DeviceKeyOptions \<Rightarrow> keychain \<Rightarrow> (enroll_err + Signer \<times> KeyInfo) \<times> keychain" where
  "ProvisionDeviceKey C V d opts kc =
     (case (if dk_ForceSoftware opts then None else ev_generate V) of
        None \<Rightarrow>
          (case softwareKey C V d (dk_Seed opts) of
             None \<Rightarrow> (Inl KeyGeneration, kc)
           | Some sg \<Rightarrow> (map_sum id (Pair sg) (describeKey C sg backendSoftware []), kc))
      | Some gen \<Rightarrow>
          (case gen d (dk_Tag opts) of
             None \<Rightarrow> (Inl KeyGeneration, kc)
           | Some sg \<Rightarrow>
               (map_sum id (Pair sg) (describeKey C sg backendSecureEnclave (dk_Tag opts)),
                if dk_Tag opts \<noteq> [] then insert (dk_Tag opts) kc else kc)))"

definition cleanupDeviceKey :: "KeyInfo \<Rightarrow> keychain \<Rightarrow> keychain" where
  "cleanupDeviceKey info kc =
     (if ki_Backend info = backendSecureEnclave \<and> ki_Tag info \<noteq> [] then kc - {ki_Tag info} else kc)"

text \<open>
  The default backend: \<open>inp\<close> is the first line of its input and whether reading ended with an
  error, \<open>None\<close> without input.
\<close>

definition LocalTOFU_Name :: "bool \<Rightarrow> string" where
  "LocalTOFU_Name assumeYes = (if assumeYes then ''local-tofu (assume-yes)'' else ''local-tofu'')"

definition LocalTOFU_Confirm :: "bool \<Rightarrow> (string \<times> bool) option \<Rightarrow> ConfirmRequest \<Rightarrow> string option" where
  "LocalTOFU_Confirm assumeYes inp req =
     (if assumeYes then None
      else case inp of
          None \<Rightarrow> Some ''enroll: no input to confirm fingerprint on (run interactively or pass --yes)''
        | Some (line, failed) \<Rightarrow>
            if failed \<and> line = [] then Some ''enroll: enrollment not confirmed (no input read)''
            else if TrimSpace (ToLower line) \<noteq> ''yes''
            then Some ''enroll: enrollment declined at fingerprint confirmation''
            else None)"

section \<open>The ceremony\<close>

record EnrollConfig =
  ec_Identity :: string
  ec_DeviceDID :: DID
  ec_OrgDID :: DID
  ec_OrgSigner :: "Signer option"
  ec_MacaroonRootKey :: bytes
  ec_Identifier :: string
  ec_Location :: string
  ec_Caveats :: "Caveat list"
  ec_StatusURL :: string
  ec_StatusIndex :: int
  ec_Root :: string
  ec_Resolver :: "Resolver option"
  ec_MappingPath :: string
  ec_CredentialOut :: string
  ec_Device :: DeviceKeyOptions

record EnrollResult =
  er_Identity :: string
  er_DeviceDID :: DID
  er_CredentialID :: string
  er_Key :: KeyInfo
  er_DIDDocPath :: string
  er_CredentialOut :: string
  er_MappingPath :: string
  er_BackendName :: string
  er_Chain :: Chain

definition EnrollConfig_validate :: "EnrollConfig \<Rightarrow> enroll_err + Signer" where
  "EnrollConfig_validate c =
     (if ec_Identity c = [] then Inl IdentityRequired
      else if ec_DeviceDID c = [] then Inl DeviceRequired
      else if ec_OrgDID c = [] then Inl OrgRequired
      else case ec_OrgSigner c of
          None \<Rightarrow> Inl OrgSignerRequired
        | Some s \<Rightarrow>
            if s_DID s \<noteq> ec_OrgDID c then Inl (OrgSignerMismatch (s_DID s) (ec_OrgDID c))
            else if ec_DeviceDID c = ec_OrgDID c then Inl DeviceIsOrg
            else if ec_MacaroonRootKey c = [] then Inl EnrollRootKeyRequired
            else if ec_Identifier c = [] then Inl EnrollIdentifierRequired
            else if ec_StatusURL c = [] then Inl StatusURLRequired
            else if ec_StatusIndex c < 0 then Inl StatusIndexNegative
            else if ec_Root c = [] then Inl RootRequired
            else if ec_MappingPath c = [] then Inl MappingPathRequired
            else if ec_CredentialOut c = [] then Inl CredentialOutRequired
            else Inr s)"

definition LoadMapping :: "enroll_env \<Rightarrow> (string \<rightharpoonup> bytes) \<Rightarrow> string \<Rightarrow> enroll_err + Mapping" where
  "LoadMapping V files path =
     (case files path of
        None \<Rightarrow> Inr NewMapping
      | Some data \<Rightarrow>
          if ev_unreadable V path then Inl (MappingRead path)
          else (case ev_unmapping V data of
              None \<Rightarrow> Inl (MappingParse path)
            | Some m \<Rightarrow> if mp_Version m \<noteq> mappingVersion then Inl (MappingSchema (mp_Version m)) else Inr m))"

text \<open>The temporary file is renamed into place, so the mapping file changes whole or not at all.\<close>

definition Mapping_Save ::
  "enroll_env \<Rightarrow> Mapping \<Rightarrow> string \<Rightarrow> (string \<rightharpoonup> bytes) \<Rightarrow> (enroll_err + unit) \<times> (string \<rightharpoonup> bytes)" where
  "Mapping_Save V m path files =
     (let m' = (if mp_Version m = 0 then m\<lparr>mp_Version := mappingVersion\<rparr> else m) in
      if \<not> ev_writable V path then (Inl (MappingWrite path), files)
      else (Inr (), files(path \<mapsto> ev_mapping V m' @ [char_of (10 :: nat)])))"

definition writeChain ::
  "enroll_env \<Rightarrow> string \<Rightarrow> Chain \<Rightarrow> (string \<rightharpoonup> bytes) \<Rightarrow> (enroll_err + unit) \<times> (string \<rightharpoonup> bytes)" where
  "writeChain V path ch files =
     (case ev_chain V ch of
        None \<Rightarrow> (Inl CredentialMarshal, files)
      | Some data \<Rightarrow>
          if \<not> ev_writable V path then (Inl (CredentialWrite path), files)
          else (Inr (), files(path \<mapsto> data @ [char_of (10 :: nat)])))"

definition mintCredential :: "crypto \<Rightarrow> EnrollConfig \<Rightarrow> Signer \<Rightarrow> public_key \<Rightarrow> enroll_err + Credential \<times> Link" where
  "mintCredential C c orgSigner holderPub =
     (case attenuate_all (hmac_sha256 C) (Mint (hmac_sha256 C) (ec_MacaroonRootKey c) (ec_Identifier c) (ec_Location c))
             (ec_Caveats c) of
        Inl e \<Rightarrow> Inl (EnrollCaveat e)
      | Inr m \<Rightarrow>
      (case Credential_New C \<lparr>o_Subject = ec_DeviceDID c, o_Issuer = ec_OrgDID c, o_Macaroon = m,
              o_HolderKey = Some holderPub,
              o_StatusRef = \<lparr>ref_ListURL = ec_StatusURL c, ref_Index = ec_StatusIndex c, ref_Issuer = []\<rparr>,
              o_VCWrapper = None\<rparr> of
        Inl e \<Rightarrow> Inl (EnrollCredential e)
      | Inr cred \<Rightarrow>
      (case SignIssuance orgSigner cred of
        Inl e \<Rightarrow> Inl (EnrollIssuance e)
      | Inr sig \<Rightarrow> Inr (cred, \<lparr>lk_Credential = cred, lk_IssuerProof = sig\<rparr>))))"

text \<open>Steps 5 to 7: what happens once the key exists and is confirmed.\<close>

definition register_device ::
  "crypto \<Rightarrow> enroll_env \<Rightarrow> gotime \<Rightarrow> EnrollConfig \<Rightarrow> string \<Rightarrow> Signer \<Rightarrow> Mapping \<Rightarrow> Signer \<Rightarrow> KeyInfo \<Rightarrow>
   (string \<rightharpoonup> bytes) \<Rightarrow> (enroll_err + EnrollResult) \<times> (string \<rightharpoonup> bytes)" where
  "register_device C V now c backendName orgSigner m sg info files =
     (case WriteDocument (ev_doc V) (ev_writable V) (ec_Root c) (NewDocument (ec_DeviceDID c) (s_Public sg)) files of
        (Inl e, files1) \<Rightarrow> (Inl (DeviceDocument e), files1)
      | (Inr docPath, files1) \<Rightarrow>
      (case mintCredential C c orgSigner (s_Public sg) of
        Inl e \<Rightarrow> (Inl e, files1)
      | Inr (cred, link) \<Rightarrow>
      (case CredentialID C cred of
        Inl e \<Rightarrow> (Inl (EnrollID e), files1)
      | Inr credID \<Rightarrow>
      (case writeChain V (ec_CredentialOut c) \<lparr>Links = [link]\<rparr> files1 of
        (Inl e, files2) \<Rightarrow> (Inl e, files2)
      | (Inr _, files2) \<Rightarrow>
      (case AddCredential (ec_Identity c)
              \<lparr>dc_DID = ec_DeviceDID c, dc_CredentialID = credID, dc_StatusURL = ec_StatusURL c,
               dc_StatusIndex = ec_StatusIndex c, dc_KeyFingerprint = ki_Fingerprint info,
               dc_KeyBackend = ki_Backend info, dc_KeyTag = ki_Tag info, dc_Algorithm = ki_Algorithm info,
               dc_EnrolledAt = UTC now, dc_Revoked = False\<rparr> m of
        Inl e \<Rightarrow> (Inl e, files2)
      | Inr m' \<Rightarrow>
      (case Mapping_Save V m' (ec_MappingPath c) files2 of
        (Inl e, files3) \<Rightarrow> (Inl e, files3)
      | (Inr _, files3) \<Rightarrow>
          (Inr \<lparr>er_Identity = ec_Identity c, er_DeviceDID = ec_DeviceDID c, er_CredentialID = credID, er_Key = info,
                er_DIDDocPath = docPath, er_CredentialOut = ec_CredentialOut c, er_MappingPath = ec_MappingPath c,
                er_BackendName = backendName, er_Chain = \<lparr>Links = [link]\<rparr>\<rparr>, files3)))))))"

definition Enroll ::
  "crypto \<Rightarrow> enroll_env \<Rightarrow> gotime \<Rightarrow> EnrollConfig \<Rightarrow> (string \<rightharpoonup> bytes) \<times> keychain \<Rightarrow>
   (enroll_err + EnrollResult) \<times> (string \<rightharpoonup> bytes) \<times> keychain" where
  "Enroll C V now c st =
     (case st of (files, kc) \<Rightarrow>
      case EnrollConfig_validate c of
        Inl e \<Rightarrow> (Inl e, files, kc)
      | Inr orgSigner \<Rightarrow>
      (case ev_confirm V of
        None \<Rightarrow> (Inl NoBackend, files, kc)
      | Some (backendName, confirm) \<Rightarrow>
      (case ResolveKey C (case ec_Resolver c of None \<Rightarrow> dir_resolver (ev_undoc V) files (ec_Root c) | Some r \<Rightarrow> r)
              (ec_OrgDID c) of
        Inl e \<Rightarrow> (Inl (OrgUnresolvable (ec_OrgDID c) e), files, kc)
      | Inr _ \<Rightarrow>
      (case LoadMapping V files (ec_MappingPath c) of
        Inl e \<Rightarrow> (Inl e, files, kc)
      | Inr m \<Rightarrow>
      (case findByDID (ec_DeviceDID c) (mp_Employees m) of
        Some owner \<Rightarrow> (Inl (AlreadyRegistered (ec_DeviceDID c) owner), files, kc)
      | None \<Rightarrow>
      (case ProvisionDeviceKey C V (ec_DeviceDID c) (ec_Device c) kc of
        (Inl e, kc1) \<Rightarrow> (Inl e, files, kc1)
      | (Inr (sg, info), kc1) \<Rightarrow>
      (case confirm \<lparr>cq_Identity = ec_Identity c, cq_DID = ec_DeviceDID c,
                     cq_Fingerprint = ki_Fingerprint info, cq_Algorithm = ki_Algorithm info\<rparr> of
        Some msg \<Rightarrow> (Inl (Declined msg), files, cleanupDeviceKey info kc1)
      | None \<Rightarrow>
      (case register_device C V now c backendName orgSigner m sg info files of
        (Inl e, files') \<Rightarrow> (Inl e, files', cleanupDeviceKey info kc1)
      | (Inr res, files') \<Rightarrow> (Inr res, files', kc1)))))))))"

section \<open>Unique identifiers\<close>

text \<open>All device identifiers of a mapping, in order.\<close>

definition mapping_dids :: "(string \<times> Employee) list \<Rightarrow> DID list" where
  "mapping_dids es = concat (map (\<lambda>(_, e). map dc_DID (em_Credentials e)) es)"

lemma findByDID_None: "findByDID d es = None \<longleftrightarrow> d \<notin> set (mapping_dids es)"
  by (induction d es rule: findByDID.induct) (auto simp: mapping_dids_def list_ex_iff)

lemma mset_append_credential:
  "mset (mapping_dids (append_credential i c es)) = add_mset (dc_DID c) (mset (mapping_dids es))"
  by (induction i c es rule: append_credential.induct) (auto simp: mapping_dids_def)

lemma AddCredential_unique:
  assumes "AddCredential i c m = Inr m'" and "distinct (mapping_dids (mp_Employees m))"
  shows "distinct (mapping_dids (mp_Employees m'))"
    and "mset (mapping_dids (mp_Employees m')) = add_mset (dc_DID c) (mset (mapping_dids (mp_Employees m)))"
    and "mp_Version m' = mp_Version m"
proof -
  from assms(1) have f: "dc_DID c \<notin> set (mapping_dids (mp_Employees m))"
    and m': "m' = m\<lparr>mp_Employees := append_credential i c (mp_Employees m)\<rparr>"
    by (auto simp: AddCredential_def findByDID_None [symmetric] split: if_splits option.splits)
  show ms: "mset (mapping_dids (mp_Employees m')) = add_mset (dc_DID c) (mset (mapping_dids (mp_Employees m)))"
    by (simp add: m' mset_append_credential)
  have "distinct (dc_DID c # mapping_dids (mp_Employees m))" using f assms(2) by simp
  moreover have "mset (mapping_dids (mp_Employees m')) = mset (dc_DID c # mapping_dids (mp_Employees m))" by (simp add: ms)
  ultimately show "distinct (mapping_dids (mp_Employees m'))" by (metis mset_eq_imp_distinct_iff)
  show "mp_Version m' = mp_Version m" by (simp add: m')
qed

section \<open>What a registration writes\<close>

lemma register_device_ok:
  assumes "register_device C V now c name org m sg info files = (Inr res, files')"
  obtains doc path cred sig m' data where
    "NewDocument (ec_DeviceDID c) (s_Public sg) = Some doc" "DocumentPath (ec_Root c) (ec_DeviceDID c) = Inr path"
    "mintCredential C c org (s_Public sg) = Inr (cred, \<lparr>lk_Credential = cred, lk_IssuerProof = sig\<rparr>)"
    "er_Chain res = \<lparr>Links = [\<lparr>lk_Credential = cred, lk_IssuerProof = sig\<rparr>]\<rparr>"
    "AddCredential (ec_Identity c)
       \<lparr>dc_DID = ec_DeviceDID c, dc_CredentialID = er_CredentialID res, dc_StatusURL = ec_StatusURL c,
        dc_StatusIndex = ec_StatusIndex c, dc_KeyFingerprint = ki_Fingerprint info,
        dc_KeyBackend = ki_Backend info, dc_KeyTag = ki_Tag info, dc_Algorithm = ki_Algorithm info,
        dc_EnrolledAt = UTC now, dc_Revoked = False\<rparr> m = Inr m'"
    "files' = files(path \<mapsto> ev_doc V doc @ [char_of (10 :: nat)], ec_CredentialOut c \<mapsto> data,
       ec_MappingPath c \<mapsto> ev_mapping V (if mp_Version m' = 0 then m'\<lparr>mp_Version := mappingVersion\<rparr> else m') @ [char_of (10 :: nat)])"
proof -
  from assms obtain doc path cred link credID m' data where
    d: "NewDocument (ec_DeviceDID c) (s_Public sg) = Some doc" "DocumentPath (ec_Root c) (doc_ID doc) = Inr path"
    and m: "mintCredential C c org (s_Public sg) = Inr (cred, link)" and ch: "er_Chain res = \<lparr>Links = [link]\<rparr>"
    and id: "er_CredentialID res = credID"
    and a: "AddCredential (ec_Identity c)
       \<lparr>dc_DID = ec_DeviceDID c, dc_CredentialID = credID, dc_StatusURL = ec_StatusURL c,
        dc_StatusIndex = ec_StatusIndex c, dc_KeyFingerprint = ki_Fingerprint info,
        dc_KeyBackend = ki_Backend info, dc_KeyTag = ki_Tag info, dc_Algorithm = ki_Algorithm info,
        dc_EnrolledAt = UTC now, dc_Revoked = False\<rparr> m = Inr m'"
    and f: "files' = files(path \<mapsto> ev_doc V doc @ [char_of (10 :: nat)], ec_CredentialOut c \<mapsto> data,
       ec_MappingPath c \<mapsto> ev_mapping V (if mp_Version m' = 0 then m'\<lparr>mp_Version := mappingVersion\<rparr> else m') @ [char_of (10 :: nat)])"
    by (auto simp: register_device_def WriteDocument_def writeChain_def Mapping_Save_def Let_def
        split: sum.splits prod.splits option.splits if_splits)
  have "doc_ID doc = ec_DeviceDID c" using d(1) by (auto simp: NewDocument_def Let_def split: option.splits)
  moreover obtain sig where "link = \<lparr>lk_Credential = cred, lk_IssuerProof = sig\<rparr>"
    using m by (auto simp: mintCredential_def split: sum.splits)
  ultimately show thesis using that d m ch id a f by simp
qed

lemma Enroll_ok:
  assumes "Enroll C V now c (files, kc) = (Inr res, files', kc')"
  obtains org name confirm m sg info kc1 where "EnrollConfig_validate c = Inr org" "LoadMapping V files (ec_MappingPath c) = Inr m"
    "ProvisionDeviceKey C V (ec_DeviceDID c) (ec_Device c) kc = (Inr (sg, info), kc')"
    "register_device C V now c name org m sg info files = (Inr res, files')"
  using assms
  by (auto simp: Enroll_def split: sum.splits prod.splits option.splits)

section \<open>An enrolled device\<close>

lemma Credential_New_holder:
  assumes "Credential_New C opts = Inr cred" and "o_HolderKey opts = Some k"
  shows "\<exists>j. PublicKeyToJWK k = Some j \<and> JWK_PublicKey C (Some j) = Inr k"
proof -
  from assms(1) obtain j where j: "holderJWK C (o_HolderKey opts) = Inr j" "cr_HolderKey cred = Some j"
    by (auto simp: Credential_New_def bind_Inr_iff split: if_splits sum.splits)
  from holderJWK_ok [OF j(1)] assms(2) have "PublicKeyToJWK k = Some j" by auto
  with Credential_New_ok(5) [OF assms(1)] j(2) assms(2) show ?thesis by auto
qed

lemma mintCredential_ok:
  assumes "mintCredential C c org pub = Inr (cred, \<lparr>lk_Credential = cred, lk_IssuerProof = sig\<rparr>)"
    and "signer_ok C org" and "ResolveKey C r (ec_OrgDID c) = Inr (s_Public org)"
    and "ResolveKey C r (ec_DeviceDID c) = Inr pub"
  shows "hop_sound C r \<lparr>lk_Credential = cred, lk_IssuerProof = sig\<rparr> \<and> cr_Issuer cred = ec_OrgDID c \<and>
    cr_Subject cred = ec_DeviceDID c"
proof -
  from assms(1) obtain m ref where n: "Credential_New C \<lparr>o_Subject = ec_DeviceDID c, o_Issuer = ec_OrgDID c, o_Macaroon = m,
      o_HolderKey = Some pub, o_StatusRef = ref, o_VCWrapper = None\<rparr> = Inr cred"
    and s: "SignIssuance org cred = Inr sig"
    by (auto simp: mintCredential_def split: sum.splits)
  obtain input where "IssuanceInput cred = Inr input" "s_Sign org input = Some sig"
    using s by (auto simp: SignIssuance_def split: if_splits sum.splits option.splits)
  moreover note signer_okD [OF assms(2) this(2)]
  ultimately show ?thesis using Credential_New_ok [OF n] assms(3,4) by (auto simp: hop_sound_def Let_def)
qed

lemma enrolled_key_resolves:
  assumes "mintCredential C c org pub = Inr (cred, lk)" and "NewDocument (ec_DeviceDID c) pub = Some doc"
    and "DocumentPath (ec_Root c) (ec_DeviceDID c) = Inr path"
    and "files path = Some (ev_doc V doc @ [char_of (10 :: nat)])"
    and "ev_undoc V (ev_doc V doc @ [char_of (10 :: nat)]) = Some doc"
  shows "ResolveKey C (dir_resolver (ev_undoc V) files (ec_Root c)) (ec_DeviceDID c) = Inr pub"
proof -
  from assms(1) obtain m ref where "Credential_New C \<lparr>o_Subject = ec_DeviceDID c, o_Issuer = ec_OrgDID c, o_Macaroon = m,
      o_HolderKey = Some pub, o_StatusRef = ref, o_VCWrapper = None\<rparr> = Inr cred"
    by (auto simp: mintCredential_def split: sum.splits)
  from Credential_New_holder [OF this] obtain j where j: "PublicKeyToJWK pub = Some j" "JWK_PublicKey C (Some j) = Inr pub" by auto
  with assms(2) have "doc_ID doc = ec_DeviceDID c" "FirstKey C doc = Inr pub"
    by (auto simp: NewDocument_def FirstKey_def Let_def)
  with assms(3-5) show ?thesis
    by (simp add: ResolveKey_def dir_resolver_def FileResolver_Resolve_def parseDocument_def)
qed


text \<open>
  The checks on identifiers compare texts, not files.  If the device's identifier is another
  spelling of the organisation's file, a successful enrollment replaces the organisation's
  published document: the organisation no longer resolves from the directory, and the new
  credential does not verify either.
\<close>

theorem enroll_replaces_org_document:
  assumes "Enroll C V now c (files, kc) = (Inr res, files', kc')"
    and "DocumentPath (ec_Root c) (ec_DeviceDID c) = DocumentPath (ec_Root c) (ec_OrgDID c)"
    and "DocumentPath (ec_Root c) (ec_DeviceDID c) \<notin> {Inr (ec_CredentialOut c), Inr (ec_MappingPath c)}"
    and "\<And>d pub doc. NewDocument d pub = Some doc \<Longrightarrow> ev_undoc V (ev_doc V doc @ [char_of (10 :: nat)]) = Some doc"
  shows "let r = dir_resolver (ev_undoc V) files' (ec_Root c) in
    \<not> is_ok (ResolveKey C r (ec_OrgDID c)) \<and> \<not> is_ok (Chain_Verify C r (er_Chain res))"
proof -
  let ?r = "dir_resolver (ev_undoc V) files' (ec_Root c)"
  from assms(1) obtain org' name m sg info kc1 where v: "EnrollConfig_validate c = Inr org'"
    and r: "register_device C V now c name org' m sg info files = (Inr res, files')"
    by (rule Enroll_ok)
  from r obtain doc path cred sig m' data where
    doc: "NewDocument (ec_DeviceDID c) (s_Public sg) = Some doc" "DocumentPath (ec_Root c) (ec_DeviceDID c) = Inr path"
    and mint: "mintCredential C c org' (s_Public sg) = Inr (cred, \<lparr>lk_Credential = cred, lk_IssuerProof = sig\<rparr>)"
    and ch: "er_Chain res = \<lparr>Links = [\<lparr>lk_Credential = cred, lk_IssuerProof = sig\<rparr>]\<rparr>"
    and f: "files' = files(path \<mapsto> ev_doc V doc @ [char_of (10 :: nat)], ec_CredentialOut c \<mapsto> data,
       ec_MappingPath c \<mapsto> ev_mapping V (if mp_Version m' = 0 then m'\<lparr>mp_Version := mappingVersion\<rparr> else m') @ [char_of (10 :: nat)])"
    by (rule register_device_ok)
  have ne: "ec_DeviceDID c \<noteq> ec_OrgDID c" using v by (auto simp: EnrollConfig_validate_def split: if_splits option.splits)
  have "doc_ID doc = ec_DeviceDID c" using doc(1) by (auto simp: NewDocument_def Let_def split: option.splits)
  moreover have "files' path = Some (ev_doc V doc @ [char_of (10 :: nat)])" using assms(3) doc(2) by (simp add: f)
  ultimately have no: "\<not> is_ok (ResolveKey C ?r (ec_OrgDID c))"
    using assms(2) [symmetric] doc(2) assms(4) [OF doc(1)] ne
    by (simp add: ResolveKey_def dir_resolver_def FileResolver_Resolve_def parseDocument_def)
  have "cr_Issuer cred = ec_OrgDID c"
    using mint by (auto simp: mintCredential_def split: sum.splits dest: Credential_New_ok(2))
  with no have "\<not> hop_sound C ?r \<lparr>lk_Credential = cred, lk_IssuerProof = sig\<rparr>"
    by (auto simp: hop_sound_def Let_def)
  with no show ?thesis by (simp add: Chain_Verify_ok ch Let_def)
qed

section \<open>What a failed enrollment leaves behind\<close>

text \<open>The errors raised after the device's document was written.\<close>

fun late :: "enroll_err \<Rightarrow> bool" where
  "late (EnrollCaveat _) = True"
| "late (EnrollCredential _) = True"
| "late (EnrollIssuance _) = True"
| "late (EnrollID _) = True"
| "late CredentialMarshal = True"
| "late (CredentialWrite _) = True"
| "late (MappingWrite _) = True"
| "late _ = False"

lemma late_sources:
  "mintCredential C c org pub = Inl e \<Longrightarrow> late e"
  "writeChain V path ch files = (Inl e, files') \<Longrightarrow> late e \<and> files' = files"
  "Mapping_Save V m path files = (Inl e, files') \<Longrightarrow> late e \<and> files' = files"
  by (auto simp: mintCredential_def writeChain_def Mapping_Save_def Let_def split: sum.splits option.splits if_splits)

lemma register_device_err:
  assumes "register_device C V now c name org m sg info files = (Inl e, files')"
    and "findByDID (ec_DeviceDID c) (mp_Employees m) = None" and "ec_Identity c \<noteq> []" and "ec_DeviceDID c \<noteq> []"
  shows "\<not> late e \<and> files' = files \<or>
    late e \<and> (\<exists>path doc. DocumentPath (ec_Root c) (ec_DeviceDID c) = Inr path \<and> doc_ID doc = ec_DeviceDID c \<and>
      (path \<noteq> ec_CredentialOut c \<longrightarrow> files' path = Some (ev_doc V doc @ [char_of (10 :: nat)])))"
proof (cases "WriteDocument (ev_doc V) (ev_writable V) (ec_Root c) (NewDocument (ec_DeviceDID c) (s_Public sg)) files")
  case (Pair w files1)
  show ?thesis
  proof (cases w)
    case (Inl we)
    with Pair assms(1) show ?thesis
      by (auto simp: register_device_def WriteDocument_def split: option.splits sum.splits if_splits)
  next
    case (Inr path)
    with Pair obtain doc where doc: "NewDocument (ec_DeviceDID c) (s_Public sg) = Some doc"
      "DocumentPath (ec_Root c) (doc_ID doc) = Inr path" and f1: "files1 = files(path \<mapsto> ev_doc V doc @ [char_of (10 :: nat)])"
      by (auto simp: WriteDocument_def split: option.splits sum.splits if_splits)
    have id: "doc_ID doc = ec_DeviceDID c" using doc(1) by (auto simp: NewDocument_def Let_def split: option.splits)
    have "late e \<and> (path \<noteq> ec_CredentialOut c \<longrightarrow> files' path = files1 path)"
      using assms Pair Inr
      by (auto simp: register_device_def writeChain_def [of V "ec_CredentialOut c"] AddCredential_def dest: late_sources
          split: sum.splits prod.splits option.splits if_splits)
    with doc(2) id f1 show ?thesis by auto
  qed
qed

lemma early_errors:
  "EnrollConfig_validate c = Inl e \<Longrightarrow> \<not> late e"
  "LoadMapping V files path = Inl e \<Longrightarrow> \<not> late e"
  by (auto simp: EnrollConfig_validate_def LoadMapping_def split: if_splits option.splits)

lemma describeKey_err: "describeKey C sg b t = Inl e \<Longrightarrow> e = DeviceKeyType \<and> PublicKeyToJWK (s_Public sg) = None"
  by (auto simp: describeKey_def algorithmOf_def Fingerprint_def PublicKeyToJWK_def split: option.splits public_key.splits if_splits)

lemma map_sum_Inl_iff: "map_sum f g x = Inl y \<longleftrightarrow> (\<exists>z. x = Inl z \<and> y = f z)"
  by (cases x) auto

text \<open>The secure element generates keys that have a JWK form (it makes P-256 keys only).\<close>

definition enclave_keys_supported :: "enroll_env \<Rightarrow> bool" where
  "enclave_keys_supported V \<longleftrightarrow>
     (\<forall>gen d tag sg. ev_generate V = Some gen \<and> gen d tag = Some sg \<longrightarrow> PublicKeyToJWK (s_Public sg) \<noteq> None)"

lemma ProvisionDeviceKey_err:
  assumes "ProvisionDeviceKey C V d opts kc = (Inl e, kc1)"
    and "enclave_keys_supported V"
  shows "kc1 = kc \<and> \<not> late e"
  using assms
  by (auto simp: ProvisionDeviceKey_def map_sum_Inl_iff enclave_keys_supported_def
      split: option.splits if_splits dest!: describeKey_err) (metis option.distinct(1))+

lemma ProvisionDeviceKey_cleanup:
  assumes "ProvisionDeviceKey C V d opts kc = (Inr (sg, info), kc1)" and "dk_Tag opts \<notin> kc"
  shows "cleanupDeviceKey info kc1 = kc"
proof -
  have "ki_Backend x = b \<and> ki_Tag x = t" if "describeKey C y b t = Inr x" for y b t x
    using that by (auto simp: describeKey_def split: option.splits)
  with assms show ?thesis
    by (auto simp: ProvisionDeviceKey_def cleanupDeviceKey_def map_sum_Inr_iff backendSoftware_def backendSecureEnclave_def
        split: option.splits if_splits)
qed

lemma Enroll_err:
  assumes "Enroll C V now c (files, kc) = (Inl e, files', kc')"
    and "dk_Tag (ec_Device c) \<notin> kc"
    and "enclave_keys_supported V"
  obtains (early) "kc' = kc" "\<not> late e" "files' = files"
    | (registered) name org m sg info where "kc' = kc" "findByDID (ec_DeviceDID c) (mp_Employees m) = None"
      "ec_Identity c \<noteq> []" "ec_DeviceDID c \<noteq> []" "register_device C V now c name org m sg info files = (Inl e, files')"
proof (cases "EnrollConfig_validate c")
  case (Inl a)
  with assms(1) early_errors(1) [OF Inl] show ?thesis by (auto simp: Enroll_def intro: early)
next
  case (Inr org)
  then have ids: "ec_Identity c \<noteq> []" "ec_DeviceDID c \<noteq> []"
    by (auto simp: EnrollConfig_validate_def split: if_splits)
  note rest = assms(1) [unfolded Enroll_def prod.case Inr sum.case]
  show ?thesis
    using rest ids
    by (auto split: option.splits sum.splits prod.splits
        dest: early_errors ProvisionDeviceKey_cleanup [OF _ assms(2)] ProvisionDeviceKey_err [OF _ assms(3)]
        intro: early registered)
qed

text \<open>
  A refused enrollment leaves no key behind: whatever the error, the keychain is as before.
  It leaves no file behind either when it is refused by a gate, from validation to
  the operator's confirmation; but an error after that point, such as an invalid caveat,
  leaves the device's document published.
\<close>

theorem enroll_failure_trace:
  assumes "Enroll C V now c (files, kc) = (Inl e, files', kc')"
    and "dk_Tag (ec_Device c) \<notin> kc"
    and "enclave_keys_supported V"
  shows "kc' = kc \<and> (\<not> late e \<longrightarrow> files' = files) \<and>
    (late e \<longrightarrow> (\<exists>path doc. DocumentPath (ec_Root c) (ec_DeviceDID c) = Inr path \<and> doc_ID doc = ec_DeviceDID c \<and>
      (path \<noteq> ec_CredentialOut c \<longrightarrow> files' path = Some (ev_doc V doc @ [char_of (10 :: nat)]))))"
proof (cases rule: Enroll_err [OF assms])
  case (2 name org m sg info)
  from register_device_err [OF 2(5,2,3,4)] 2(1) show ?thesis by blast
qed simp

section \<open>A concrete enrollment\<close>

definition sample_env :: enroll_env where
  "sample_env =
     \<lparr>ev_doc = enc_doc, ev_undoc = dec_doc, ev_chain = (\<lambda>_. Some []), ev_mapping = (\<lambda>_. []),
      ev_unmapping = (\<lambda>_. None), ev_unreadable = (\<lambda>_. False), ev_writable = (\<lambda>_. True),
      ev_confirm = Some (LocalTOFU_Name True, LocalTOFU_Confirm True None), ev_generate = None,
      ev_fresh = (\<lambda>d. Some (toy_signer d CHR ''D''))\<rparr>"

definition sample_enroll :: "DID \<Rightarrow> Caveat list \<Rightarrow> EnrollConfig" where
  "sample_enroll d cs =
     \<lparr>ec_Identity = ''eve'', ec_DeviceDID = d, ec_OrgDID = ''did:web:a.example'',
      ec_OrgSigner = Some (toy_signer ''did:web:a.example'' CHR ''3''), ec_MacaroonRootKey = ''k'', ec_Identifier = ''id'',
      ec_Location = [], ec_Caveats = cs, ec_StatusURL = ''https://a.example/status/1.json'', ec_StatusIndex = 3,
      ec_Root = ''/pub'', ec_Resolver = None, ec_MappingPath = ''/map'', ec_CredentialOut = ''/cred'',
      ec_Device = \<lparr>dk_ForceSoftware = True, dk_Seed = [], dk_Tag = []\<rparr>\<rparr>"

text \<open>The directory with the organisation's document.\<close>

definition org_doc :: Document where
  "org_doc = the (NewDocument ''did:web:a.example'' (Ed25519Key (toy_key CHR ''3'')))"

definition org_files :: "string \<rightharpoonup> bytes" where
  "org_files = [''/pub/a.example/.well-known/did.json'' \<mapsto> enc_doc org_doc @ [char_of (10 :: nat)]]"

lemma toy_document: "\<exists>doc. NewDocument d (Ed25519Key (toy_key c)) = Some doc \<and> doc_ID doc = d \<and> FirstKey toy_crypto doc = Inr (Ed25519Key (toy_key c))"
  using NewDocument_resolves [of toy_crypto "Ed25519Key (toy_key c)" d] by (auto simp: key_supported_def toy_key_def)

lemma org_resolves: "ResolveKey toy_crypto (dir_resolver dec_doc org_files ''/pub'') ''did:web:a.example'' = Inr (Ed25519Key (toy_key CHR ''3''))"
proof -
  obtain doc where doc: "NewDocument ''did:web:a.example'' (Ed25519Key (toy_key CHR ''3'')) = Some doc"
    "doc_ID doc = ''did:web:a.example''" "FirstKey toy_crypto doc = Inr (Ed25519Key (toy_key CHR ''3''))"
    using toy_document by blast
  then have "org_doc = doc" by (simp add: org_doc_def)
  with doc dec_enc_doc [OF doc(1)] show ?thesis
    by (simp add: ResolveKey_def dir_resolver_def FileResolver_Resolve_def sample_paths org_files_def parseDocument_def)
qed

lemma sample_provision:
  "\<exists>info. ProvisionDeviceKey toy_crypto sample_env d \<lparr>dk_ForceSoftware = True, dk_Seed = [], dk_Tag = []\<rparr> kc =
     (Inr (toy_signer d CHR ''D'', info), kc)"
  by (simp add: ProvisionDeviceKey_def softwareKey_def sample_env_def describeKey_def algorithmOf_def Fingerprint_def
      PublicKeyToJWK_def toy_signer_def)

lemma sample_mint_device:
  assumes "d \<noteq> []"
  shows "\<exists>cred sig cid. mintCredential toy_crypto (sample_enroll d []) (toy_signer ''did:web:a.example'' CHR ''3'')
     (Ed25519Key (toy_key CHR ''D'')) = Inr (cred, \<lparr>lk_Credential = cred, lk_IssuerProof = sig\<rparr>) \<and>
     CredentialID toy_crypto cred = Inr cid"
proof -
  let ?opts = "\<lparr>o_Subject = d, o_Issuer = ''did:web:a.example'', o_Macaroon = Mint (hmac_sha256 toy_crypto) ''k'' ''id'' [],
    o_HolderKey = Some (Ed25519Key (toy_key CHR ''D'')),
    o_StatusRef = \<lparr>ref_ListURL = ''https://a.example/status/1.json'', ref_Index = 3, ref_Issuer = []\<rparr>, o_VCWrapper = None\<rparr>"
  obtain c where c: "Credential_New toy_crypto ?opts = Inr c"
    using toy_holderJWK [of "CHR ''D''"] assms by (auto simp: Credential_New_def Mint_def toy_crypto_def)
  have "cr_VCWrapper c = None" using c by (auto simp: Credential_New_def bind_Inr_iff)
  then have m: "credential_marshals c" by (simp add: credential_marshals_def)
  then obtain sig where "SignIssuance (toy_signer ''did:web:a.example'' CHR ''3'') c = Inr sig"
    using Credential_New_ok(2) [OF c] by (auto simp: SignIssuance_def IssuanceInput_def toy_signer_def)
  with c m show ?thesis by (simp add: mintCredential_def sample_enroll_def CredentialID_def)
qed

lemma sample_selectors:
  "ec_Identity (sample_enroll d cs) = ''eve''" "ec_DeviceDID (sample_enroll d cs) = d"
  "ec_OrgDID (sample_enroll d cs) = ''did:web:a.example''" "ec_Root (sample_enroll d cs) = ''/pub''"
  "ec_Resolver (sample_enroll d cs) = None" "ec_MappingPath (sample_enroll d cs) = ''/map''"
  "ec_CredentialOut (sample_enroll d cs) = ''/cred''" "ec_Caveats (sample_enroll d cs) = cs"
  "ec_OrgSigner (sample_enroll d cs) = Some (toy_signer ''did:web:a.example'' CHR ''3'')"
  "ec_Device (sample_enroll d cs) = \<lparr>dk_ForceSoftware = True, dk_Seed = [], dk_Tag = []\<rparr>"
  by (simp_all add: sample_enroll_def)

lemma sample_env_selectors:
  "ev_doc sample_env = enc_doc" "ev_undoc sample_env = dec_doc" "ev_chain sample_env = (\<lambda>_. Some [])"
  "ev_mapping sample_env = (\<lambda>_. [])" "ev_unreadable sample_env = (\<lambda>_. False)" "ev_writable sample_env = (\<lambda>_. True)"
  "ev_confirm sample_env = Some (LocalTOFU_Name True, LocalTOFU_Confirm True None)" "ev_generate sample_env = None"
  by (simp_all add: sample_env_def)

lemma sample_validates:
  assumes "d \<noteq> []" and "d \<noteq> ''did:web:a.example''"
  shows "EnrollConfig_validate (sample_enroll d cs) = Inr (toy_signer ''did:web:a.example'' CHR ''3'')"
  using assms by (simp add: EnrollConfig_validate_def sample_enroll_def toy_signer_def)

lemma toy_signer_Public: "s_Public (toy_signer x k) = Ed25519Key (toy_key k)"
  by (simp add: toy_signer_def)

text \<open>The gates pass, so that the enrollment is the registration of the device.\<close>

lemma sample_gates:
  assumes "d \<noteq> []" and "d \<noteq> ''did:web:a.example''"
  shows "\<exists>info. Enroll toy_crypto sample_env sample_time (sample_enroll d cs) (org_files, {}) =
    (case register_device toy_crypto sample_env sample_time (sample_enroll d cs) (LocalTOFU_Name True)
       (toy_signer ''did:web:a.example'' CHR ''3'') NewMapping (toy_signer d CHR ''D'') info org_files of
       (Inl e, files') \<Rightarrow> (Inl e, files', {}) | (Inr res, files') \<Rightarrow> (Inr res, files', {}))"
proof -
  obtain info where p: "ProvisionDeviceKey toy_crypto sample_env d \<lparr>dk_ForceSoftware = True, dk_Seed = [], dk_Tag = []\<rparr> {} =
     (Inr (toy_signer d CHR ''D'', info), {})" using sample_provision by blast
  then have "ki_Backend info = backendSoftware"
    by (auto simp: ProvisionDeviceKey_def describeKey_def map_sum_Inr_iff sample_env_selectors split: option.splits)
  then have c: "cleanupDeviceKey info {} = {}" by (simp add: cleanupDeviceKey_def)
  have l: "LoadMapping sample_env org_files ''/map'' = Inr NewMapping" by (simp add: LoadMapping_def org_files_def)
  show ?thesis
    using p org_resolves sample_validates [OF assms, of cs] l c
    by (intro exI [of _ info])
      (simp add: Enroll_def sample_selectors sample_env_selectors LocalTOFU_Confirm_def NewMapping_def
        split: prod.splits sum.splits)
qed

lemma sample_enrolled:
  assumes "d \<noteq> []" and "d \<noteq> ''did:web:a.example''" and "DocumentPath ''/pub'' d = Inr path"
  shows "\<exists>res files'. Enroll toy_crypto sample_env sample_time (sample_enroll d []) (org_files, {}) = (Inr res, files', {})"
proof -
  obtain cred sig cid where m: "mintCredential toy_crypto (sample_enroll d []) (toy_signer ''did:web:a.example'' CHR ''3'')
     (Ed25519Key (toy_key CHR ''D'')) = Inr (cred, \<lparr>lk_Credential = cred, lk_IssuerProof = sig\<rparr>)"
     "CredentialID toy_crypto cred = Inr cid" using sample_mint_device [OF assms(1)] by blast
  obtain doc where doc: "NewDocument d (Ed25519Key (toy_key CHR ''D'')) = Some doc" "doc_ID doc = d"
    using toy_document by blast
  obtain info where g: "Enroll toy_crypto sample_env sample_time (sample_enroll d []) (org_files, {}) =
    (case register_device toy_crypto sample_env sample_time (sample_enroll d []) (LocalTOFU_Name True)
       (toy_signer ''did:web:a.example'' CHR ''3'') NewMapping (toy_signer d CHR ''D'') info org_files of
       (Inl e, files') \<Rightarrow> (Inl e, files', {}) | (Inr res, files') \<Rightarrow> (Inr res, files', {}))"
    using sample_gates [OF assms(1,2)] by blast
  show ?thesis
    unfolding g
    using m doc assms
    by (simp add: register_device_def WriteDocument_def writeChain_def Mapping_Save_def AddCredential_def
        toy_signer_Public sample_selectors sample_env_selectors NewMapping_def Let_def)
qed

lemma sample_codec: "NewDocument d pub = Some doc \<Longrightarrow> ev_undoc sample_env (ev_doc sample_env doc @ t) = Some doc"
  by (simp add: sample_env_selectors dec_enc_doc)


theorem enroll_replaces_org_document_witness:
  "\<exists>res files'. Enroll toy_crypto sample_env sample_time (sample_enroll ''did:web:a.example:.well-known'' []) (org_files, {}) =
       (Inr res, files', {}) \<and>
     is_ok (ResolveKey toy_crypto (dir_resolver dec_doc org_files ''/pub'') ''did:web:a.example'') \<and>
     \<not> is_ok (ResolveKey toy_crypto (dir_resolver dec_doc files' ''/pub'') ''did:web:a.example'')"
proof -
  have p: "DocumentPath ''/pub'' ''did:web:a.example:.well-known'' = Inr ''/pub/a.example/.well-known/did.json''" by code_simp
  obtain res files' where e: "Enroll toy_crypto sample_env sample_time (sample_enroll ''did:web:a.example:.well-known'' [])
    (org_files, {}) = (Inr res, files', {})" using sample_enrolled [OF _ _ p] by auto
  have "\<not> is_ok (ResolveKey toy_crypto (dir_resolver (ev_undoc sample_env) files' ''/pub'') ''did:web:a.example'')"
    using enroll_replaces_org_document [OF e] by (simp add: sample_selectors sample_codec sample_paths p Let_def)
  with e org_resolves show ?thesis by (auto simp: sample_env_selectors)
qed

theorem enroll_failure_trace_witness:
  "\<exists>e files' doc. Enroll toy_crypto sample_env sample_time
         (sample_enroll ''did:web:b.example'' [\<lparr>c_Field = [], c_Op = [], c_Value = []\<rparr>]) (org_files, {}) =
       (Inl (EnrollCaveat e), files', {}) \<and>
     org_files ''/pub/b.example/.well-known/did.json'' = None \<and> doc_ID doc = ''did:web:b.example'' \<and>
     files' ''/pub/b.example/.well-known/did.json'' = Some (enc_doc doc @ [char_of (10 :: nat)])"
proof -
  let ?c = "sample_enroll ''did:web:b.example'' [\<lparr>c_Field = [], c_Op = [], c_Value = []\<rparr>]"
  have "\<exists>e. caveat_validate \<lparr>c_Field = [], c_Op = [], c_Value = []\<rparr> = Inl e"
    by (simp add: caveat_validate_def trim_eval)
  then obtain e where c: "mintCredential toy_crypto ?c org pub = Inl (EnrollCaveat e)" for org pub
    by (auto simp: mintCredential_def sample_selectors Attenuate_def)
  obtain doc where doc: "NewDocument ''did:web:b.example'' (Ed25519Key (toy_key CHR ''D'')) = Some doc"
    "doc_ID doc = ''did:web:b.example''" using toy_document by blast
  obtain files' where r: "Enroll toy_crypto sample_env sample_time ?c (org_files, {}) = (Inl (EnrollCaveat e), files', {})"
    using sample_gates [of "''did:web:b.example''" "[\<lparr>c_Field = [], c_Op = [], c_Value = []\<rparr>]"] c doc sample_paths
    by (auto simp: register_device_def WriteDocument_def toy_signer_Public sample_selectors sample_env_selectors)
  from enroll_failure_trace [OF r] obtain doc' where "doc_ID doc' = ''did:web:b.example''"
    "files' ''/pub/b.example/.well-known/did.json'' = Some (enc_doc doc' @ [char_of (10 :: nat)])"
    by (auto simp: sample_selectors sample_env_selectors enclave_keys_supported_def sample_paths)
  moreover have "org_files ''/pub/b.example/.well-known/did.json'' = None" by (simp add: org_files_def)
  ultimately show ?thesis using r by blast
qed

end
