(* ===== verification/Signerd.thy ===== *)
theory Signerd
  imports Credential "HOL-Library.AList"
begin

text \<open>
  \<^verbatim>\<open>internal/signerd\<close>: the signing daemon and its client.  The server holds signers by identifier
  and answers one JSON request per line on a Unix socket; the client turns a connection into
  a signer.  The peer's user, the JSON decoder, the texts of errors and failing writes are
  arguments.  The lemmas show who is answered, in which order, that the client signs exactly
  what the held key signs, and which key answers for an identifier.
\<close>

section \<open>Tables of keys\<close>

text \<open>
  What the daemon needs of its table: a key that was put answers for its name, others are
  unaffected.  Then the last key put under a name answers for it.
\<close>

locale key_table =
  fixes put :: "'k \<Rightarrow> 't \<Rightarrow> 't" and look :: "'t \<Rightarrow> 'n \<Rightarrow> 'k option" and name_of :: "'k \<Rightarrow> 'n"
  assumes look_put: "look (put k t) n = (if n = name_of k then Some k else look t n)"
begin

lemma look_fold: "look (fold put ks t) n = (case find (\<lambda>k. name_of k = n) (rev ks) of None \<Rightarrow> look t n | Some k \<Rightarrow> Some k)"
proof (induction ks rule: rev_induct)
  case (snoc k ks)
  then show ?case by (simp add: look_put)
qed simp

lemma look_fold_member:
  assumes "k \<in> set ks" and "\<And>k'. k' \<in> set ks \<Longrightarrow> name_of k' = name_of k \<Longrightarrow> P k'"
  shows "\<exists>k'. look (fold put ks t) (name_of k) = Some k' \<and> name_of k' = name_of k \<and> P k'"
proof -
  have "find (\<lambda>k'. name_of k' = name_of k) (rev ks) \<noteq> None" using assms(1) by (auto simp: find_None_iff)
  then obtain k' where f: "find (\<lambda>k'. name_of k' = name_of k) (rev ks) = Some k'" by blast
  then have "k' \<in> set ks" "name_of k' = name_of k" by (auto simp: find_Some_iff) (metis length_rev nth_mem set_rev)
  with f assms(2) show ?thesis by (auto simp: look_fold)
qed

end

section \<open>Protocol\<close>

definition OpList :: string where "OpList = ''list''"
definition OpPublic :: string where "OpPublic = ''public''"
definition OpSign :: string where "OpSign = ''sign''"

definition maxMessage :: nat where "maxMessage = 2 ^ 20"

record DaemonRequest =
  dq_Op :: string
  dq_DID :: DID
  dq_Data :: bytes

record DaemonResponse =
  dr_OK :: bool
  dr_Error :: string
  dr_Sig :: bytes
  dr_PubJWK :: "JWK option"
  dr_DIDs :: "DID list"

definition request_json :: "DaemonRequest \<Rightarrow> json" where
  "request_json r =
     JObj ([(''op'', JStr (dq_Op r))] @ omitempty ''did'' (dq_DID r = []) (JStr (dq_DID r)) @
           omitempty ''data'' (dq_Data r = []) (JBytes (dq_Data r)))"

definition response_json :: "DaemonResponse \<Rightarrow> json" where
  "response_json r =
     JObj ([(''ok'', JBool (dr_OK r))] @ omitempty ''error'' (dr_Error r = []) (JStr (dr_Error r)) @
           omitempty ''sig'' (dr_Sig r = []) (JBytes (dr_Sig r)) @
           (case dr_PubJWK r of None \<Rightarrow> [] | Some j \<Rightarrow> [(''pubJwk'', jwk_json j)]) @
           omitempty ''dids'' (dr_DIDs r = []) (JList JStr (dr_DIDs r)))"

text \<open>What the daemon reports; \<open>de_text\<close> is the wording.\<close>

datatype daemon_err =
    PeerCheckFailed
  | NotDaemonOwner
  | MalformedRequest
  | KeyNotHeld DID
  | UnsupportedPublicKey
  | SignFailed
  | UnknownOp string

record daemon_env =
  de_request :: "bytes \<Rightarrow> DaemonRequest option"
  de_response :: "bytes \<Rightarrow> DaemonResponse option"
  de_text :: "daemon_err \<Rightarrow> string"

definition zero_Response :: DaemonResponse where
  "zero_Response = \<lparr>dr_OK = False, dr_Error = [], dr_Sig = [], dr_PubJWK = None, dr_DIDs = []\<rparr>"

definition error_Response :: "daemon_env \<Rightarrow> daemon_err \<Rightarrow> DaemonResponse" where
  "error_Response E e = zero_Response\<lparr>dr_Error := de_text E e\<rparr>"

section \<open>The key set\<close>

text \<open>
  A policy is an \<^verbatim>\<open>int\<close>, so that undefined values are possible.  A held signer knows whether
  it has the method \<^verbatim>\<open>Hardware\<close> and what that answers.
\<close>

type_synonym KeyPolicy = int

definition Routine :: KeyPolicy where "Routine = 0"
definition Approval :: KeyPolicy where "Approval = 1"
definition Attestation :: KeyPolicy where "Attestation = 2"

lemmas policy_defs = Routine_def Approval_def Attestation_def

definition KeyPolicy_String :: "KeyPolicy \<Rightarrow> string" where
  "KeyPolicy_String p =
     (if p = Routine then ''routine'' else if p = Approval then ''approval''
      else if p = Attestation then ''attestation'' else ''unknown('' @ show_int p @ '')'')"

definition known :: "KeyPolicy \<Rightarrow> bool" where
  "known p = (if p = Routine \<or> p = Approval \<or> p = Attestation then True else False)"

definition requiresHardware :: "KeyPolicy \<Rightarrow> bool" where
  "requiresHardware p =
     (if p = Routine \<or> p = Attestation then False else if p = Approval then True else True)"

record held_signer =
  hs_Signer :: Signer
  hs_Hardware :: "bool option"

definition isHardwareBacked :: "held_signer \<Rightarrow> bool" where
  "isHardwareBacked s = (case hs_Hardware s of None \<Rightarrow> False | Some h \<Rightarrow> h)"

record HeldKey =
  hk_Signer :: "held_signer option"
  hk_Policy :: KeyPolicy

record Server =
  sv_signers :: "(DID \<times> held_signer) list"
  sv_ownerUID :: "32 word"

definition Server_New :: "32 word \<Rightarrow> (DID \<times> held_signer) list \<Rightarrow> Server" where
  "Server_New uid signers = \<lparr>sv_signers = AList.updates (map fst signers) (map snd signers) [], sv_ownerUID = uid\<rparr>"

datatype keys_err = NilSigner | UnknownPolicy DID KeyPolicy | SoftwareKeyRefused KeyPolicy DID

fun keys_loop :: "HeldKey list \<Rightarrow> (DID \<times> held_signer) list \<Rightarrow> keys_err + (DID \<times> held_signer) list" where
  "keys_loop [] m = Inr m"
| "keys_loop (k # ks) m =
     (case hk_Signer k of
        None \<Rightarrow> Inl NilSigner
      | Some s \<Rightarrow>
          if \<not> known (hk_Policy k) then Inl (UnknownPolicy (s_DID (hs_Signer s)) (hk_Policy k))
          else if requiresHardware (hk_Policy k) \<and> \<not> isHardwareBacked s
          then Inl (SoftwareKeyRefused (hk_Policy k) (s_DID (hs_Signer s)))
          else keys_loop ks (AList.update (s_DID (hs_Signer s)) s m))"

definition NewKeys :: "32 word \<Rightarrow> HeldKey list \<Rightarrow> keys_err + Server" where
  "NewKeys uid keys =
     (case keys_loop keys [] of Inl e \<Rightarrow> Inl e | Inr m \<Rightarrow> Inr \<lparr>sv_signers = m, sv_ownerUID = uid\<rparr>)"

definition Server_Add :: "held_signer \<Rightarrow> Server \<Rightarrow> Server" where
  "Server_Add s sv = sv\<lparr>sv_signers := AList.update (s_DID (hs_Signer s)) s (sv_signers sv)\<rparr>"

section \<open>Serving\<close>

definition Server_lookup :: "Server \<Rightarrow> DID \<Rightarrow> held_signer option" where
  "Server_lookup sv d = map_of (sv_signers sv) d"

definition Server_list :: "Server \<Rightarrow> DID list" where
  "Server_list sv = sort (map fst (sv_signers sv))"

text \<open>The encoder's panic on an unsupported key is recovered into an error.\<close>

definition publicJWK :: "Signer \<Rightarrow> JWK option" where
  "publicJWK sg = PublicKeyToJWK (s_Public sg)"

definition serve_request :: "daemon_env \<Rightarrow> Server \<Rightarrow> DaemonRequest \<Rightarrow> DaemonResponse" where
  "serve_request E sv req =
     (if dq_Op req = OpList then zero_Response\<lparr>dr_OK := True, dr_DIDs := Server_list sv\<rparr>
      else if dq_Op req = OpPublic then
        (case Server_lookup sv (dq_DID req) of
           None \<Rightarrow> error_Response E (KeyNotHeld (dq_DID req))
         | Some s \<Rightarrow>
             (case publicJWK (hs_Signer s) of
                None \<Rightarrow> error_Response E UnsupportedPublicKey
              | Some j \<Rightarrow> zero_Response\<lparr>dr_OK := True, dr_PubJWK := Some j\<rparr>))
      else if dq_Op req = OpSign then
        (case Server_lookup sv (dq_DID req) of
           None \<Rightarrow> error_Response E (KeyNotHeld (dq_DID req))
         | Some s \<Rightarrow>
             (case s_Sign (hs_Signer s) (dq_Data req) of
                None \<Rightarrow> error_Response E SignFailed
              | Some sig \<Rightarrow> zero_Response\<lparr>dr_OK := True, dr_Sig := sig\<rparr>))
      else error_Response E (UnknownOp (dq_Op req)))"

definition daemon_dispatch :: "daemon_env \<Rightarrow> Server \<Rightarrow> bytes \<Rightarrow> DaemonResponse" where
  "daemon_dispatch E sv line =
     (case de_request E line of
        None \<Rightarrow> error_Response E MalformedRequest
      | Some req \<Rightarrow> serve_request E sv req)"

definition line_feed :: char where "line_feed = char_of (10 :: nat)"

text \<open>\<^verbatim>\<open>ReadBytes\<close> up to and with the newline: the line, the rest, and whether it was found.\<close>

definition ReadBytes :: "bytes \<Rightarrow> bytes \<times> bytes \<times> bool" where
  "ReadBytes s =
     (case dropWhile (\<lambda>c. c \<noteq> line_feed) s of
        [] \<Rightarrow> (s, [], False)
      | _ # rest \<Rightarrow> (takeWhile (\<lambda>c. c \<noteq> line_feed) s @ [line_feed], rest, True))"

lemma ReadBytes_shorter: "ReadBytes s = (line, rest, True) \<Longrightarrow> length rest < length s"
proof -
  assume "ReadBytes s = (line, rest, True)"
  then obtain c where "dropWhile (\<lambda>c. c \<noteq> line_feed) s = c # rest" by (auto simp: ReadBytes_def split: list.splits)
  then have "length (c # rest) \<le> length s" by (metis length_dropWhile_le)
  then show ?thesis by simp
qed

text \<open>
  A write that fails sends only some bytes: \<open>None\<close> for a complete write, otherwise how many
  were sent.  The result is what was sent and whether the write succeeded.  Marshalling a
  response of strings and bytes does not fail.
\<close>

definition writeResponse :: "nat option \<Rightarrow> DaemonResponse \<Rightarrow> bytes \<times> bool" where
  "writeResponse w resp =
     (let b = json_enc (response_json resp) @ [line_feed] in
      case w of None \<Rightarrow> (b, True) | Some n \<Rightarrow> (take n b, False))"

text \<open>
  The input is what the connection yields before it ends, by close, deadline or limit.  The
  server may change between requests through \<^verbatim>\<open>Add\<close>: \<open>sv i\<close> is the one the \<open>i\<close>-th request finds.
\<close>

function serve_lines :: "daemon_env \<Rightarrow> (nat \<Rightarrow> Server) \<Rightarrow> (nat \<Rightarrow> nat option) \<Rightarrow> nat \<Rightarrow> bytes \<Rightarrow> bytes" where
  "serve_lines E sv w i s =
     (case ReadBytes s of (line, rest, found) \<Rightarrow>
      case (if line = [] then ([], True) else writeResponse (w i) (daemon_dispatch E (sv i) line)) of
        (out, ok) \<Rightarrow> if ok \<and> found then out @ serve_lines E sv w (Suc i) rest else out)"
  by pat_completeness auto

termination
  by (relation "measure (\<lambda>(E, sv, w, i, s). length s)") (auto dest!: ReadBytes_shorter [OF sym] split: if_splits)

declare serve_lines.simps [simp del]

definition daemon_handle ::
  "daemon_env \<Rightarrow> (nat \<Rightarrow> Server) \<Rightarrow> (nat \<Rightarrow> nat option) \<Rightarrow> 32 word option \<Rightarrow> bytes \<Rightarrow> bytes" where
  "daemon_handle E sv w peer input =
     (case peer of
        None \<Rightarrow> fst (writeResponse (w 0) (error_Response E PeerCheckFailed))
      | Some uid \<Rightarrow>
          if uid \<noteq> sv_ownerUID (sv 0) then fst (writeResponse (w 0) (error_Response E NotDaemonOwner))
          else serve_lines E sv w 0 (take maxMessage input))"

section \<open>The client\<close>

datatype client_err =
    DaemonUnreachable
  | ResponseRead
  | ResponseDecode
  | DaemonRefused string
  | RequestFailed
  | NoPublicKeyReturned DID
  | PublicKeyParse DID did_err
  | EmptySignature

text \<open>A socket answers the bytes of a request, or cannot be dialled or written to.\<close>

type_synonym socket = "bytes \<Rightarrow> bytes option"

definition roundtrip :: "daemon_env \<Rightarrow> socket \<Rightarrow> DaemonRequest \<Rightarrow> client_err + DaemonResponse" where
  "roundtrip E sock req =
     (case sock (json_enc (request_json req) @ [line_feed]) of
        None \<Rightarrow> Inl DaemonUnreachable
      | Some answer \<Rightarrow>
          (case ReadBytes (take maxMessage answer) of (line, _, found) \<Rightarrow>
           if \<not> found \<and> line = [] then Inl ResponseRead
           else case de_response E line of
               None \<Rightarrow> Inl ResponseDecode
             | Some resp \<Rightarrow>
                 if \<not> dr_OK resp then
                   (if dr_Error resp \<noteq> [] then Inl (DaemonRefused (dr_Error resp)) else Inl RequestFailed)
                 else Inr resp))"

definition client_Sign :: "daemon_env \<Rightarrow> socket \<Rightarrow> DID \<Rightarrow> bytes \<Rightarrow> client_err + bytes" where
  "client_Sign E sock d data =
     (case roundtrip E sock \<lparr>dq_Op = OpSign, dq_DID = d, dq_Data = data\<rparr> of
        Inl e \<Rightarrow> Inl e
      | Inr resp \<Rightarrow> if dr_Sig resp = [] then Inl EmptySignature else Inr (dr_Sig resp))"

definition Dial :: "crypto \<Rightarrow> daemon_env \<Rightarrow> socket \<Rightarrow> DID \<Rightarrow> client_err + Signer" where
  "Dial C E sock d =
     (case roundtrip E sock \<lparr>dq_Op = OpPublic, dq_DID = d, dq_Data = []\<rparr> of
        Inl e \<Rightarrow> Inl e
      | Inr resp \<Rightarrow>
          (case dr_PubJWK resp of
             None \<Rightarrow> Inl (NoPublicKeyReturned d)
           | Some j \<Rightarrow>
               (case JWK_PublicKey C (Some j) of
                  Inl e \<Rightarrow> Inl (PublicKeyParse d e)
                | Inr pub \<Rightarrow>
                    Inr \<lparr>s_DID = d, s_Public = pub,
                         s_Sign = (\<lambda>data. case client_Sign E sock d data of Inl _ \<Rightarrow> None | Inr sig \<Rightarrow> Some sig)\<rparr>)))"

definition client_List :: "daemon_env \<Rightarrow> socket \<Rightarrow> client_err + DID list" where
  "client_List E sock =
     (case roundtrip E sock \<lparr>dq_Op = OpList, dq_DID = [], dq_Data = []\<rparr> of
        Inl e \<Rightarrow> Inl e
      | Inr resp \<Rightarrow> Inr (dr_DIDs resp))"

section \<open>Which key answers\<close>

abbreviation held_DID :: "held_signer \<Rightarrow> DID" where
  "held_DID s \<equiv> s_DID (hs_Signer s)"

interpretation keys: key_table "\<lambda>s. AList.update (held_DID s) s" map_of held_DID
  by unfold_locales (simp add: update_conv')

definition acceptable :: "HeldKey \<Rightarrow> bool" where
  "acceptable k \<longleftrightarrow>
     (case hk_Signer k of
        None \<Rightarrow> False
      | Some s \<Rightarrow> hk_Policy k \<in> {Routine, Approval, Attestation} \<and> (hk_Policy k = Approval \<longrightarrow> isHardwareBacked s))"

lemma keys_loop_ok:
  "keys_loop ks m = Inr m' \<longleftrightarrow>
     list_all acceptable ks \<and> m' = fold (\<lambda>s. AList.update (held_DID s) s) (map (\<lambda>k. the (hk_Signer k)) ks) m"
  by (induction ks arbitrary: m)
    (auto simp: acceptable_def known_def requiresHardware_def policy_defs split: option.splits)

lemma distinct_keys: "distinct (map fst m) \<Longrightarrow> distinct (map fst (fold (\<lambda>s. AList.update (held_DID s) s) ks m))"
  by (induction ks arbitrary: m) (simp_all add: distinct_update)

lemma NewKeys_exact:
  "NewKeys uid ks = Inr sv \<longleftrightarrow>
     list_all acceptable ks \<and>
     sv = \<lparr>sv_signers = fold (\<lambda>s. AList.update (held_DID s) s) (map (\<lambda>k. the (hk_Signer k)) ks) [], sv_ownerUID = uid\<rparr>"
  using keys_loop_ok [of ks "[]"] by (cases "keys_loop ks []") (auto simp: NewKeys_def)

text \<open>
  What the daemon brokers.  The listed identifiers are those of the keys, sorted and without
  repetition; for each the last key given under it answers; and if no two keys share an
  identifier, an approval key is hardware backed.
\<close>

theorem daemon_key_set:
  assumes "NewKeys uid ks = Inr sv"
  shows "sorted (Server_list sv) \<and> distinct (Server_list sv) \<and>
    set (Server_list sv) = (\<lambda>k. held_DID (the (hk_Signer k))) ` set ks \<and>
    (\<forall>d. Server_lookup sv d = find (\<lambda>s. held_DID s = d) (rev (map (\<lambda>k. the (hk_Signer k)) ks))) \<and>
    (\<forall>k \<in> set ks. hk_Policy k = Approval \<and> distinct (map (\<lambda>k. held_DID (the (hk_Signer k))) ks) \<longrightarrow>
       (\<exists>s. Server_lookup sv (held_DID (the (hk_Signer k))) = Some s \<and> isHardwareBacked s))"
proof -
  let ?ss = "map (\<lambda>k. the (hk_Signer k)) ks"
  from assms have sv: "sv_signers sv = fold (\<lambda>s. AList.update (held_DID s) s) ?ss []"
    and ok: "list_all acceptable ks" by (auto simp: NewKeys_exact)
  have d: "distinct (map fst (sv_signers sv))" by (simp add: sv distinct_keys)
  have look: "Server_lookup sv d = find (\<lambda>s. held_DID s = d) (rev ?ss)" for d
    unfolding Server_lookup_def sv keys.look_fold by (auto split: option.split)
  have "fst ` set (sv_signers sv) = {d. Server_lookup sv d \<noteq> None}"
    unfolding Server_lookup_def by (metis dom_def dom_map_of_conv_image_fst)
  also have "\<dots> = held_DID ` set ?ss" by (auto simp: look find_None_iff)
  finally have set: "fst ` set (sv_signers sv) = (\<lambda>k. held_DID (the (hk_Signer k))) ` set ks" by (simp add: image_image)
  have hw: "\<exists>s. Server_lookup sv (held_DID (the (hk_Signer k))) = Some s \<and> isHardwareBacked s"
    if k: "k \<in> set ks" "hk_Policy k = Approval" and dist: "distinct (map (\<lambda>k. held_DID (the (hk_Signer k))) ks)" for k
  proof -
    have "k' = k" if "k' \<in> set ks" "held_DID (the (hk_Signer k')) = held_DID (the (hk_Signer k))" for k'
      using dist k(1) that by (auto simp: distinct_map dest: inj_onD)
    moreover have "isHardwareBacked (the (hk_Signer k))"
      using ok k by (auto simp: list_all_iff acceptable_def split: option.splits)
    ultimately show ?thesis
      using keys.look_fold_member [of "the (hk_Signer k)" ?ss isHardwareBacked "[]"] k(1)
      by (auto simp: Server_lookup_def sv)
  qed
  from d set look hw show ?thesis by (simp add: Server_list_def distinct_map)
qed

section \<open>Lines\<close>

lemma newline_json_enc: "line_feed \<notin> set (json_enc v)"
  using printable_json_enc [of v] by (force simp: printable_def line_feed_def list_all_iff)

lemma ReadBytes_line: "line_feed \<notin> set a \<Longrightarrow> ReadBytes (a @ line_feed # b) = (a @ [line_feed], b, True)"
proof (induction a)
  case (Cons c a)
  then show ?case by (auto simp: ReadBytes_def split: list.splits)
qed (simp add: ReadBytes_def)

lemma ReadBytes_last: "line_feed \<notin> set a \<Longrightarrow> ReadBytes a = (a, [], False)"
proof -
  assume "line_feed \<notin> set a"
  then have "dropWhile (\<lambda>c. c \<noteq> line_feed) a = []" by auto
  then show ?thesis by (simp only: ReadBytes_def list.case)
qed

definition request_line :: "DaemonRequest \<Rightarrow> bytes" where
  "request_line r = json_enc (request_json r) @ [line_feed]"

definition response_line :: "DaemonResponse \<Rightarrow> bytes" where
  "response_line r = json_enc (response_json r) @ [line_feed]"

text \<open>
  What the decoders promise of one message: they read what the encoder wrote, with or
  without the line_feed, and refuse a truncated object.
\<close>

definition request_codec :: "daemon_env \<Rightarrow> DaemonRequest \<Rightarrow> bool" where
  "request_codec E r \<longleftrightarrow>
     de_request E (request_line r) = Some r \<and> de_request E (json_enc (request_json r)) = Some r \<and>
     (\<forall>n < length (json_enc (request_json r)). de_request E (take n (json_enc (request_json r))) = None)"

definition response_codec :: "daemon_env \<Rightarrow> DaemonResponse \<Rightarrow> bool" where
  "response_codec E r \<longleftrightarrow>
     de_response E (response_line r) = Some r \<and> de_response E (json_enc (response_json r)) = Some r \<and>
     (\<forall>n < length (json_enc (response_json r)). de_response E (take n (json_enc (response_json r))) = None)"

lemma serve_lines_Nil: "serve_lines E sv w i [] = []"
  by (subst serve_lines.simps) (simp add: ReadBytes_def)

lemma serve_lines_request:
  assumes "request_codec E r" and "w i = None"
  shows "serve_lines E sv w i (request_line r @ rest) =
    response_line (serve_request E (sv i) r) @ serve_lines E sv w (Suc i) rest"
  using assms
  by (subst serve_lines.simps)
    (simp add: request_line_def ReadBytes_line newline_json_enc writeResponse_def daemon_dispatch_def request_codec_def
      response_line_def Let_def)

lemma serve_lines_requests:
  assumes "\<forall>r \<in> set rs. request_codec E r"
  shows "serve_lines E sv (\<lambda>_. None) i (concat (map request_line rs)) =
    concat (map (\<lambda>j. response_line (serve_request E (sv (i + j)) (rs ! j))) [0..<length rs])"
  using assms
proof (induction rs arbitrary: i)
  case Nil
  then show ?case by (simp add: serve_lines_Nil)
next
  case (Cons r rs)
  have "[0..<length (r # rs)] = 0 # map Suc [0..<length rs]" by (simp only: upt_conv_Cons map_Suc_upt length_Cons zero_less_Suc)
  with Cons show ?case by (simp add: serve_lines_request comp_def)
qed


text \<open>The limit is one for the whole connection: what follows the first megabyte is not read.\<close>

lemma daemon_limit_per_connection:
  "maxMessage \<le> length input \<Longrightarrow> daemon_handle E sv w peer (input @ rest) = daemon_handle E sv w peer input"
  by (simp add: daemon_handle_def split: option.splits)

section \<open>The brokered signer\<close>

text \<open>The socket of a daemon with a fixed key set, for a client of the daemon's owner.\<close>

definition daemon_socket :: "daemon_env \<Rightarrow> Server \<Rightarrow> socket" where
  "daemon_socket E sv body = Some (daemon_handle E (\<lambda>_. sv) (\<lambda>_. None) (Some (sv_ownerUID sv)) body)"

lemma take_line:
  assumes "line_feed \<notin> set a"
  shows "ReadBytes (take n (a @ [line_feed])) =
    (if n < length a then (take n a, [], False) else if n = length a then (a, [], False) else (a @ [line_feed], [], True))"
proof -
  have "line_feed \<notin> set (take n a)" using assms by (meson in_set_takeD)
  with assms show ?thesis using ReadBytes_line [of a "[]"] by (auto simp: ReadBytes_last take_Cons')
qed

text \<open>One exchange: the daemon sees the request whole or truncated, and so the client the response.\<close>

definition exchange :: "daemon_env \<Rightarrow> Server \<Rightarrow> DaemonRequest \<Rightarrow> DaemonResponse" where
  "exchange E sv r =
     (if length (json_enc (request_json r)) \<le> maxMessage then serve_request E sv r else error_Response E MalformedRequest)"

lemma daemon_socket_exchange:
  assumes "request_codec E r"
  shows "daemon_socket E sv (request_line r) = Some (response_line (exchange E sv r))"
proof -
  let ?a = "json_enc (request_json r)"
  have a: "line_feed \<notin> set ?a" "?a \<noteq> []" "take maxMessage ?a \<noteq> []"
    using json_enc_head [of "request_json r"] by (simp_all add: newline_json_enc maxMessage_def)
  have "daemon_socket E sv (request_line r) = Some (serve_lines E (\<lambda>_. sv) (\<lambda>_. None) 0 (take maxMessage (?a @ [line_feed])))"
    by (simp add: daemon_socket_def daemon_handle_def request_line_def)
  also have "serve_lines E (\<lambda>_. sv) (\<lambda>_. None) 0 (take maxMessage (?a @ [line_feed])) = response_line (exchange E sv r)"
    using assms a
    by (subst serve_lines.simps)
      (simp add: take_line exchange_def writeResponse_def daemon_dispatch_def request_codec_def request_line_def
        response_line_def serve_lines_Nil Let_def del: take_append)
  finally show ?thesis .
qed

lemma roundtrip_exchange:
  assumes "request_codec E r" and "response_codec E (exchange E sv r)"
  shows "roundtrip E (daemon_socket E sv) r =
    (let resp = exchange E sv r in
     if maxMessage < length (json_enc (response_json resp)) then Inl ResponseDecode
     else if dr_OK resp then Inr resp
     else if dr_Error resp \<noteq> [] then Inl (DaemonRefused (dr_Error resp)) else Inl RequestFailed)"
proof -
  let ?b = "json_enc (response_json (exchange E sv r))"
  have b: "line_feed \<notin> set ?b" "?b \<noteq> []" "take maxMessage ?b \<noteq> []"
    using json_enc_head [of "response_json (exchange E sv r)"] by (simp_all add: newline_json_enc maxMessage_def)
  show ?thesis
    using assms(2) b daemon_socket_exchange [OF assms(1), of sv]
    by (simp add: roundtrip_def request_line_def [symmetric] response_line_def take_line response_codec_def Let_def
        del: take_append)
qed

lemma Dial_daemon:
  assumes "Dial C E (daemon_socket E sv) d = Inr s"
    and "Server_lookup sv d = Some h"
    and "request_codec E \<lparr>dq_Op = OpPublic, dq_DID = d, dq_Data = []\<rparr>"
    and "response_codec E (exchange E sv \<lparr>dq_Op = OpPublic, dq_DID = d, dq_Data = []\<rparr>)"
  shows "s_DID s = d \<and> s_Public s = s_Public (hs_Signer h) \<and>
    s_Sign s data = (case client_Sign E (daemon_socket E sv) d data of Inl _ \<Rightarrow> None | Inr sig \<Rightarrow> Some sig)"
proof -
  let ?r = "\<lparr>dq_Op = OpPublic, dq_DID = d, dq_Data = []\<rparr>"
  from assms(1) obtain resp j pub where r: "roundtrip E (daemon_socket E sv) ?r = Inr resp" "dr_PubJWK resp = Some j"
    "JWK_PublicKey C (Some j) = Inr pub"
    and s: "s = \<lparr>s_DID = d, s_Public = pub,
      s_Sign = (\<lambda>data. case client_Sign E (daemon_socket E sv) d data of Inl _ \<Rightarrow> None | Inr sig \<Rightarrow> Some sig)\<rparr>"
    by (auto simp: Dial_def split: sum.splits option.splits)
  from r(1) have "resp = exchange E sv ?r"
    by (auto simp: roundtrip_exchange [OF assms(3,4)] Let_def split: if_splits)
  with r(2) assms(2) have "PublicKeyToJWK (s_Public (hs_Signer h)) = Some j"
    by (auto simp: exchange_def serve_request_def publicJWK_def error_Response_def zero_Response_def OpList_def OpPublic_def
        split: if_splits option.splits)
  with JWK_determines_key [OF this this, of C] r(3) s show ?thesis by simp
qed

text \<open>
  C32. The client is the held key at a distance.  A signer dialled from a daemon that holds a key
  for the identifier has that identifier and that public key, and it signs a message with
  exactly the held key's signature, or fails: it fails when the held key does or gives an
  empty signature, and when the request or the response exceeds the message limit.
\<close>

theorem brokered_signer_exact:
  assumes "Dial C E (daemon_socket E sv) d = Inr s"
    and "Server_lookup sv d = Some h"
    and "req = \<lparr>dq_Op = OpSign, dq_DID = d, dq_Data = data\<rparr>"
    and "\<forall>r \<in> {\<lparr>dq_Op = OpPublic, dq_DID = d, dq_Data = []\<rparr>, req}. request_codec E r \<and> response_codec E (exchange E sv r)"
  shows "s_DID s = d \<and> s_Public s = s_Public (hs_Signer h) \<and>
    s_Sign s data =
      (if length (json_enc (request_json req)) \<le> maxMessage \<and>
          length (json_enc (response_json (serve_request E sv req))) \<le> maxMessage \<and>
          s_Sign (hs_Signer h) data \<noteq> Some []
       then s_Sign (hs_Signer h) data else None)"
proof -
  have "serve_request E sv req =
      (case s_Sign (hs_Signer h) data of None \<Rightarrow> error_Response E SignFailed
       | Some sig \<Rightarrow> zero_Response\<lparr>dr_OK := True, dr_Sig := sig\<rparr>)"
    using assms(2,3) by (simp add: serve_request_def OpList_def OpPublic_def OpSign_def)
  moreover have "s_DID s = d \<and> s_Public s = s_Public (hs_Signer h) \<and>
      s_Sign s data = (case client_Sign E (daemon_socket E sv) d data of Inl _ \<Rightarrow> None | Inr sig \<Rightarrow> Some sig)"
    using Dial_daemon [OF assms(1,2)] assms(4) by simp
  moreover have "roundtrip E (daemon_socket E sv) req =
    (let resp = exchange E sv req in
     if maxMessage < length (json_enc (response_json resp)) then Inl ResponseDecode
     else if dr_OK resp then Inr resp
     else if dr_Error resp \<noteq> [] then Inl (DaemonRefused (dr_Error resp)) else Inl RequestFailed)"
    using assms(4) by (intro roundtrip_exchange) auto
  ultimately show ?thesis
    using assms(3)
    by (auto simp: client_Sign_def exchange_def error_Response_def zero_Response_def Let_def split: option.splits)
qed

text \<open>
  The hardware rule is checked key by key, and the table keeps the last key of an
  identifier.  So an accepted key set can give an approval key in hardware and still broker
  a software key for that identifier, whose signatures the client then returns.
\<close>

theorem routine_key_replaces_approval:
  assumes "isHardwareBacked hw" and "held_DID sw = held_DID hw"
  shows "\<exists>sv. NewKeys uid [\<lparr>hk_Signer = Some hw, hk_Policy = Approval\<rparr>, \<lparr>hk_Signer = Some sw, hk_Policy = Routine\<rparr>] = Inr sv \<and>
    Server_lookup sv (held_DID hw) = Some sw"
  using assms by (simp add: NewKeys_exact acceptable_def policy_defs Server_lookup_def update_conv')

section \<open>A concrete daemon\<close>

text \<open>Decoders that know a list of messages.\<close>

definition known_requests :: "DaemonRequest list \<Rightarrow> bytes \<Rightarrow> DaemonRequest option" where
  "known_requests rs l = find (\<lambda>r. l = request_line r \<or> l = json_enc (request_json r)) rs"

definition known_responses :: "DaemonResponse list \<Rightarrow> bytes \<Rightarrow> DaemonResponse option" where
  "known_responses rs l = find (\<lambda>r. l = response_line r \<or> l = json_enc (response_json r)) rs"

lemma request_json_inject: "request_json r = request_json r' \<longleftrightarrow> r = r'"
  by (cases r; cases r') (auto simp: request_json_def omitempty_def split: if_splits)

definition json_member :: "json \<Rightarrow> string \<Rightarrow> json option" where
  "json_member v k = (case v of JObj ms \<Rightarrow> map_of ms k | _ \<Rightarrow> None)"

lemma response_members:
  "json_member (response_json r) ''ok'' = Some (JBool (dr_OK r))"
  "json_member (response_json r) ''error'' = (if dr_Error r = [] then None else Some (JStr (dr_Error r)))"
  "json_member (response_json r) ''sig'' = (if dr_Sig r = [] then None else Some (JBytes (dr_Sig r)))"
  "json_member (response_json r) ''pubJwk'' = map_option jwk_json (dr_PubJWK r)"
  "json_member (response_json r) ''dids'' = (if dr_DIDs r = [] then None else Some (JArr (map JStr (dr_DIDs r))))"
  by (auto simp: json_member_def response_json_def omitempty_def JList_def split: option.splits)

lemma response_json_inject:
  assumes "response_json r = response_json r'" shows "r = r'"
proof -
  have "dr_OK r = dr_OK r'" using arg_cong [OF assms, of "\<lambda>v. json_member v ''ok''"] by (simp add: response_members)
  moreover have "dr_Error r = dr_Error r'" using arg_cong [OF assms, of "\<lambda>v. json_member v ''error''"]
    by (simp add: response_members split: if_splits)
  moreover have "dr_Sig r = dr_Sig r'" using arg_cong [OF assms, of "\<lambda>v. json_member v ''sig''"]
    by (simp add: response_members split: if_splits)
  moreover have "dr_PubJWK r = dr_PubJWK r'" using arg_cong [OF assms, of "\<lambda>v. json_member v ''pubJwk''"]
    by (cases "dr_PubJWK r"; cases "dr_PubJWK r'") (auto simp: response_members dest: jwk_json_inject)
  moreover have "dr_DIDs r = dr_DIDs r'" using arg_cong [OF assms, of "\<lambda>v. json_member v ''dids''"]
    by (auto simp: response_members inj_on_def dest!: map_inj_on split: if_splits)
  ultimately show ?thesis by (cases r; cases r') simp
qed

text \<open>A table of valid messages is a decoder that keeps the promise for them.\<close>

lemma line_table:
  assumes "\<And>x. \<exists>ms. f x = JObj ms" and "\<And>x y. f x = f y \<Longrightarrow> x = y" and "x \<in> set xs" and "\<forall>y \<in> set xs. json_valid (f y)"
  shows "find (\<lambda>y. json_enc (f x) @ [line_feed] = json_enc (f y) @ [line_feed] \<or> json_enc (f x) @ [line_feed] = json_enc (f y)) xs = Some x"
    "find (\<lambda>y. json_enc (f x) = json_enc (f y) @ [line_feed] \<or> json_enc (f x) = json_enc (f y)) xs = Some x"
    "n < length (json_enc (f x)) \<Longrightarrow>
       find (\<lambda>y. take n (json_enc (f x)) = json_enc (f y) @ [line_feed] \<or> take n (json_enc (f x)) = json_enc (f y)) xs = None"
proof -
  have nl: "json_enc v \<noteq> json_enc w @ [line_feed]" for v w using newline_json_enc [of v] by auto
  have inj: "json_enc (f x) = json_enc (f y) \<longleftrightarrow> x = y" if "y \<in> set xs" for y
    using that assms json_enc_inject [of "f x" "f y"] by blast
  have "find (\<lambda>y. json_enc (f x) = json_enc (f y)) xs = Some x"
    using assms(3) inj by (induction xs) auto
  with nl [of "f _"] show "find (\<lambda>y. json_enc (f x) @ [line_feed] = json_enc (f y) @ [line_feed] \<or> json_enc (f x) @ [line_feed] = json_enc (f y)) xs = Some x"
    "find (\<lambda>y. json_enc (f x) = json_enc (f y) @ [line_feed] \<or> json_enc (f x) = json_enc (f y)) xs = Some x"
    by (simp_all add: nl nl [symmetric])
  assume n: "n < length (json_enc (f x))"
  have "take n (json_enc (f x)) \<noteq> json_enc (f y)" if "y \<in> set xs" for y
  proof
    assume t: "take n (json_enc (f x)) = json_enc (f y)"
    obtain ms ns where "f x = JObj ms" "f y = JObj ns" using assms(1) by metis
    with json_obj_prefix_free [of ns "drop n (json_enc (f x))" ms "[]"] t that assms(3,4) n show False
      by (metis append_Nil2 append_take_drop_id drop_eq_Nil leD)
  qed
  moreover have "take n (json_enc (f x)) \<noteq> json_enc (f y) @ [line_feed]" for y
    using newline_json_enc [of "f x"] by (metis in_set_conv_decomp in_set_takeD)
  ultimately show "find (\<lambda>y. take n (json_enc (f x)) = json_enc (f y) @ [line_feed] \<or> take n (json_enc (f x)) = json_enc (f y)) xs = None"
    by (simp add: find_None_iff)
qed

lemma known_codecs:
  "r \<in> set rs \<Longrightarrow> \<forall>r \<in> set rs. json_valid (request_json r) \<Longrightarrow> de_request E = known_requests rs \<Longrightarrow> request_codec E r"
  "a \<in> set as \<Longrightarrow> \<forall>a \<in> set as. json_valid (response_json a) \<Longrightarrow> de_response E = known_responses as \<Longrightarrow> response_codec E a"
  using line_table [of request_json r rs] line_table [of response_json a as] response_json_inject
  by (simp_all add: request_codec_def response_codec_def known_requests_def known_responses_def request_line_def response_line_def
      request_json_inject, simp_all add: request_json_def response_json_def)

definition sample_held :: "char \<Rightarrow> bool option \<Rightarrow> held_signer" where
  "sample_held c hw = \<lparr>hs_Signer = toy_signer ''did:x'' c, hs_Hardware = hw\<rparr>"

definition sample_server :: Server where
  "sample_server = \<lparr>sv_signers = [(''did:x'', sample_held CHR ''3'' None)], sv_ownerUID = 7\<rparr>"

definition sample_public :: DaemonRequest where
  "sample_public = \<lparr>dq_Op = OpPublic, dq_DID = ''did:x'', dq_Data = []\<rparr>"

definition sample_sign :: DaemonRequest where
  "sample_sign = \<lparr>dq_Op = OpSign, dq_DID = ''did:x'', dq_Data = ''m''\<rparr>"

definition sample_daemon :: daemon_env where
  "sample_daemon =
     \<lparr>de_request = known_requests [sample_public, sample_sign],
      de_response = known_responses
        [zero_Response\<lparr>dr_OK := True, dr_PubJWK := publicJWK (toy_signer ''did:x'' CHR ''3'')\<rparr>,
         zero_Response\<lparr>dr_OK := True, dr_Sig := toy_key CHR ''3'' @ ''m''\<rparr>],
      de_text = (\<lambda>_. ''error'')\<rparr>"

lemma sample_lengths:
  "length (json_enc (request_json sample_public)) \<le> maxMessage" "length (json_enc (request_json sample_sign)) \<le> maxMessage"
  "length (json_enc (response_json (serve_request sample_daemon sample_server sample_public))) \<le> maxMessage"
  "length (json_enc (response_json (serve_request sample_daemon sample_server sample_sign))) \<le> maxMessage"
  "length (concat (map request_line [sample_public, sample_sign])) \<le> maxMessage"
proof -
  have "length (json_enc (request_json sample_public)) < 200" "length (json_enc (request_json sample_sign)) < 200"
    "length (json_enc (response_json (serve_request sample_daemon sample_server sample_public))) < 200"
    "length (json_enc (response_json (serve_request sample_daemon sample_server sample_sign))) < 200"
    "length (concat (map request_line [sample_public, sample_sign])) < 200" by code_simp+
  then show "length (json_enc (request_json sample_public)) \<le> maxMessage" "length (json_enc (request_json sample_sign)) \<le> maxMessage"
    "length (json_enc (response_json (serve_request sample_daemon sample_server sample_public))) \<le> maxMessage"
    "length (json_enc (response_json (serve_request sample_daemon sample_server sample_sign))) \<le> maxMessage"
    "length (concat (map request_line [sample_public, sample_sign])) \<le> maxMessage"
    by (simp_all add: maxMessage_def)
qed

lemma sample_exchanges:
  "exchange sample_daemon sample_server sample_public =
     zero_Response\<lparr>dr_OK := True, dr_PubJWK := publicJWK (toy_signer ''did:x'' CHR ''3'')\<rparr>"
  "exchange sample_daemon sample_server sample_sign = zero_Response\<lparr>dr_OK := True, dr_Sig := toy_key CHR ''3'' @ ''m''\<rparr>"
  using sample_lengths
  by (simp_all add: exchange_def sample_public_def sample_sign_def serve_request_def OpList_def OpPublic_def OpSign_def
      Server_lookup_def sample_server_def sample_held_def publicJWK_def toy_signer_def PublicKeyToJWK_def)

lemma sample_codecs_daemon:
  "request_codec sample_daemon sample_public" "request_codec sample_daemon sample_sign"
  "response_codec sample_daemon (exchange sample_daemon sample_server sample_public)"
  "response_codec sample_daemon (exchange sample_daemon sample_server sample_sign)"
proof -
  let ?as = "[zero_Response\<lparr>dr_OK := True, dr_PubJWK := publicJWK (toy_signer ''did:x'' CHR ''3'')\<rparr>,
     zero_Response\<lparr>dr_OK := True, dr_Sig := toy_key CHR ''3'' @ ''m''\<rparr>]"
  have v: "\<forall>r \<in> set [sample_public, sample_sign]. json_valid (request_json r)" "\<forall>a \<in> set ?as. json_valid (response_json a)"
    by code_simp+
  have "request_codec sample_daemon r" if "r \<in> set [sample_public, sample_sign]" for r
    using known_codecs(1) [OF that v(1)] by (simp add: sample_daemon_def)
  then show "request_codec sample_daemon sample_public" "request_codec sample_daemon sample_sign" by simp_all
  have "response_codec sample_daemon a" if "a \<in> set ?as" for a
    using known_codecs(2) [OF that v(2)] by (simp add: sample_daemon_def)
  then show "response_codec sample_daemon (exchange sample_daemon sample_server sample_public)"
    "response_codec sample_daemon (exchange sample_daemon sample_server sample_sign)"
    unfolding sample_exchanges by simp_all
qed

theorem daemon_key_set_witness:
  "\<exists>sv. NewKeys 7 [\<lparr>hk_Signer = Some (sample_held CHR ''3'' (Some True)), hk_Policy = Approval\<rparr>] = Inr sv \<and>
     (\<exists>s. Server_lookup sv ''did:x'' = Some s \<and> isHardwareBacked s)"
proof -
  let ?ks = "[\<lparr>hk_Signer = Some (sample_held CHR ''3'' (Some True)), hk_Policy = Approval\<rparr>]"
  obtain sv where sv: "NewKeys 7 ?ks = Inr sv"
    by (simp add: NewKeys_exact acceptable_def policy_defs sample_held_def isHardwareBacked_def)
  have "held_DID (sample_held CHR ''3'' (Some True)) = ''did:x''" by (simp add: sample_held_def toy_signer_def)
  moreover have "\<exists>s. Server_lookup sv (held_DID (sample_held CHR ''3'' (Some True))) = Some s \<and> isHardwareBacked s"
    using daemon_key_set [OF sv] by (simp add: sample_held_def isHardwareBacked_def)
  ultimately show ?thesis using sv by auto
qed


theorem brokered_signer_exact_witness:
  "\<exists>s. Dial toy_crypto sample_daemon (daemon_socket sample_daemon sample_server) ''did:x'' = Inr s \<and>
     s_Sign s ''m'' = Some (toy_key CHR ''3'' @ ''m'')"
proof -
  have "is_ok (JWK_PublicKey toy_crypto (publicJWK (toy_signer ''did:x'' CHR ''3'')))" by code_simp
  moreover have "publicJWK (toy_signer ''did:x'' CHR ''3'') \<noteq> None" by code_simp
  moreover have l: "length (json_enc (response_json (exchange sample_daemon sample_server sample_public))) \<le> maxMessage"
    using sample_lengths(1,3) by (simp add: exchange_def)
  moreover have "roundtrip sample_daemon (daemon_socket sample_daemon sample_server) sample_public =
      Inr (zero_Response\<lparr>dr_OK := True, dr_PubJWK := publicJWK (toy_signer ''did:x'' CHR ''3'')\<rparr>)"
    using roundtrip_exchange [OF sample_codecs_daemon(1,3)] l by (simp add: sample_exchanges Let_def)
  ultimately have "is_ok (Dial toy_crypto sample_daemon (daemon_socket sample_daemon sample_server) ''did:x'')"
    by (auto simp: Dial_def sample_public_def)
  then obtain s where s: "Dial toy_crypto sample_daemon (daemon_socket sample_daemon sample_server) ''did:x'' = Inr s" by blast
  have h: "Server_lookup sample_server ''did:x'' = Some (sample_held CHR ''3'' None)"
    by (simp add: Server_lookup_def sample_server_def)
  from brokered_signer_exact [OF s h sample_sign_def] sample_codecs_daemon sample_lengths(2,4) s show ?thesis
    by (simp add: sample_public_def sample_held_def toy_signer_def)
qed

theorem routine_key_replaces_approval_witness:
  "\<exists>sv. NewKeys 7 [\<lparr>hk_Signer = Some (sample_held CHR ''3'' (Some True)), hk_Policy = Approval\<rparr>,
       \<lparr>hk_Signer = Some (sample_held CHR ''4'' None), hk_Policy = Routine\<rparr>] = Inr sv \<and>
     Server_lookup sv ''did:x'' = Some (sample_held CHR ''4'' None)"
  using routine_key_replaces_approval [of "sample_held CHR ''3'' (Some True)" "sample_held CHR ''4'' None" 7]
  by (simp add: sample_held_def toy_signer_def isHardwareBacked_def)

end
