(* ===== verification/Strict_Config.thy ===== *)
theory Strict_Config
  imports Go_JSON
begin

text \<open>
  \<^verbatim>\<open>internal/config\<close>: strict decoding of configuration files and the flags a schema displaces.
  A Go type is what \<^verbatim>\<open>reflect\<close> shows of it; a document is its JSON value.  The lemmas show that
  the key check and the decoder together accept exactly the documents in which every key is
  literally the name of a field and occurs once, so that what is decoded is what is written.
\<close>

section \<open>Types as reflection shows them\<close>

text \<open>
  \<open>GCustom\<close> is a type with its own \<^verbatim>\<open>UnmarshalJSON\<close>, in this repository \<^verbatim>\<open>json.RawMessage\<close>.  A field has
  its name, its \<^verbatim>\<open>json\<close> and \<^verbatim>\<open>flag\<close> tags, whether it is exported and embedded, and its type.
\<close>

datatype gotype = GBasic | GIface | GCustom | GPtr gotype | GSlice gotype | GMap gotype | GStruct "gofield list"
  and gofield = GField string string string bool bool gotype

definition implementsUnmarshaler :: "gotype \<Rightarrow> bool" where
  "implementsUnmarshaler t = (case t of GCustom \<Rightarrow> True | GPtr GCustom \<Rightarrow> True | _ \<Rightarrow> False)"

fun structTarget :: "gotype \<Rightarrow> gofield list option" where
  "structTarget (GPtr t) = (if implementsUnmarshaler (GPtr t) then None else structTarget t)"
| "structTarget (GStruct fs) = Some fs"
| "structTarget _ = None"

fun elemType :: "gotype \<Rightarrow> gotype option" where
  "elemType (GPtr t) = elemType t"
| "elemType (GSlice t) = Some t"
| "elemType _ = None"

fun is_struct :: "gotype \<Rightarrow> bool" where
  "is_struct (GPtr t) = is_struct t"
| "is_struct (GStruct _) = True"
| "is_struct _ = False"

definition cut_comma :: "string \<Rightarrow> string" where
  "cut_comma tag = takeWhile (\<lambda>c. c \<noteq> CHR '','') tag"

text \<open>The keys a struct is matched by with the fields' types, embedded structs flattened.\<close>

primrec collectJSONFields :: "gotype \<Rightarrow> (string \<times> gotype) list" and collect_field :: "gofield \<Rightarrow> (string \<times> gotype) list" where
  "collectJSONFields GBasic = []"
| "collectJSONFields GIface = []"
| "collectJSONFields GCustom = []"
| "collectJSONFields (GPtr t) = collectJSONFields t"
| "collectJSONFields (GSlice t) = []"
| "collectJSONFields (GMap t) = []"
| "collectJSONFields (GStruct fs) = concat (map collect_field fs)"
| "collect_field (GField name tag flag exported anonymous t) =
     (if \<not> exported \<and> \<not> anonymous then []
      else let n = cut_comma tag in
        if n = ''-'' \<and> \<not> HasPrefix tag ''-,'' then []
        else if n = [] \<and> anonymous \<and> is_struct t then collectJSONFields t
        else [(if n = [] then name else n, t)])"

definition jsonFields :: "gofield list \<Rightarrow> (string \<times> gotype) list" where
  "jsonFields fs = collectJSONFields (GStruct fs)"

text \<open>
  \<^verbatim>\<open>strings.EqualFold\<close> on field names, which are ASCII: apart from the letters themselves only
  the Kelvin sign and the long s fold to ASCII.
\<close>

fun fold_key :: "string \<Rightarrow> string" where
  "fold_key [] = []"
| "fold_key (a # b # c # s) =
     (if ord a = 0xE2 \<and> ord b = 0x84 \<and> ord c = 0xAA then CHR ''k'' # fold_key s
      else if ord a = 0xC5 \<and> ord b = 0xBF then CHR ''s'' # fold_key (c # s)
      else lower a # fold_key (b # c # s))"
| "fold_key [a, b] = (if ord a = 0xC5 \<and> ord b = 0xBF then ''s'' else [lower a, lower b])"
| "fold_key [a] = [lower a]"

definition EqualFold :: "string \<Rightarrow> string \<Rightarrow> bool" where
  "EqualFold s t = (fold_key s = fold_key t)"

definition caseVariantOf :: "(string \<times> gotype) list \<Rightarrow> string \<Rightarrow> string option" where
  "caseVariantOf fields key = map_option fst (find (\<lambda>(n, _). EqualFold n key) fields)"

section \<open>The key check\<close>

datatype config_err =
    DuplicateKey string
  | CaseVariant string string
  | MalformedDocument
  | DecodeError
  | TrailingContent
  | ConfigRead string
  | ConfigParse string config_err

text \<open>Later fields of the same key replace earlier ones, as in the map the code builds.\<close>

definition field_type :: "gofield list \<Rightarrow> string \<Rightarrow> gotype option" where
  "field_type fs key = map_of (rev (jsonFields fs)) key"

definition key_path :: "string \<Rightarrow> string \<Rightarrow> string" where
  "key_path path key = (if path \<noteq> [] then path @ ''.'' @ key else key)"

fun walkValue :: "gotype option \<Rightarrow> string \<Rightarrow> json \<Rightarrow> config_err + unit"
  and walkObject :: "gofield list option \<Rightarrow> string \<Rightarrow> string list \<Rightarrow> (string \<times> json) list \<Rightarrow> config_err + unit"
  and walkArray :: "gotype option \<Rightarrow> string \<Rightarrow> json list \<Rightarrow> config_err + unit" where
  "walkValue t path (JObj ms) = walkObject (Option.bind t structTarget) path [] ms"
| "walkValue t path (JArr vs) = walkArray (Option.bind t elemType) (path @ ''[]'') vs"
| "walkValue t path _ = Inr ()"
| "walkObject fields path seen [] = Inr ()"
| "walkObject fields path seen ((key, v) # ms) =
     (if key \<in> set seen then Inl (DuplicateKey (key_path path key))
      else case (case fields of
            None \<Rightarrow> Inr None
          | Some fs \<Rightarrow>
              (case field_type fs key of
                 Some t \<Rightarrow> Inr (Some t)
               | None \<Rightarrow>
                   (case caseVariantOf (jsonFields fs) key of
                      Some want \<Rightarrow> Inl (CaseVariant (key_path path key) want)
                    | None \<Rightarrow> Inr None))) of
          Inl e \<Rightarrow> Inl e
        | Inr child \<Rightarrow>
            (case walkValue child (key_path path key) v of
               Inl e \<Rightarrow> Inl e
             | Inr _ \<Rightarrow> walkObject fields path (key # seen) ms))"
| "walkArray elem path [] = Inr ()"
| "walkArray elem path (v # vs) =
     (case walkValue elem path v of Inl e \<Rightarrow> Inl e | Inr _ \<Rightarrow> walkArray elem path vs)"

definition checkKeys :: "gotype \<Rightarrow> json \<Rightarrow> config_err + unit" where
  "checkKeys t j = walkValue (Some t) [] j"

text \<open>
  A file is malformed, or holds a first value and possibly more.  \<open>decode\<close> is the decoder with
  unknown fields disallowed.
\<close>

datatype document = NotJSON | Document json bool

definition DecodeStrict :: "gotype \<Rightarrow> (json \<Rightarrow> 'v option) \<Rightarrow> document \<Rightarrow> config_err + 'v" where
  "DecodeStrict t decode d =
     (case d of
        NotJSON \<Rightarrow> Inl MalformedDocument
      | Document j trailing \<Rightarrow>
          (case checkKeys t j of
             Inl e \<Rightarrow> Inl e
           | Inr _ \<Rightarrow>
               (case decode j of
                  None \<Rightarrow> Inl DecodeError
                | Some v \<Rightarrow> if trailing then Inl TrailingContent else Inr v)))"

definition config_Load ::
  "gotype \<Rightarrow> (json \<Rightarrow> 'v option) \<Rightarrow> (bytes \<Rightarrow> document) \<Rightarrow> (string \<rightharpoonup> bytes) \<Rightarrow> string \<Rightarrow> config_err + 'v" where
  "config_Load t decode parse files path =
     (case files path of
        None \<Rightarrow> Inl (ConfigRead path)
      | Some data \<Rightarrow> map_err (ConfigParse path) (DecodeStrict t decode (parse data)))"

section \<open>Flags a schema displaces\<close>

primrec collectFrom :: "gotype \<Rightarrow> string list" and collect :: "gofield \<Rightarrow> string list" where
  "collectFrom GBasic = []"
| "collectFrom GIface = []"
| "collectFrom GCustom = []"
| "collectFrom (GPtr t) = collectFrom t"
| "collectFrom (GSlice t) = collectFrom t"
| "collectFrom (GMap t) = collectFrom t"
| "collectFrom (GStruct fs) = concat (map collect fs)"
| "collect (GField name tag flag exported anonymous t) = (if flag \<noteq> [] then [flag] else []) @ collectFrom t"

fun FlagNames :: "gotype \<Rightarrow> string set" where
  "FlagNames (GPtr t) = FlagNames t"
| "FlagNames (GStruct fs) = set (collectFrom (GStruct fs))"
| "FlagNames _ = {}"

definition Conflicting :: "string list \<Rightarrow> string set \<Rightarrow> string list" where
  "Conflicting given covered = sort (filter (\<lambda>f. f \<in> covered) given)"

section \<open>What the decoder accepts\<close>

text \<open>
  \<^verbatim>\<open>encoding/json\<close> stores a member in the field of exactly that name, otherwise in one whose name
  folds to the same text.  With unknown fields disallowed every member of an object that
  decodes into a struct needs such a field.
\<close>

definition decoder_field :: "gofield list \<Rightarrow> string \<Rightarrow> (string \<times> gotype) option" where
  "decoder_field fs key =
     (case field_type fs key of Some t \<Rightarrow> Some (key, t) | None \<Rightarrow> find (\<lambda>(n, _). EqualFold n key) (jsonFields fs))"

fun mapElem :: "gotype \<Rightarrow> gotype option" where
  "mapElem (GPtr t) = mapElem t"
| "mapElem (GMap t) = Some t"
| "mapElem _ = None"

fun decoder_names :: "gotype option \<Rightarrow> json \<Rightarrow> bool"
  and decoder_members :: "gofield list option \<Rightarrow> gotype option \<Rightarrow> (string \<times> json) list \<Rightarrow> bool"
  and decoder_elems :: "gotype option \<Rightarrow> json list \<Rightarrow> bool" where
  "decoder_names t (JObj ms) = decoder_members (Option.bind t structTarget) (Option.bind t mapElem) ms"
| "decoder_names t (JArr vs) = decoder_elems (Option.bind t elemType) vs"
| "decoder_names t _ = True"
| "decoder_members fields el [] = True"
| "decoder_members fields el ((k, v) # ms) =
     ((case fields of
         None \<Rightarrow> decoder_names el v
       | Some fs \<Rightarrow> (case decoder_field fs k of None \<Rightarrow> False | Some (_, t) \<Rightarrow> decoder_names (Some t) v)) \<and>
      decoder_members fields el ms)"
| "decoder_elems el [] = True"
| "decoder_elems el (v # vs) = (decoder_names el v \<and> decoder_elems el vs)"

text \<open>The value a struct's field is left with: that of the last member stored in it.\<close>

definition decoder_stores :: "gofield list \<Rightarrow> (string \<times> json) list \<Rightarrow> string \<Rightarrow> json option" where
  "decoder_stores fs ms n = map_option snd (find (\<lambda>(k, _). map_option fst (decoder_field fs k) = Some n) (rev ms))"

text \<open>The literal reading: keys are field names, and no object repeats a key.\<close>

fun literal :: "gotype option \<Rightarrow> json \<Rightarrow> bool"
  and literal_members :: "gofield list option \<Rightarrow> (string \<times> json) list \<Rightarrow> bool"
  and literal_elems :: "gotype option \<Rightarrow> json list \<Rightarrow> bool" where
  "literal t (JObj ms) = (distinct (map fst ms) \<and> literal_members (Option.bind t structTarget) ms)"
| "literal t (JArr vs) = literal_elems (Option.bind t elemType) vs"
| "literal t _ = True"
| "literal_members fields [] = True"
| "literal_members fields ((k, v) # ms) =
     ((case fields of
         None \<Rightarrow> literal None v
       | Some fs \<Rightarrow> (case field_type fs k of None \<Rightarrow> False | Some t \<Rightarrow> literal (Some t) v)) \<and>
      literal_members fields ms)"
| "literal_elems el [] = True"
| "literal_elems el (v # vs) = (literal el v \<and> literal_elems el vs)"

text \<open>
  Inside the values of a map the check has no type to compare names with, so the
  correspondence is for schemas that have no structs there.
\<close>

primrec has_struct :: "gotype \<Rightarrow> bool" and has_struct_field :: "gofield \<Rightarrow> bool" where
  "has_struct GBasic = False"
| "has_struct GIface = False"
| "has_struct GCustom = False"
| "has_struct (GPtr t) = has_struct t"
| "has_struct (GSlice t) = has_struct t"
| "has_struct (GMap t) = has_struct t"
| "has_struct (GStruct fs) = True"
| "has_struct_field (GField _ _ _ _ _ t) = has_struct t"

primrec names_checked :: "gotype \<Rightarrow> bool" and names_checked_field :: "gofield \<Rightarrow> bool" where
  "names_checked GBasic = True"
| "names_checked GIface = True"
| "names_checked GCustom = True"
| "names_checked (GPtr t) = names_checked t"
| "names_checked (GSlice t) = names_checked t"
| "names_checked (GMap t) = (\<not> has_struct t)"
| "names_checked (GStruct fs) = list_all id (map names_checked_field fs)"
| "names_checked_field (GField _ _ _ _ _ t) = names_checked t"

lemma collect_checked:
  "names_checked t \<Longrightarrow> (k, u) \<in> set (collectJSONFields t) \<Longrightarrow> names_checked u"
  "names_checked_field f \<Longrightarrow> (k, u) \<in> set (collect_field f) \<Longrightarrow> names_checked u"
  by (induction t and f) (auto simp: list_all_iff Let_def split: if_splits)

lemma field_type_checked: "names_checked (GStruct fs) \<Longrightarrow> field_type fs k = Some u \<Longrightarrow> names_checked u"
  by (auto simp: field_type_def jsonFields_def dest!: map_of_SomeD intro: collect_checked(1) [of "GStruct fs" k])

lemma target_checked:
  "names_checked t \<Longrightarrow> structTarget t = Some fs \<Longrightarrow> names_checked (GStruct fs)"
  by (induction t rule: structTarget.induct) (auto split: if_splits)

lemma elem_checked: "names_checked t \<Longrightarrow> elemType t = Some u \<Longrightarrow> names_checked u"
  by (induction t rule: elemType.induct) auto

lemma map_checked: "names_checked t \<Longrightarrow> mapElem t = Some u \<Longrightarrow> \<not> has_struct u"
  by (induction t rule: mapElem.induct) auto

lemma no_struct_target: "\<not> has_struct t \<Longrightarrow> structTarget t = None"
  by (induction t rule: structTarget.induct) auto

lemma no_struct_elem: "\<not> has_struct t \<Longrightarrow> elemType t = Some u \<Longrightarrow> \<not> has_struct u"
  by (induction t rule: elemType.induct) auto

lemma no_struct_map: "\<not> has_struct t \<Longrightarrow> mapElem t = Some u \<Longrightarrow> \<not> has_struct u"
  by (induction t rule: mapElem.induct) auto

definition structless :: "gotype option \<Rightarrow> bool" where
  "structless t \<longleftrightarrow> (\<forall>u. t = Some u \<longrightarrow> \<not> has_struct u)"

lemma structless_bind:
  "structless t \<Longrightarrow> Option.bind t structTarget = None"
  "structless t \<Longrightarrow> structless (Option.bind t elemType)"
  "structless t \<Longrightarrow> structless (Option.bind t mapElem)"
  by (cases t; auto simp: structless_def dest: no_struct_target no_struct_elem no_struct_map)+

lemma decoder_names_trivial:
  "structless to \<Longrightarrow> decoder_names to j"
  "structless el \<Longrightarrow> fields = None \<Longrightarrow> decoder_members fields el ms"
  "structless el \<Longrightarrow> decoder_elems el vs"
  by (induction to j and fields el ms and el vs rule: decoder_names_decoder_members_decoder_elems.induct)
    (simp_all add: structless_bind)

section \<open>The check and the decoder together\<close>

definition checked :: "gotype option \<Rightarrow> bool" where
  "checked t \<longleftrightarrow> (\<forall>u. t = Some u \<longrightarrow> names_checked u)"

lemma checked_bind:
  "checked t \<Longrightarrow> Option.bind t structTarget = Some fs \<Longrightarrow> names_checked (GStruct fs)"
  "checked t \<Longrightarrow> checked (Option.bind t elemType)"
  "checked t \<Longrightarrow> structless (Option.bind t mapElem)"
  by (cases t; auto simp: checked_def structless_def dest: target_checked elem_checked map_checked)+

lemma caseVariantOf_find: "caseVariantOf (jsonFields fs) k = None \<Longrightarrow> field_type fs k = None \<Longrightarrow> decoder_field fs k = None"
  by (simp add: caseVariantOf_def decoder_field_def)

lemma walk_literal:
  "checked t \<Longrightarrow> (is_ok (walkValue t path j) \<and> decoder_names t j) = literal t j"
  "(\<And>fs. fields = Some fs \<Longrightarrow> names_checked (GStruct fs)) \<Longrightarrow> structless el \<Longrightarrow>
    (is_ok (walkObject fields path seen ms) \<and> decoder_members fields el ms) =
    (distinct (map fst ms) \<and> set (map fst ms) \<inter> set seen = {} \<and> literal_members fields ms)"
  "checked t \<Longrightarrow> (is_ok (walkArray t path vs) \<and> decoder_elems t vs) = literal_elems t vs"
proof (induction t path j and fields path seen ms and t path vs arbitrary: and el and rule: walkValue_walkObject_walkArray.induct)
  case (1 t path ms)
  then show ?case using checked_bind [OF 1(2)] by simp
next
  case (2 t path vs)
  then show ?case by (simp add: checked_bind)
next
  case (5 fields path seen key v ms)
  have none: "decoder_names None v" "decoder_names el v" "checked None"
    using decoder_names_trivial(1) "5.prems"(2) by (auto simp: structless_def checked_def)
  show ?case
  proof (cases fields)
    case None
    have v: "is_ok (walkValue None (key_path path key) v) = literal None v" if "key \<notin> set seen"
      using "5.IH"(1) [OF that] None none by simp
    have ms: "decoder_members None el ms" using decoder_names_trivial(2) "5.prems"(2) by blast
    have "is_ok (walkObject None path (key # seen) ms) =
        (distinct (map fst ms) \<and> set (map fst ms) \<inter> set (key # seen) = {} \<and> literal_members None ms)"
      if "key \<notin> set seen" "walkValue None (key_path path key) v = Inr ()"
      using "5.IH"(2) [OF that(1) _ that(2), of el] None "5.prems"(2) ms by simp
    with v ms None none show ?thesis
      by (cases "walkValue None (key_path path key) v") auto
  next
    case (Some fs)
    show ?thesis
    proof (cases "field_type fs key")
      case None
      with Some show ?thesis
        by (cases "caseVariantOf (jsonFields fs) key") (simp_all add: caseVariantOf_find)
    next
      case (Some t)
      have "checked (Some t)" using "5.prems"(1) \<open>fields = Some fs\<close> Some by (auto simp: checked_def intro: field_type_checked)
      with "5.IH"(1) [of "Some t"] Some \<open>fields = Some fs\<close> have
        v: "(is_ok (walkValue (Some t) (key_path path key) v) \<and> decoder_names (Some t) v) = literal (Some t) v"
        if "key \<notin> set seen" using that by simp
      have "(is_ok (walkObject (Some fs) path (key # seen) ms) \<and> decoder_members (Some fs) el ms) =
          (distinct (map fst ms) \<and> set (map fst ms) \<inter> set (key # seen) = {} \<and> literal_members (Some fs) ms)"
        if "key \<notin> set seen" "walkValue (Some t) (key_path path key) v = Inr ()"
        using "5.IH"(2) [OF that(1) _ that(2), of el] Some \<open>fields = Some fs\<close> "5.prems" by simp
      with v Some \<open>fields = Some fs\<close> show ?thesis
        by (cases "walkValue (Some t) (key_path path key) v") (auto simp: decoder_field_def)
    qed
  qed
qed auto

lemma literal_keys: "literal_members (Some fs) ms \<Longrightarrow> (k, v) \<in> set ms \<Longrightarrow> field_type fs k \<noteq> None"
  by (induction ms) (auto split: option.splits)

lemma literal_stores:
  assumes "distinct (map fst ms)" and "literal_members (Some fs) ms"
  shows "decoder_stores fs ms n = map_of ms n"
proof -
  have "map_option fst (decoder_field fs k) = Some n \<longleftrightarrow> k = n" if "(k, v) \<in> set ms" for k v
    using literal_keys [OF assms(2) that] by (auto simp: decoder_field_def)
  then have "find (\<lambda>(k, _). map_option fst (decoder_field fs k) = Some n) (rev ms) = find (\<lambda>(k, _). k = n) (rev ms)"
    by (intro find_cong) auto
  moreover have "map_option snd (find (\<lambda>(k, _). k = n) xs) = map_of xs n" for xs :: "(string \<times> json) list"
    by (induction xs) auto
  moreover have "map_of (rev ms) = map_of ms" using assms(1) by (subst map_of_inject_set) (simp_all add: rev_map [symmetric])
  ultimately show ?thesis by (simp add: decoder_stores_def)
qed

text \<open>
  C37. A configuration that loads is the one that was written.  For a schema without structs
  inside maps, the key check and the decoder together accept a document exactly when every
  object that fills a struct names its fields literally and no object repeats a key; then
  each field of the schema holds the value written under its name.
\<close>

theorem strict_config_literal:
  assumes "names_checked (GPtr (GStruct fs))"
  shows "(is_ok (checkKeys (GPtr (GStruct fs)) j) \<and> decoder_names (Some (GPtr (GStruct fs))) j \<longleftrightarrow>
      literal (Some (GPtr (GStruct fs))) j) \<and>
    (\<forall>decode d v. (\<forall>x y. decode x = Some y \<longrightarrow> decoder_names (Some (GPtr (GStruct fs))) x) \<and>
       DecodeStrict (GPtr (GStruct fs)) decode d = Inr v \<longrightarrow>
       (\<exists>x. d = Document x False \<and> decode x = Some v \<and>
          (\<forall>ms. x = JObj ms \<longrightarrow> (\<forall>n. decoder_stores fs ms n = map_of ms n))))"
proof -
  let ?t = "GPtr (GStruct fs)"
  have ck: "checked (Some ?t)" using assms by (simp add: checked_def)
  have iff: "is_ok (checkKeys ?t x) \<and> decoder_names (Some ?t) x \<longleftrightarrow> literal (Some ?t) x" for x
    using walk_literal(1) [OF ck] by (simp add: checkKeys_def)
  have "\<exists>x. d = Document x False \<and> decode x = Some v \<and> (\<forall>ms. x = JObj ms \<longrightarrow> (\<forall>n. decoder_stores fs ms n = map_of ms n))"
    if names: "\<forall>x y. decode x = Some y \<longrightarrow> decoder_names (Some ?t) x" and d: "DecodeStrict ?t decode d = Inr v"
    for decode d and v :: 'a
  proof -
    from d obtain x where x: "d = Document x False" "decode x = Some v" "is_ok (checkKeys ?t x)"
      by (auto simp: DecodeStrict_def split: document.splits sum.splits option.splits if_splits)
    with names iff [of x] have "literal (Some ?t) x" by auto
    then have "decoder_stores fs ms n = map_of ms n" if "x = JObj ms" for ms n
      using that literal_stores by (auto simp: implementsUnmarshaler_def)
    with x show ?thesis by auto
  qed
  with iff show ?thesis by blast
qed

text \<open>The restriction is needed: inside a map's values a variant of a field's name passes.\<close>

lemma variant_in_map_value:
  fixes t defines "t \<equiv> GMap (GStruct [GField ''Policy'' ''policy'' [] True False GBasic])"
  shows "checkKeys t (JObj [(''a'', JObj [(''POLICY'', JStr [])])]) = Inr ()"
    and "decoder_names (Some t) (JObj [(''a'', JObj [(''POLICY'', JStr [])])])"
    and "\<not> names_checked t"
  unfolding t_def by code_simp+

end
