(* ===== verification/Serve_Config.thy ===== *)
theory Serve_Config
  imports Strict_Config Web_Host
begin

text \<open>
  The configuration of \<^verbatim>\<open>kessa-proxy serve\<close> (\<^verbatim>\<open>cmd/proxy/config.go\<close>) and the decisions of
  \<^verbatim>\<open>cmd/proxy/main.go\<close> that need only the settings: which flags a file displaces, which addresses
  may be bound, and how status lists are named.  \<^verbatim>\<open>net.SplitHostPort\<close> and \<^verbatim>\<open>net.ParseIP\<close> are written
  out.  The lemmas show what an accepted configuration states and which addresses pass.
\<close>

section \<open>The schema\<close>

definition keySourceConfig_type :: gotype where
  "keySourceConfig_type = GStruct
     [GField ''BrokerSocket'' ''broker_socket,omitempty'' ''signer-sock'' True False GBasic,
      GField ''MockKeystore'' ''mock_keystore,omitempty'' ''keystore'' True False GBasic]"

definition enforcementPointConfig_type :: gotype where
  "enforcementPointConfig_type = GStruct
     [GField ''DID'' ''did'' ''enforcement-point'' True False GBasic,
      GField ''Key'' ''key'' [] True False keySourceConfig_type]"

definition serve_schema :: "gofield list" where
  "serve_schema =
     [GField ''Comment'' ''comment,omitempty'' [] True False GBasic,
      GField ''Policy'' ''policy'' ''policy'' True False GBasic,
      GField ''DIDs'' ''dids'' ''dids'' True False GBasic,
      GField ''EnforcementPoint'' ''enforcement_point'' [] True False enforcementPointConfig_type,
      GField ''HTTPAddr'' ''http_addr,omitempty'' ''http-addr'' True False GBasic,
      GField ''MCPAddr'' ''mcp_addr,omitempty'' ''mcp-addr'' True False GBasic,
      GField ''AllowUnauthenticatedRemote'' ''allow_unauthenticated_remote,omitempty'' ''allow-unauthenticated-remote'' True False GBasic,
      GField ''Export'' ''export,omitempty'' ''export'' True False GBasic,
      GField ''AuditLog'' ''audit_log,omitempty'' ''audit-log'' True False GBasic,
      GField ''AuditWAL'' ''audit_wal'' ''audit-wal'' True False GCustom,
      GField ''Status'' ''status,omitempty'' ''status'' True False (GMap GBasic)]"

definition schemaFlags :: "string set" where
  "schemaFlags = FlagNames (GStruct serve_schema)"

definition conflictingFlags :: "string list \<Rightarrow> string list" where
  "conflictingFlags given = Conflicting given schemaFlags"

text \<open>The flags \<^verbatim>\<open>serve\<close> defines.\<close>

definition serve_flag_names :: "string list" where
  "serve_flag_names =
     [''policy'', ''dids'', ''enforcement-point'', ''keystore'', ''signer-sock'', ''http-addr'', ''mcp-addr'', ''export'', ''now'',
      ''audit-log'', ''audit-wal'', ''allow-unauthenticated-remote'', ''config'', ''check-config'', ''status'']"

section \<open>The configuration\<close>

record ServeConfig =
  sc_Policy :: string
  sc_DIDs :: string
  sc_EnforcementPoint :: string
  sc_BrokerSocket :: string
  sc_MockKeystore :: string
  sc_HTTPAddr :: string
  sc_MCPAddr :: string
  sc_AllowUnauthenticatedRemote :: bool
  sc_Export :: string
  sc_AuditLog :: string
  sc_AuditWAL :: bytes
  sc_Status :: "(string \<times> string) list"

datatype serve_config_err =
    FieldRequired
  | BothKeySources
  | NoKeySource
  | AuditWALRequired
  | AuditWALNotString
  | AuditWALEmpty
  | StatusEmptyURL
  | StatusEmptyFile string

text \<open>The path and whether durability is enabled; \<open>unstr\<close> decodes a JSON string.\<close>

definition auditWAL :: "(bytes \<Rightarrow> string option) \<Rightarrow> ServeConfig \<Rightarrow> serve_config_err + string \<times> bool" where
  "auditWAL unstr c =
     (let raw = TrimSpace (sc_AuditWAL c) in
      if raw = [] then Inl AuditWALRequired
      else if raw = ''null'' then Inr ([], False)
      else case unstr raw of
          None \<Rightarrow> Inl AuditWALNotString
        | Some p \<Rightarrow> if TrimSpace p = [] then Inl AuditWALEmpty else Inr (p, True))"

fun validate_status :: "(string \<times> string) list \<Rightarrow> serve_config_err + unit" where
  "validate_status [] = Inr ()"
| "validate_status ((url, f) # ss) =
     (if TrimSpace url = [] then Inl StatusEmptyURL
      else if TrimSpace f = [] then Inl (StatusEmptyFile url)
      else validate_status ss)"

text \<open>Of several required fields that are missing the code reports any one.\<close>

definition ServeConfig_validate :: "(bytes \<Rightarrow> string option) \<Rightarrow> ServeConfig \<Rightarrow> serve_config_err + unit" where
  "ServeConfig_validate unstr c =
     (if TrimSpace (sc_Policy c) = [] \<or> TrimSpace (sc_DIDs c) = [] \<or> TrimSpace (sc_EnforcementPoint c) = [] then Inl FieldRequired
      else let broker = (TrimSpace (sc_BrokerSocket c) \<noteq> []); mock = (TrimSpace (sc_MockKeystore c) \<noteq> []) in
        if broker \<and> mock then Inl BothKeySources
        else if \<not> broker \<and> \<not> mock then Inl NoKeySource
        else case auditWAL unstr c of
            Inl e \<Rightarrow> Inl e
          | Inr _ \<Rightarrow> validate_status (sc_Status c))"

definition statusPairs :: "ServeConfig \<Rightarrow> string list" where
  "statusPairs c = sort (map (\<lambda>(url, f). url @ ''='' @ f) (sc_Status c))"

text \<open>\<^verbatim>\<open>strings.Cut\<close> at the first occurrence of a one-byte separator.\<close>

definition Cut :: "char \<Rightarrow> string \<Rightarrow> (string \<times> string) option" where
  "Cut sep s =
     (case dropWhile (\<lambda>c. c \<noteq> sep) s of [] \<Rightarrow> None | _ # rest \<Rightarrow> Some (takeWhile (\<lambda>c. c \<noteq> sep) s, rest))"

section \<open>Addresses\<close>

definition SplitHostPort :: "string \<Rightarrow> (string \<times> string) option" where
  "SplitHostPort s =
     (case LastIndex s CHR '':'' of
        None \<Rightarrow> None
      | Some i \<Rightarrow>
          if hd s = CHR ''['' then
            (if CHR '']'' \<notin> set s then None
             else let e = length (takeWhile (\<lambda>c. c \<noteq> CHR '']'') s) in
               if e + 1 \<noteq> i then None
               else if CHR ''['' \<in> set (drop 1 s) \<or> CHR '']'' \<in> set (drop (e + 1) s) then None
               else Some (drop 1 (take e s), drop (i + 1) s))
          else if CHR '':'' \<in> set (take i s) then None
          else if CHR ''['' \<in> set s \<or> CHR '']'' \<in> set s then None
          else Some (take i s, drop (i + 1) s))"

definition Trim :: "char set \<Rightarrow> string \<Rightarrow> string" where
  "Trim cs s = rev (dropWhile (\<lambda>c. c \<in> cs) (rev (dropWhile (\<lambda>c. c \<in> cs) s)))"

text \<open>
  The sixteen bytes of an address that \<open>ParseAddr\<close> accepts: the groups before and after \<^verbatim>\<open>::\<close> with
  zeros between, a dotted quad as four bytes.
\<close>

definition hex_value :: "string \<Rightarrow> nat" where
  "hex_value s = foldl (\<lambda>n c. n * 16 + (if is_digit c then ord c - 48 else ord (lower c) - 87)) 0 s"

definition quad_bytes :: "string \<Rightarrow> nat list" where
  "quad_bytes s = map digits_value (Split CHR ''.'' s)"

definition group_bytes :: "string \<Rightarrow> nat list" where
  "group_bytes g = (if CHR ''.'' \<in> set g then quad_bytes g else [hex_value g div 256, hex_value g mod 256])"

definition side_bytes :: "string \<Rightarrow> nat list" where
  "side_bytes s = (if s = [] then [] else concat (map group_bytes (Split CHR '':'' s)))"

fun cut_gap :: "string \<Rightarrow> string \<Rightarrow> string \<times> string option" where
  "cut_gap acc [] = (rev acc, None)"
| "cut_gap acc (c # s) =
     (if HasPrefix (c # s) ''::'' then (rev acc, Some (drop 2 (c # s))) else cut_gap (c # acc) s)"

definition ipv6_bytes :: "string \<Rightarrow> nat list" where
  "ipv6_bytes s =
     (case cut_gap [] s of
        (l, None) \<Rightarrow> side_bytes l
      | (l, Some r) \<Rightarrow> side_bytes l @ replicate (16 - length (side_bytes l) - length (side_bytes r)) 0 @ side_bytes r)"

definition v4InV6Prefix :: "nat list" where
  "v4InV6Prefix = replicate 10 0 @ [255, 255]"

definition ParseIP :: "string \<Rightarrow> nat list option" where
  "ParseIP s =
     (case ParseAddr s of
        None \<Rightarrow> None
      | Some a \<Rightarrow>
          if ip_Zone a \<noteq> [] then None
          else Some (if ip_Is4 a then v4InV6Prefix @ quad_bytes s else ipv6_bytes s))"

definition IsLoopback :: "nat list \<Rightarrow> bool" where
  "IsLoopback ip =
     (if take 12 ip = v4InV6Prefix then ip ! 12 = 127 else ip = replicate 15 0 @ [1])"

definition isLoopbackAddr :: "string \<Rightarrow> bool" where
  "isLoopbackAddr addr0 =
     (let addr = TrimSpace addr0 in
      if addr = [] then True
      else case SplitHostPort addr of
          None \<Rightarrow> False
        | Some (host0, _) \<Rightarrow>
            let host = Trim {CHR ''['', CHR '']''} host0 in
            if host = [] then False
            else if host = ''localhost'' then True
            else (case ParseIP host of None \<Rightarrow> False | Some ip \<Rightarrow> IsLoopback ip))"

definition anyListenerEnabled :: "string list \<Rightarrow> bool" where
  "anyListenerEnabled addrs = list_ex (\<lambda>a. TrimSpace a \<noteq> []) addrs"

datatype bind_notice = NoNotice | RemoteWarning "string list" | RemoteRefused "string list"

definition refuseRemoteBind :: "string list \<Rightarrow> bool \<Rightarrow> bind_notice \<times> bool" where
  "refuseRemoteBind addrs allow =
     (let remote = filter (\<lambda>a. \<not> isLoopbackAddr a) addrs in
      if remote = [] then (NoNotice, True)
      else if allow then (RemoteWarning remote, True)
      else (RemoteRefused remote, False))"

section \<open>What the settings say\<close>

lemma schemaFlags_sets:
  "schemaFlags \<subseteq> set serve_flag_names" "set serve_flag_names - schemaFlags = {''now'', ''config'', ''check-config''}"
  by code_simp+

lemma conflictingFlags_none:
  "conflictingFlags given = [] \<longleftrightarrow> set given \<inter> set serve_flag_names \<subseteq> {''now'', ''config'', ''check-config''}"
proof -
  have "conflictingFlags given = [] \<longleftrightarrow> set given \<inter> schemaFlags = {}"
    unfolding conflictingFlags_def Conflicting_def length_0_conv [symmetric] length_sort by (auto simp: filter_empty_conv)
  then show ?thesis using schemaFlags_sets by blast
qed

text \<open>
  The file displaces the command line.  Every flag the schema names is a flag of \<^verbatim>\<open>serve\<close>, and a
  set of its flags may accompany a configuration file exactly when it consists of \<^verbatim>\<open>now\<close>,
  \<^verbatim>\<open>config\<close> and \<^verbatim>\<open>check-config\<close>.
\<close>

theorem config_displaces_flags:
  "schemaFlags \<subseteq> set serve_flag_names \<and>
   (conflictingFlags given = [] \<longleftrightarrow> set given \<inter> set serve_flag_names \<subseteq> {''now'', ''config'', ''check-config''})"
  using schemaFlags_sets(1) conflictingFlags_none by blast

lemma Cut_pair: "sep \<notin> set a \<Longrightarrow> Cut sep (a @ sep # b) = Some (a, b)"
  by (induction a) (auto simp: Cut_def split: list.splits)

lemma Cut_fst: "Cut sep s = Some (a, b) \<Longrightarrow> sep \<notin> set a"
  by (auto simp: Cut_def split: list.splits dest: set_takeWhileD)

text \<open>
  The status map reaches the proxy through texts \<^verbatim>\<open>url=file\<close> that are cut at the first equals
  sign.  This returns the pairs of the configuration exactly when no URL contains an equals
  sign; otherwise a list is served under another URL, or from another file.
\<close>

theorem status_pairs_faithful:
  "Cut CHR ''='' ` set (statusPairs c) = Some ` set (sc_Status c) \<longleftrightarrow>
     list_all (\<lambda>(url, _). CHR ''='' \<notin> set url) (sc_Status c)"
proof
  assume eq: "Cut CHR ''='' ` set (statusPairs c) = Some ` set (sc_Status c)"
  have "CHR ''='' \<notin> set url" if "(url, f) \<in> set (sc_Status c)" for url f
  proof -
    from that eq have "Some (url, f) \<in> Cut CHR ''='' ` set (statusPairs c)" by (metis image_eqI)
    then obtain s where "Cut CHR ''='' s = Some (url, f)" by auto
    then show ?thesis by (rule Cut_fst)
  qed
  then show "list_all (\<lambda>(url, _). CHR ''='' \<notin> set url) (sc_Status c)" by (auto simp: list_all_iff)
next
  assume "list_all (\<lambda>(url, _). CHR ''='' \<notin> set url) (sc_Status c)"
  then have "Cut CHR ''='' (url @ ''='' @ f) = Some (url, f)" if "(url, f) \<in> set (sc_Status c)" for url f
    using that Cut_pair [of "CHR ''=''" url f] by (auto simp: list_all_iff)
  then show "Cut CHR ''='' ` set (statusPairs c) = Some ` set (sc_Status c)"
    by (auto simp: statusPairs_def image_image case_prod_beta' intro!: image_cong)
qed

text \<open>An address that passes without the escape hatch is disabled, \<^verbatim>\<open>localhost\<close>, or a loopback address.\<close>

definition loopback_host :: "string \<Rightarrow> bool" where
  "loopback_host host \<longleftrightarrow> host = ''localhost'' \<or> (\<exists>ip. ParseIP host = Some ip \<and>
     (take 12 ip = v4InV6Prefix \<and> ip ! 12 = 127 \<or> ip = replicate 15 0 @ [1]))"

lemma isLoopbackAddr_host:
  assumes "isLoopbackAddr a" and "TrimSpace a \<noteq> []"
  shows "\<exists>host port. SplitHostPort (TrimSpace a) = Some (host, port) \<and> loopback_host (Trim {CHR ''['', CHR '']''} host)"
  using assms
  by (auto simp: isLoopbackAddr_def loopback_host_def IsLoopback_def Let_def split: option.splits if_splits)

lemma refuseRemoteBind_local:
  assumes "refuseRemoteBind addrs allow = (n, True)" and "a \<in> set addrs" and "TrimSpace a \<noteq> []"
  shows "allow \<or> (\<exists>host port. SplitHostPort (TrimSpace a) = Some (host, port) \<and> loopback_host (Trim {CHR ''['', CHR '']''} host))"
  using assms isLoopbackAddr_host [of a]
  by (auto simp: refuseRemoteBind_def Let_def filter_empty_conv split: if_splits)

lemma ServeConfig_valid:
  assumes "ServeConfig_validate unstr c = Inr ()"
  shows "sc_Policy c \<noteq> []" "sc_DIDs c \<noteq> []" "sc_EnforcementPoint c \<noteq> []"
    "TrimSpace (sc_BrokerSocket c) = [] \<longleftrightarrow> TrimSpace (sc_MockKeystore c) \<noteq> []"
    "\<exists>p. auditWAL unstr c = Inr (p, p \<noteq> [])"
  using assms
  by (auto simp: ServeConfig_validate_def auditWAL_def Let_def split: if_splits sum.splits option.splits dest: TrimSpace_blank)

section \<open>A schema in use\<close>

theorem strict_config_literal_witness:
  "names_checked (GPtr (GStruct serve_schema)) \<and>
   (is_ok (checkKeys (GPtr (GStruct serve_schema)) (JObj [(''Policy'', JStr ''p.json'')])) \<and>
    decoder_names (Some (GPtr (GStruct serve_schema))) (JObj [(''Policy'', JStr ''p.json'')])) = False \<and>
   (is_ok (checkKeys (GPtr (GStruct serve_schema)) (JObj [(''policy'', JStr ''p.json'')])) \<and>
    decoder_names (Some (GPtr (GStruct serve_schema))) (JObj [(''policy'', JStr ''p.json'')])) = True"
proof -
  have n: "names_checked (GPtr (GStruct serve_schema))" by code_simp
  have "\<not> literal (Some (GPtr (GStruct serve_schema))) (JObj [(''Policy'', JStr ''p.json'')])"
    "literal (Some (GPtr (GStruct serve_schema))) (JObj [(''policy'', JStr ''p.json'')])" by code_simp+
  then show ?thesis
    using n strict_config_literal [OF n, of "JObj [(''Policy'', JStr ''p.json'')]"]
      strict_config_literal [OF n, of "JObj [(''policy'', JStr ''p.json'')]"] by blast
qed

end
