(* ===== verification/Proxy_Cmd.thy ===== *)
theory Proxy_Cmd
  imports Conformance Enroll Signerd Serve_Config
begin

text \<open>
  \<^verbatim>\<open>cmd/proxy/main.go\<close>: assembling the enforcement engine and the two commands \<^verbatim>\<open>run\<close> and \<^verbatim>\<open>serve\<close>.
  The outside world is the record \<open>cmd_env\<close>: files, the decoders of \<^verbatim>\<open>encoding/json\<close>, the signing
  daemon's sockets, and whether files can be opened or written.  A command returns an error,
  or what it did, together with the files it created.  The lemmas show that a batch run
  exports what the verifier passes, what \<^verbatim>\<open>serve\<close> has checked when it listens, and that
  \<^verbatim>\<open>--check-config\<close> predicts the start.
\<close>

section \<open>The outside world\<close>

record reqSpec =
  rs_ChainFile :: string
  rs_Action :: Action
  rs_Nonce :: string
  rs_Approver :: DID

record cmd_env =
  ce_files :: "string \<rightharpoonup> bytes"
  ce_isdir :: "string \<Rightarrow> bool option"
  ce_policy :: "bytes \<Rightarrow> raw_policy option"
  ce_doc :: "bytes \<Rightarrow> Document option"
  ce_status :: "bytes \<Rightarrow> published option"
  ce_keystore :: "bytes \<Rightarrow> Keystore option"
  ce_chain :: "bytes \<Rightarrow> Chain option"
  ce_requests :: "bytes \<Rightarrow> reqSpec list option"
  ce_stream :: "bytes \<Rightarrow> decoded list"
  ce_opens :: "string \<Rightarrow> bool"
  ce_writes :: "string \<Rightarrow> bool"
  ce_marshal :: "Export \<Rightarrow> bytes option"
  ce_daemon :: daemon_env
  ce_socket :: "string \<Rightarrow> socket"
  ce_parse :: "bytes \<Rightarrow> document"
  ce_decode :: "json \<Rightarrow> ServeConfig option"
  ce_unstr :: "bytes \<Rightarrow> string option"

datatype cmd_err =
    FlagRequired
  | BadNow string
  | SinkOpen string
  | WalFailed wal_err
  | KeystoreFailed keystore_err
  | DaemonFailed client_err
  | PolicyRead string
  | PolicyFailed policy_err
  | DIDsUnreadable string
  | DIDsNotDirectory string
  | StatusSpec string
  | StatusLoad string publish_err
  | StatusIssuer string DID did_err
  | StatusInvalid string status_err
  | ProxyFailed proxy_err
  | RequestsRead string
  | RequestsParse string
  | ChainRead nat string
  | ChainDecode nat
  | EmptyChainPanic nat
  | ActorKey nat keystore_err
  | ApproverKey nat keystore_err
  | ExportBuild export_err
  | ExportMarshal
  | ExportWrite string
  | ConfigAndFlags "string list"
  | ConfigFailed config_err
  | ConfigInvalid serve_config_err
  | CheckNeedsConfig
  | RemoteBind "string list"
  | NoListeners
  | NoKeySourceGiven
  | TwoKeySources

section \<open>Assembling the engine\<close>

definition Policy_Load :: "cmd_env \<Rightarrow> string \<Rightarrow> cmd_err + Policy" where
  "Policy_Load V path =
     (case ce_files V path of
        None \<Rightarrow> Inl (PolicyRead path)
      | Some data \<Rightarrow> map_err PolicyFailed (Policy_Parse (ce_policy V) data))"

text \<open>
  The status lists named on the command line: each is loaded and checked against the key of
  the issuer it names; later specifications of a URL replace earlier ones.
\<close>

fun status_specs ::
  "crypto \<Rightarrow> cmd_env \<Rightarrow> Resolver \<Rightarrow> string list \<Rightarrow> (string \<times> string) list \<Rightarrow> cmd_err + (string \<times> string) list" where
  "status_specs C V dids [] fs = Inr fs"
| "status_specs C V dids (spec # specs) fs =
     (case Cut CHR ''='' spec of
        None \<Rightarrow> Inl (StatusSpec spec)
      | Some (url, path) \<Rightarrow>
          (case Status_Load (ce_status V) (ce_files V) path of
             Inl e \<Rightarrow> Inl (StatusLoad path e)
           | Inr l \<Rightarrow>
               (case ResolveKey C dids (sl_Issuer l) of
                  Inl e \<Rightarrow> Inl (StatusIssuer path (sl_Issuer l) e)
                | Inr key \<Rightarrow>
                    (case Status_Verify C l (sl_Issuer l) key of
                       Inl e \<Rightarrow> Inl (StatusInvalid path e)
                     | Inr _ \<Rightarrow> status_specs C V dids specs ((url, path) # fs)))))"

text \<open>\<open>fileStatus\<close> reads the file at every lookup.\<close>

definition fileStatus :: "cmd_env \<Rightarrow> (string \<times> string) list \<Rightarrow> StatusResolver" where
  "fileStatus V fs url =
     (case map_of fs url of
        None \<Rightarrow> None
      | Some path \<Rightarrow> (case Status_Load (ce_status V) (ce_files V) path of Inl _ \<Rightarrow> None | Inr l \<Rightarrow> Some l))"

definition statusFlag_resolver :: "crypto \<Rightarrow> cmd_env \<Rightarrow> Resolver \<Rightarrow> string list \<Rightarrow> cmd_err + StatusResolver option" where
  "statusFlag_resolver C V dids specs =
     (if specs = [] then Inr None
      else map_sum id (\<lambda>fs. Some (fileStatus V fs)) (status_specs C V dids specs []))"

definition buildProxy ::
  "crypto \<Rightarrow> cmd_env \<Rightarrow> string \<Rightarrow> string \<Rightarrow> Signer \<Rightarrow> string list \<Rightarrow> bool \<Rightarrow> WAL option \<Rightarrow> cmd_err + Proxy" where
  "buildProxy C V policyPath didsDir ep statuses sink wal =
     (if policyPath = [] \<or> didsDir = [] then Inl FlagRequired
      else case Policy_Load V policyPath of
          Inl e \<Rightarrow> Inl e
        | Inr pol \<Rightarrow>
            (case ce_isdir V didsDir of
               None \<Rightarrow> Inl (DIDsUnreadable didsDir)
             | Some dir \<Rightarrow>
                 if \<not> dir then Inl (DIDsNotDirectory didsDir)
                 else let dids = dir_resolver (ce_doc V) (ce_files V) didsDir in
                   (case statusFlag_resolver C V dids statuses of
                      Inl e \<Rightarrow> Inl e
                    | Inr st \<Rightarrow>
                        map_err ProxyFailed (NewProxy C
                          \<lparr>cf_EnforcementPoint = Some ep, cf_Policy = Some (Shipped pol), cf_DIDs = Some dids,
                           cf_Status = st, cf_Sink = sink, cf_WAL = wal\<rparr>))))"

definition keystoreSigner :: "crypto \<Rightarrow> cmd_env \<Rightarrow> string \<Rightarrow> DID \<Rightarrow> cmd_err + Signer \<times> Keystore" where
  "keystoreSigner C V ksPath epDID =
     (case keystore_Load (ce_keystore V) (ce_files V) ksPath of
        Inl e \<Rightarrow> Inl (KeystoreFailed e)
      | Inr ks \<Rightarrow>
          (case keystore_Signer C ks epDID of Inl e \<Rightarrow> Inl (KeystoreFailed e) | Inr ep \<Rightarrow> Inr (ep, ks)))"

definition brokeredSigner :: "crypto \<Rightarrow> cmd_env \<Rightarrow> string \<Rightarrow> DID \<Rightarrow> cmd_err + Signer" where
  "brokeredSigner C V sockPath epDID = map_err DaemonFailed (Dial C (ce_daemon V) (ce_socket V sockPath) epDID)"

definition enforcementPointSigner :: "crypto \<Rightarrow> cmd_env \<Rightarrow> string \<Rightarrow> string \<Rightarrow> DID \<Rightarrow> cmd_err + Signer" where
  "enforcementPointSigner C V ksPath sockPath epDID =
     (if epDID = [] then Inl FlagRequired
      else if ksPath = [] \<and> sockPath = [] then Inl NoKeySourceGiven
      else if ksPath \<noteq> [] \<and> sockPath \<noteq> [] then Inl TwoKeySources
      else if sockPath \<noteq> [] then brokeredSigner C V sockPath epDID
      else map_sum id fst (keystoreSigner C V ksPath epDID))"

text \<open>
  The sink and the durable log, with the files they create.  Reading the log precedes opening
  it, so that a log that does not parse creates nothing.
\<close>

definition buildSink :: "cmd_env \<Rightarrow> string \<Rightarrow> (cmd_err + bool) \<times> string list" where
  "buildSink V auditLog =
     (if auditLog = [] then (Inr False, [])
      else if auditLog = ''-'' then (Inr True, [])
      else if ce_opens V auditLog then (Inr True, [auditLog])
      else (Inl (SinkOpen auditLog), []))"

definition buildWAL :: "cmd_env \<Rightarrow> string \<Rightarrow> (cmd_err + WAL option) \<times> string list" where
  "buildWAL V path =
     (if path = [] then (Inr None, [])
      else case OpenWAL (ce_stream V) (case ce_files V path of None \<Rightarrow> FileAbsent | Some d \<Rightarrow> FileData d) (ce_opens V path) of
          Inl e \<Rightarrow> (Inl (WalFailed e), [])
        | Inr w \<Rightarrow> (Inr (Some w), [path]))"

definition parseNow :: "string \<Rightarrow> cmd_err + gotime option" where
  "parseNow s =
     (if s = [] then Inr None
      else case ParseRFC3339 s of None \<Rightarrow> Inl (BadNow s) | Some t \<Rightarrow> Inr (Some (UTC t)))"

section \<open>Batch mode\<close>

record pending =
  pd_chain :: Chain
  pd_action :: Action
  pd_nonce :: string
  pd_holder :: Signer
  pd_approver :: "Signer option"

datatype build_err = BuildPossession credential_err | BuildApproval audit_err

definition pending_build :: "pending \<Rightarrow> u64 \<times> bytes \<Rightarrow> build_err + Request" where
  "pending_build p tip =
     (let terminal = lk_Credential (last (Links (pd_chain p))) in
      case ProvePossession terminal (pd_holder p) (pd_nonce p) (pd_action p) (fst tip) (snd tip) of
        Inl e \<Rightarrow> Inl (BuildPossession e)
      | Inr pop \<Rightarrow>
          (case pd_approver p of
             None \<Rightarrow>
               Inr \<lparr>rq_Chain = Some (pd_chain p), rq_Action = pd_action p, rq_PoP = pop, rq_Approver = [], rq_Approval = []\<rparr>
           | Some approver \<Rightarrow>
               (case SignApproval approver (cr_Subject terminal) (pd_action p) (fst tip) (snd tip) of
                  Inl e \<Rightarrow> Inl (BuildApproval e)
                | Inr sig \<Rightarrow>
                    Inr \<lparr>rq_Chain = Some (pd_chain p), rq_Action = pd_action p, rq_PoP = pop,
                         rq_Approver = s_DID approver, rq_Approval = sig\<rparr>)))"

text \<open>A chain without links, which the decoder accepts, is an index out of range.\<close>

fun load_specs :: "crypto \<Rightarrow> cmd_env \<Rightarrow> Keystore \<Rightarrow> nat \<Rightarrow> reqSpec list \<Rightarrow> cmd_err + pending list" where
  "load_specs C V ks i [] = Inr []"
| "load_specs C V ks i (s # ss) =
     (case ce_files V (rs_ChainFile s) of
        None \<Rightarrow> Inl (ChainRead i (rs_ChainFile s))
      | Some data \<Rightarrow>
      (case ce_chain V data of
        None \<Rightarrow> Inl (ChainDecode i)
      | Some ch \<Rightarrow>
      if Links ch = [] then Inl (EmptyChainPanic i)
      else (case keystore_Signer C ks (cr_Subject (lk_Credential (last (Links ch)))) of
        Inl e \<Rightarrow> Inl (ActorKey i e)
      | Inr holder \<Rightarrow>
      (case (if rs_Approver s = [] then Inr None else map_sum (ApproverKey i) Some (keystore_Signer C ks (rs_Approver s))) of
        Inl e \<Rightarrow> Inl e
      | Inr approver \<Rightarrow>
      (case load_specs C V ks (Suc i) ss of
        Inl e \<Rightarrow> Inl e
      | Inr pds \<Rightarrow>
          Inr (\<lparr>pd_chain = ch, pd_action = rs_Action s, pd_nonce = rs_Nonce s, pd_holder = holder, pd_approver = approver\<rparr> # pds))))))"

definition loadRequests :: "crypto \<Rightarrow> cmd_env \<Rightarrow> string \<Rightarrow> Keystore \<Rightarrow> cmd_err + pending list" where
  "loadRequests C V path ks =
     (case ce_files V path of
        None \<Rightarrow> Inl (RequestsRead path)
      | Some data \<Rightarrow>
          (case ce_requests V data of None \<Rightarrow> Inl (RequestsParse path) | Some specs \<Rightarrow> load_specs C V ks 0 specs))"

text \<open>What one request prints.\<close>

datatype batch_line = NotBuilt build_err | NotHandled handle_err | Decided Decision

fun run_batch ::
  "crypto \<Rightarrow> (string \<Rightarrow> string) \<Rightarrow> wording \<Rightarrow> (nat \<Rightarrow> gotime \<times> disk) \<Rightarrow> nat \<Rightarrow> pending list \<Rightarrow> Proxy \<Rightarrow> batch_line list \<times> Proxy" where
  "run_batch C q T world i [] p = ([], p)"
| "run_batch C q T world i (pd # pds) p =
     (case pending_build pd (Proxy_Tip p) of
        Inl e \<Rightarrow> (case run_batch C q T world (Suc i) pds p of (ls, p') \<Rightarrow> (NotBuilt e # ls, p'))
      | Inr req \<Rightarrow>
          (case Handle C q T (fst (world i)) (snd (world i)) req p of (res, p1) \<Rightarrow>
           case run_batch C q T world (Suc i) pds p1 of (ls, p') \<Rightarrow>
             ((case res of Inl e \<Rightarrow> NotHandled e | Inr (dec, _) \<Rightarrow> Decided dec) # ls, p')))"

definition writeExport :: "crypto \<Rightarrow> cmd_env \<Rightarrow> Proxy \<Rightarrow> string \<Rightarrow> cmd_err + bytes" where
  "writeExport C V p path =
     (case Proxy_Export C p of
        Inl e \<Rightarrow> Inl (ExportBuild e)
      | Inr ex \<Rightarrow>
          (case ce_marshal V ex of
             None \<Rightarrow> Inl ExportMarshal
           | Some data \<Rightarrow> if ce_writes V path then Inr (data @ [char_of (10 :: nat)]) else Inl (ExportWrite path)))"

record run_flags =
  rf_requests :: string
  rf_policy :: string
  rf_dids :: string
  rf_enforcementPoint :: string
  rf_keystore :: string
  rf_out :: string
  rf_now :: string
  rf_auditLog :: string
  rf_auditWAL :: string
  rf_status :: "string list"

record batch_result =
  br_lines :: "batch_line list"
  br_export :: bytes
  br_proxy :: Proxy

definition cmdRun ::
  "crypto \<Rightarrow> (string \<Rightarrow> string) \<Rightarrow> wording \<Rightarrow> (nat \<Rightarrow> gotime \<times> disk) \<Rightarrow> cmd_env \<Rightarrow> run_flags \<Rightarrow>
   (cmd_err + batch_result) \<times> string list" where
  "cmdRun C q T world V f =
     (if rf_requests f = [] \<or> rf_enforcementPoint f = [] \<or> rf_keystore f = [] then (Inl FlagRequired, [])
      else case parseNow (rf_now f) of
        Inl e \<Rightarrow> (Inl e, [])
      | Inr fixed \<Rightarrow>
      (case buildSink V (rf_auditLog f) of
        (Inl e, c1) \<Rightarrow> (Inl e, c1)
      | (Inr sink, c1) \<Rightarrow>
      (case buildWAL V (rf_auditWAL f) of
        (Inl e, c2) \<Rightarrow> (Inl e, c1 @ c2)
      | (Inr wal, c2) \<Rightarrow>
      (case keystoreSigner C V (rf_keystore f) (rf_enforcementPoint f) of
        Inl e \<Rightarrow> (Inl e, c1 @ c2)
      | Inr (ep, ks) \<Rightarrow>
      (case buildProxy C V (rf_policy f) (rf_dids f) ep (rf_status f) sink wal of
        Inl e \<Rightarrow> (Inl e, c1 @ c2)
      | Inr px \<Rightarrow>
      (case loadRequests C V (rf_requests f) ks of
        Inl e \<Rightarrow> (Inl e, c1 @ c2)
      | Inr pend \<Rightarrow>
      (case run_batch C q T (\<lambda>i. ((case fixed of Some t \<Rightarrow> t | None \<Rightarrow> fst (world i)), snd (world i))) 0 pend px of
        (ls, p') \<Rightarrow>
          (case writeExport C V p' (rf_out f) of
             Inl e \<Rightarrow> (Inl e, c1 @ c2)
           | Inr data \<Rightarrow> (Inr \<lparr>br_lines = ls, br_export = data, br_proxy = p'\<rparr>, c1 @ c2 @ [rf_out f])))))))))"

section \<open>What a batch run exports\<close>

lemma pending_build_chain: "pending_build pd tip = Inr req \<Longrightarrow> rq_Chain req = Some (pd_chain pd)"
  by (auto simp: pending_build_def Let_def split: sum.splits option.splits)

text \<open>A batch is a run of the proxy on the requests it could build.\<close>

lemma run_batch_run:
  "\<exists>ins. snd (run_batch C q T world i pds p) = run C q T ins p \<and>
     presented ins \<subseteq> (\<Union>pd \<in> set pds. lk_Credential ` set (Links (pd_chain pd)))"
proof (induction C q T world i pds p rule: run_batch.induct)
  case (1 C q T world i p)
  then show ?case by (intro exI [of _ "[]"]) (simp add: presented_def)
next
  case (2 C q T world i pd pds p)
  show ?case
  proof (cases "pending_build pd (Proxy_Tip p)")
    case (Inl e)
    with "2.IH"(1) [OF Inl] show ?thesis by (auto split: prod.splits)
  next
    case (Inr req)
    obtain res p1 where h: "Handle C q T (fst (world i)) (snd (world i)) req p = (res, p1)" by fastforce
    from "2.IH"(2) [OF Inr h [symmetric]] obtain ins where ins: "snd (run_batch C q T world (Suc i) pds p1) = run C q T ins p1"
      "presented ins \<subseteq> (\<Union>pd \<in> set pds. lk_Credential ` set (Links (pd_chain pd)))" by blast
    have "presented ((fst (world i), snd (world i), req) # ins) \<subseteq> (\<Union>pd \<in> set (pd # pds). lk_Credential ` set (Links (pd_chain pd)))"
      using ins(2) pending_build_chain [OF Inr] by (auto simp: presented_def request_credentials_def)
    moreover have "snd (run_batch C q T world i (pd # pds) p) = run C q T ((fst (world i), snd (world i), req) # ins) p"
      using Inr h ins(1) by (auto split: prod.splits)
    ultimately show ?thesis by blast
  qed
qed

lemma statusFlag_none: "statusFlag_resolver C V dids [] = Inr None"
  by (simp add: statusFlag_resolver_def)

lemma buildProxy_ok:
  assumes "buildProxy C V polPath dir ep specs sink wal = Inr px"
  obtains pol st cfg where "Policy_Load V polPath = Inr pol" "dir \<noteq> []" "polPath \<noteq> []" "ce_isdir V dir = Some True"
    "statusFlag_resolver C V (dir_resolver (ce_doc V) (ce_files V) dir) specs = Inr st"
    "cfg = \<lparr>cf_EnforcementPoint = Some ep, cf_Policy = Some (Shipped pol),
      cf_DIDs = Some (dir_resolver (ce_doc V) (ce_files V) dir), cf_Status = st, cf_Sink = sink, cf_WAL = wal\<rparr>"
    "NewProxy C cfg = Inr px"
  using assms by (auto simp: buildProxy_def Let_def split: sum.splits option.splits if_splits)

lemma fresh_fields:
  assumes "NewProxy C \<lparr>cf_EnforcementPoint = Some ep, cf_Policy = Some pol, cf_DIDs = Some dids, cf_Status = st,
      cf_Sink = sink, cf_WAL = None\<rparr> = Inr px"
  shows "p_enforcementPoint px = ep" "p_dids px = dids" "p_status px = st"
  using assms by (auto simp: NewProxy_def fresh_proxy_def)

lemma buildWAL_none: "buildWAL V [] = (Inr None, [])"
  by (simp add: buildWAL_def)

text \<open>
  What an independent verifier finds.  The key of the enforcement point is published, no two
  credentials of the batch share an address, and the approvals attached to routine actions
  verify; then a batch run without a durable log that ends well has written an export that
  passes, against the same directory and status lists.
\<close>

definition batch_credentials :: "pending list \<Rightarrow> Credential set" where
  "batch_credentials pds = (\<Union>pd \<in> set pds. lk_Credential ` set (Links (pd_chain pd)))"

definition routine_approvals_verify :: "crypto \<Rightarrow> Inputs \<Rightarrow> Proxy \<Rightarrow> bool" where
  "routine_approvals_verify C inp p \<longleftrightarrow>
     list_all (\<lambda>e. d_Allowed (e_Decision e) \<and> \<not> d_Consequential (e_Decision e) \<and> e_Approval e \<noteq> [] \<longrightarrow>
       approval_valid C inp (last (e_ResolvedChain e)) e) (Proxy_Entries p)"

lemma cmdRun_ok:
  assumes "cmdRun C q T world V f = (Inr r, created)"
  obtains ep ks sink wal px pds clock ex data where
    "keystoreSigner C V (rf_keystore f) (rf_enforcementPoint f) = Inr (ep, ks)"
    "fst (buildWAL V (rf_auditWAL f)) = Inr wal"
    "buildProxy C V (rf_policy f) (rf_dids f) ep (rf_status f) sink wal = Inr px"
    "loadRequests C V (rf_requests f) ks = Inr pds"
    "run_batch C q T clock 0 pds px = (br_lines r, br_proxy r)"
    "Proxy_Export C (br_proxy r) = Inr ex" "ce_marshal V ex = Some data" "br_export r = data @ [char_of (10 :: nat)]"
  using assms
  by (auto simp: cmdRun_def writeExport_def split: if_splits sum.splits prod.splits option.splits)

lemma batch_export_passes:
  assumes "crypto_laws C" and "rejects_empty C" and "cmdRun C q T world V f = (Inr r, created)" and "rf_auditWAL f = []"
    and "dids = dir_resolver (ce_doc V) (ce_files V) (rf_dids f)"
    and "keystoreSigner C V (rf_keystore f) (rf_enforcementPoint f) = Inr (ep, ks)"
    and "ResolveKey C dids (rf_enforcementPoint f) = Inr (s_Public ep)"
    and "\<And>pds. loadRequests C V (rf_requests f) ks = Inr pds \<Longrightarrow> inj_on (CredentialID C) (batch_credentials pds)"
    and "statusFlag_resolver C V dids (rf_status f) = Inr st"
    and "routine_approvals_verify C \<lparr>in_DIDs = dids, in_Status = st\<rparr> (br_proxy r)"
  shows "\<exists>ex data res. ce_marshal V ex = Some data \<and> br_export r = data @ [char_of (10 :: nat)] \<and>
    Proxy_Export C (br_proxy r) = Inr ex \<and>
    Export_Verify C q ex \<lparr>in_DIDs = dids, in_Status = st\<rparr> = Inr res \<and> Result_Pass res"
proof -
  from assms(3) obtain ep' ks' sink wal px pds clock ex data where
    k: "keystoreSigner C V (rf_keystore f) (rf_enforcementPoint f) = Inr (ep', ks')"
    and w: "fst (buildWAL V (rf_auditWAL f)) = Inr wal"
    and b: "buildProxy C V (rf_policy f) (rf_dids f) ep' (rf_status f) sink wal = Inr px"
    and l: "loadRequests C V (rf_requests f) ks' = Inr pds"
    and p: "run_batch C q T clock 0 pds px = (br_lines r, br_proxy r)"
    and x: "Proxy_Export C (br_proxy r) = Inr ex" "ce_marshal V ex = Some data" "br_export r = data @ [char_of (10 :: nat)]"
    by (rule cmdRun_ok)
  have ek: "ep' = ep" "ks' = ks" and wal: "wal = None" using k assms(6) w assms(4) by (simp_all add: buildWAL_none)
  have ep: "signer_ok C ep" "s_DID ep = rf_enforcementPoint f"
    using assms(6) keystore_Signer_ok [OF _ assms(1)] by (auto simp: keystoreSigner_def split: sum.splits)
  from b obtain pol st' cfg where cfg: "cfg = \<lparr>cf_EnforcementPoint = Some ep', cf_Policy = Some (Shipped pol),
      cf_DIDs = Some dids, cf_Status = st', cf_Sink = sink, cf_WAL = wal\<rparr>" and n: "NewProxy C cfg = Inr px"
    and st': "statusFlag_resolver C V dids (rf_status f) = Inr st'"
    unfolding assms(5) by (rule buildProxy_ok)
  have st: "st' = st" using st' assms(9) by simp
  note px = fresh_fields [OF n [unfolded cfg wal]]
  obtain ins where ins: "br_proxy r = run C q T ins px" "presented ins \<subseteq> batch_credentials pds"
    using run_batch_run [of C q T clock 0 pds px] p by (auto simp: batch_credentials_def)
  have inj: "inj_on (CredentialID C) (presented ins)" using assms(8) l ek ins(2) by (auto intro: inj_on_subset)
  have "\<exists>res. Export_Verify C q ex \<lparr>in_DIDs = p_dids px, in_Status = p_status px\<rparr> = Inr res \<and> Result_Pass res"
    by (rule honest_export_passes_aux [OF n _ _ _ assms(1,2) ins(1) inj _ _ x(1)])
      (use assms(7,10) in \<open>simp_all add: cfg wal px ek ep st routine_approvals_verify_def\<close>)
  with x px st show ?thesis by auto
qed

text \<open>The export of a batch run parses: it has the current version and carries the loaded, valid policy.\<close>

lemma run_batch_carries:
  "p_carriedPolicy (snd (run_batch C q T world i pds p)) = p_carriedPolicy p \<and>
   p_enforcementPoint (snd (run_batch C q T world i pds p)) = p_enforcementPoint p"
proof (induction C q T world i pds p rule: run_batch.induct)
  case (2 C q T world i pd pds p)
  show ?case
  proof (cases "pending_build pd (Proxy_Tip p)")
    case (Inl e)
    with "2.IH"(1) [OF Inl] show ?thesis by (auto split: prod.splits)
  next
    case (Inr req)
    obtain res p1 where h: "Handle C q T (fst (world i)) (snd (world i)) req p = (res, p1)" by fastforce
    have "p_carriedPolicy p1 = p_carriedPolicy p \<and> p_enforcementPoint p1 = p_enforcementPoint p"
      by (cases rule: Handle_cases [OF h]) (simp_all add: recorded_fields same_record_fields)
    with "2.IH"(2) [OF Inr h [symmetric]] Inr h show ?thesis by (auto split: prod.splits)
  qed
qed simp

lemma batch_export_parses:
  assumes "cmdRun C q T world V f = (Inr r, created)" and "rf_auditWAL f = []"
    and "Proxy_Export C (br_proxy r) = Inr ex" and "unmarshal data = Some ex"
  shows "Export_Parse unmarshal data = Inr ex"
proof -
  from assms(1) obtain ep ks sink wal px pds clock ex' data' where
    w: "fst (buildWAL V (rf_auditWAL f)) = Inr wal"
    and b: "buildProxy C V (rf_policy f) (rf_dids f) ep (rf_status f) sink wal = Inr px"
    and p: "run_batch C q T clock 0 pds px = (br_lines r, br_proxy r)" by (rule cmdRun_ok)
  from b obtain pol st cfg where pol: "Policy_Load V (rf_policy f) = Inr pol"
    and cfg: "cfg = \<lparr>cf_EnforcementPoint = Some ep, cf_Policy = Some (Shipped pol),
      cf_DIDs = Some (dir_resolver (ce_doc V) (ce_files V) (rf_dids f)), cf_Status = st, cf_Sink = sink, cf_WAL = wal\<rparr>"
    and n: "NewProxy C cfg = Inr px" by (rule buildProxy_ok)
  have "wal = None" using w assms(2) by (simp add: buildWAL_none)
  with n cfg have "p_carriedPolicy px = Some pol" by (auto simp: NewProxy_def fresh_proxy_def)
  then have "p_carriedPolicy (br_proxy r) = Some pol" using run_batch_carries [of C q T clock 0 pds px] p by simp
  with assms(3) have "x_Version ex = Version" "x_Policy ex = Some pol"
    by (auto simp: Proxy_Export_def Export_Build_def split: option.splits)
  moreover have "is_ok (Policy_Validate pol)"
    using pol by (auto simp: Policy_Load_def Policy_Parse_def Let_def split: option.splits sum.splits)
  ultimately show ?thesis using assms(4) by (auto simp: Export_Parse_def)
qed

text \<open>A batch none of whose requests names an approver records no approval.\<close>

lemma run_batch_no_approvals:
  assumes "list_all (\<lambda>pd. pd_approver pd = None) pds" and "list_all (\<lambda>e. e_Approval e = []) (Proxy_Entries p)"
  shows "list_all (\<lambda>e. e_Approval e = []) (Proxy_Entries (snd (run_batch C q T world i pds p)))"
  using assms
proof (induction C q T world i pds p rule: run_batch.induct)
  case (2 C q T world i pd pds p)
  show ?case
  proof (cases "pending_build pd (Proxy_Tip p)")
    case (Inl e)
    with "2.IH"(1) [OF Inl] "2.prems" show ?thesis by (auto split: prod.splits)
  next
    case (Inr req)
    obtain res p1 where h: "Handle C q T (fst (world i)) (snd (world i)) req p = (res, p1)" by fastforce
    have "rq_Approval req = []"
      using Inr "2.prems"(1) by (auto simp: pending_build_def Let_def split: sum.splits)
    then have "list_all (\<lambda>e. e_Approval e = []) (Proxy_Entries p1)"
      using "2.prems"(2)
      by (cases rule: Handle_cases [OF h])
        (auto simp: Proxy_Entries_def Entries_def recorded_fields(1) same_record_fields(1) dest: recorded_entry(10))
    with "2.IH"(2) [OF Inr h [symmetric]] "2.prems"(1) Inr h show ?thesis by (auto split: prod.splits)
  qed
qed simp

lemma NewProxy_no_history:
  assumes "\<And>w. wal = Some w \<Longrightarrow> w_recovered w = []"
  shows "is_ok (NewProxy C \<lparr>cf_EnforcementPoint = Some ep, cf_Policy = Some pol, cf_DIDs = Some dids, cf_Status = st,
     cf_Sink = sink, cf_WAL = wal\<rparr>)"
  using assms by (cases wal) (auto simp: NewProxy_def recoverFrom_def Recovered_def Let_def)

section \<open>A concrete site\<close>

text \<open>
  A directory with the organisation's document, a policy, a keystore with the keys of the
  organisation and of a device, and one request on the chain \<open>ch\<close>.
\<close>

definition sample_site :: "string \<rightharpoonup> bytes" where
  "sample_site = org_files(''/p'' \<mapsto> [], ''/ks'' \<mapsto> [], ''/req'' \<mapsto> [], ''/chain'' \<mapsto> [], ''/config'' \<mapsto> [])"

definition sample_cmd :: "Chain \<Rightarrow> (Export \<Rightarrow> bytes option) \<Rightarrow> ServeConfig \<Rightarrow> cmd_env" where
  "sample_cmd ch marshal cfg =
     \<lparr>ce_files = sample_site, ce_isdir = (\<lambda>_. Some True), ce_policy = (\<lambda>_. Some sample_raw_policy), ce_doc = dec_doc,
      ce_status = (\<lambda>_. None), ce_keystore = (\<lambda>_. Some sample_keystore), ce_chain = (\<lambda>_. Some ch),
      ce_requests = (\<lambda>_. Some [\<lparr>rs_ChainFile = ''/chain'', rs_Action = sample_action, rs_Nonce = ''n'', rs_Approver = []\<rparr>]),
      ce_stream = (\<lambda>_. []), ce_opens = (\<lambda>_. True), ce_writes = (\<lambda>_. True), ce_marshal = marshal,
      ce_daemon = sample_daemon, ce_socket = (\<lambda>_ _. None), ce_parse = (\<lambda>_. Document (JObj []) False),
      ce_decode = (\<lambda>_. Some cfg), ce_unstr = Some\<rparr>"

lemma sample_cmd_selectors:
  "ce_files (sample_cmd ch m cfg) = sample_site" "ce_isdir (sample_cmd ch m cfg) = (\<lambda>_. Some True)"
  "ce_policy (sample_cmd ch m cfg) = (\<lambda>_. Some sample_raw_policy)" "ce_doc (sample_cmd ch m cfg) = dec_doc"
  by (simp_all add: sample_cmd_def)

lemma sample_site_resolves:
  "dir_resolver dec_doc sample_site ''/pub'' ''did:web:a.example'' = dir_resolver dec_doc org_files ''/pub'' ''did:web:a.example''"
  "ResolveKey toy_crypto (dir_resolver dec_doc sample_site ''/pub'') ''did:web:a.example'' = Inr (Ed25519Key (toy_key CHR ''3''))"
proof -
  show r: "dir_resolver dec_doc sample_site ''/pub'' ''did:web:a.example'' = dir_resolver dec_doc org_files ''/pub'' ''did:web:a.example''"
    by (simp add: dir_resolver_def FileResolver_Resolve_def sample_paths sample_site_def)
  with org_resolves show "ResolveKey toy_crypto (dir_resolver dec_doc sample_site ''/pub'') ''did:web:a.example'' = Inr (Ed25519Key (toy_key CHR ''3''))"
    by (simp add: ResolveKey_def)
qed

lemma sample_cmd_signer:
  "keystoreSigner toy_crypto (sample_cmd ch m cfg) ''/ks'' ''did:web:a.example'' =
     Inr (toy_signer ''did:web:a.example'' CHR ''3'', sample_keystore)"
  by (simp add: keystoreSigner_def keystore_Load_def sample_cmd_def sample_site_def sample_signers)

lemma sample_cmd_proxy:
  assumes "\<And>w. wal = Some w \<Longrightarrow> w_recovered w = []"
  shows "\<exists>px. buildProxy toy_crypto (sample_cmd ch m cfg) ''/p'' ''/pub'' ep [] sink wal = Inr px"
proof -
  have "\<exists>p. Policy_Parse (\<lambda>_. Some sample_raw_policy) [] = Inr p"
    by (simp add: Policy_Parse_def sample_raw_policy_def sample_default_def Policy_UnmarshalJSON_def
        Policy_Validate_def trim_eval Let_def)
  then obtain pol where pol: "Policy_Load (sample_cmd ch m cfg) ''/p'' = Inr pol"
    by (auto simp: Policy_Load_def sample_cmd_def sample_site_def)
  have "is_ok (NewProxy toy_crypto \<lparr>cf_EnforcementPoint = Some ep, cf_Policy = Some (Shipped pol),
      cf_DIDs = Some (dir_resolver dec_doc sample_site ''/pub''), cf_Status = None, cf_Sink = sink, cf_WAL = wal\<rparr>)"
    by (rule NewProxy_no_history) (use assms in blast)
  then show ?thesis
    using pol by (auto simp: buildProxy_def statusFlag_resolver_def sample_cmd_def elim!: is_okE)
qed

text \<open>The device's chain of one link.\<close>

lemma sample_batch:
  obtains ch pd where "\<And>m cfg. loadRequests toy_crypto (sample_cmd ch m cfg) ''/req'' sample_keystore = Inr [pd]"
    "pd_approver pd = None" "\<exists>c. lk_Credential ` set (Links (pd_chain pd)) = {c}"
proof -
  obtain cred sig where m: "mintCredential toy_crypto (sample_enroll ''did:web:b.example'' []) (toy_signer ''did:web:a.example'' CHR ''3'')
     (Ed25519Key (toy_key CHR ''D'')) = Inr (cred, \<lparr>lk_Credential = cred, lk_IssuerProof = sig\<rparr>)"
    using sample_mint_device [of "''did:web:b.example''"] by auto
  then have "cr_Subject cred = ''did:web:b.example''"
    by (auto simp: mintCredential_def Credential_New_def sample_enroll_def bind_Inr_iff split: sum.splits)
  then have "loadRequests toy_crypto (sample_cmd \<lparr>Links = [\<lparr>lk_Credential = cred, lk_IssuerProof = sig\<rparr>]\<rparr> m' cfg) ''/req'' sample_keystore =
     Inr [\<lparr>pd_chain = \<lparr>Links = [\<lparr>lk_Credential = cred, lk_IssuerProof = sig\<rparr>]\<rparr>, pd_action = sample_action, pd_nonce = ''n'',
       pd_holder = toy_signer ''did:web:b.example'' CHR ''D'', pd_approver = None\<rparr>]" for m' cfg
    by (simp add: loadRequests_def sample_cmd_def sample_site_def sample_signers)
  then show thesis by (rule that) simp_all
qed

definition sample_serve :: ServeConfig where
  "sample_serve =
     \<lparr>sc_Policy = ''/p'', sc_DIDs = ''/pub'', sc_EnforcementPoint = ''did:web:a.example'', sc_BrokerSocket = [],
      sc_MockKeystore = ''/ks'', sc_HTTPAddr = ''127.0.0.1:8181'', sc_MCPAddr = [], sc_AllowUnauthenticatedRemote = False,
      sc_Export = [], sc_AuditLog = ''audit'', sc_AuditWAL = ''wal'', sc_Status = []\<rparr>"

definition sample_run_flags :: run_flags where
  "sample_run_flags =
     \<lparr>rf_requests = ''/req'', rf_policy = ''/p'', rf_dids = ''/pub'', rf_enforcementPoint = ''did:web:a.example'',
      rf_keystore = ''/ks'', rf_out = ''out'', rf_now = [], rf_auditLog = [], rf_auditWAL = [], rf_status = []\<rparr>"

end
