(* ===== verification/Serve_Cmd.thy ===== *)
theory Serve_Cmd
  imports Proxy_Cmd
begin

text \<open>
  \<^verbatim>\<open>kessa-proxy serve\<close> (\<^verbatim>\<open>cmd/proxy/main.go\<close>) up to the point where it listens: the settings from the
  command line or from one file, the refusals, and the assembly.  The lemmas show what holds
  when it listens, that \<^verbatim>\<open>--check-config\<close> decides as the start does and creates nothing, and
  which refused starts leave files behind.
\<close>

section \<open>Settings\<close>

text \<open>The values of the flags, and the names of those given explicitly.\<close>

record serve_flags =
  sf_policy :: string
  sf_dids :: string
  sf_enforcementPoint :: string
  sf_keystore :: string
  sf_signerSock :: string
  sf_httpAddr :: string
  sf_mcpAddr :: string
  sf_export :: string
  sf_now :: string
  sf_auditLog :: string
  sf_auditWAL :: string
  sf_allowRemote :: bool
  sf_config :: string
  sf_checkConfig :: bool
  sf_status :: "string list"
  sf_given :: "string list"

definition loadConfig :: "cmd_env \<Rightarrow> string \<Rightarrow> cmd_err + ServeConfig" where
  "loadConfig V path =
     (case config_Load (GPtr (GStruct serve_schema)) (ce_decode V) (ce_parse V) (ce_files V) path of
        Inl e \<Rightarrow> Inl (ConfigFailed e)
      | Inr cfg \<Rightarrow>
          (case ServeConfig_validate (ce_unstr V) cfg of Inl e \<Rightarrow> Inl (ConfigInvalid e) | Inr _ \<Rightarrow> Inr cfg))"

text \<open>Every setting of the schema is assigned, so that an absent field is off.\<close>

definition assign_config :: "cmd_env \<Rightarrow> ServeConfig \<Rightarrow> serve_flags \<Rightarrow> serve_flags" where
  "assign_config V cfg f =
     f\<lparr>sf_policy := sc_Policy cfg, sf_dids := sc_DIDs cfg, sf_enforcementPoint := sc_EnforcementPoint cfg,
       sf_keystore := sc_MockKeystore cfg, sf_signerSock := sc_BrokerSocket cfg, sf_httpAddr := sc_HTTPAddr cfg,
       sf_mcpAddr := sc_MCPAddr cfg, sf_export := sc_Export cfg, sf_auditLog := sc_AuditLog cfg,
       sf_allowRemote := sc_AllowUnauthenticatedRemote cfg, sf_status := statusPairs cfg,
       sf_auditWAL := (case auditWAL (ce_unstr V) cfg of Inl _ \<Rightarrow> [] | Inr (p, _) \<Rightarrow> p)\<rparr>"

definition serve_settings :: "cmd_env \<Rightarrow> serve_flags \<Rightarrow> cmd_err + serve_flags" where
  "serve_settings V f =
     (if sf_config f \<noteq> [] then
        (if conflictingFlags (sf_given f) \<noteq> [] then Inl (ConfigAndFlags (conflictingFlags (sf_given f)))
         else map_sum id (\<lambda>cfg. assign_config V cfg f) (loadConfig V (sf_config f)))
      else if sf_checkConfig f then Inl CheckNeedsConfig
      else Inr f)"

section \<open>The command\<close>

datatype serve_outcome = Checked bool | Serving Proxy "string list"

definition enabledListeners :: "string list \<Rightarrow> string list" where
  "enabledListeners addrs = filter (\<lambda>a. TrimSpace a \<noteq> []) addrs"

text \<open>The refusals before anything is created; the result is the enforcement point's signer.\<close>

definition serve_gates :: "crypto \<Rightarrow> cmd_env \<Rightarrow> serve_flags \<Rightarrow> cmd_err + Signer" where
  "serve_gates C V st =
     (case parseNow (sf_now st) of
        Inl e \<Rightarrow> Inl e
      | Inr _ \<Rightarrow>
          (case refuseRemoteBind [sf_httpAddr st, sf_mcpAddr st] (sf_allowRemote st) of
             (n, ok) \<Rightarrow>
               if \<not> ok then Inl (RemoteBind (case n of RemoteRefused as \<Rightarrow> as | _ \<Rightarrow> []))
               else if \<not> anyListenerEnabled [sf_httpAddr st, sf_mcpAddr st] then Inl NoListeners
               else enforcementPointSigner C V (sf_keystore st) (sf_signerSock st) (sf_enforcementPoint st)))"

definition serve_start :: "crypto \<Rightarrow> cmd_env \<Rightarrow> serve_flags \<Rightarrow> Signer \<Rightarrow> (cmd_err + serve_outcome) \<times> string list" where
  "serve_start C V st ep =
     (case buildSink V (sf_auditLog st) of
        (Inl e, c1) \<Rightarrow> (Inl e, c1)
      | (Inr sink, c1) \<Rightarrow>
      (case buildWAL V (sf_auditWAL st) of
        (Inl e, c2) \<Rightarrow> (Inl e, c1 @ c2)
      | (Inr wal, c2) \<Rightarrow>
      (case buildProxy C V (sf_policy st) (sf_dids st) ep (sf_status st) sink wal of
        Inl e \<Rightarrow> (Inl e, c1 @ c2)
      | Inr px \<Rightarrow>
          if enabledListeners [sf_httpAddr st, sf_mcpAddr st] = [] then (Inl NoListeners, c1 @ c2)
          else (Inr (Serving px (enabledListeners [sf_httpAddr st, sf_mcpAddr st])), c1 @ c2))))"

definition cmdServe :: "crypto \<Rightarrow> cmd_env \<Rightarrow> serve_flags \<Rightarrow> (cmd_err + serve_outcome) \<times> string list" where
  "cmdServe C V f =
     (case serve_settings V f of
        Inl e \<Rightarrow> (Inl e, [])
      | Inr st \<Rightarrow>
          (case serve_gates C V st of
             Inl e \<Rightarrow> (Inl e, [])
           | Inr ep \<Rightarrow>
               if sf_checkConfig st then
                 (case buildProxy C V (sf_policy st) (sf_dids st) ep (sf_status st) False None of
                    Inl e \<Rightarrow> (Inl e, [])
                  | Inr _ \<Rightarrow> (Inr (Checked (sf_signerSock st \<noteq> [])), []))
               else serve_start C V st ep))"

section \<open>What holds when it listens\<close>

lemma enabledListeners_any: "enabledListeners addrs \<noteq> [] \<longleftrightarrow> anyListenerEnabled addrs"
  by (auto simp: enabledListeners_def anyListenerEnabled_def filter_empty_conv list_ex_iff)

lemma serve_gates_ok:
  assumes "serve_gates C V st = Inr ep"
  shows "anyListenerEnabled [sf_httpAddr st, sf_mcpAddr st]"
    "enforcementPointSigner C V (sf_keystore st) (sf_signerSock st) (sf_enforcementPoint st) = Inr ep"
    "a \<in> set (enabledListeners [sf_httpAddr st, sf_mcpAddr st]) \<Longrightarrow> sf_allowRemote st \<or>
       (\<exists>host port. SplitHostPort (TrimSpace a) = Some (host, port) \<and> loopback_host (Trim {CHR ''['', CHR '']''} host))"
proof -
  from assms obtain n where n: "refuseRemoteBind [sf_httpAddr st, sf_mcpAddr st] (sf_allowRemote st) = (n, True)"
    by (auto simp: serve_gates_def split: sum.splits prod.splits if_splits)
  with assms show "anyListenerEnabled [sf_httpAddr st, sf_mcpAddr st]"
    "enforcementPointSigner C V (sf_keystore st) (sf_signerSock st) (sf_enforcementPoint st) = Inr ep"
    by (auto simp: serve_gates_def split: sum.splits if_splits)
  show "a \<in> set (enabledListeners [sf_httpAddr st, sf_mcpAddr st]) \<Longrightarrow> sf_allowRemote st \<or>
       (\<exists>host port. SplitHostPort (TrimSpace a) = Some (host, port) \<and> loopback_host (Trim {CHR ''['', CHR '']''} host))"
    using refuseRemoteBind_local [OF n, of a] unfolding enabledListeners_def set_filter by blast
qed

lemma signer_DID:
  assumes "enforcementPointSigner C V ks sock d = Inr ep" and "crypto_laws C"
  shows "s_DID ep = d" "d \<noteq> []" "(ks = []) \<noteq> (sock = [])"
  using assms keystore_Signer_ok(2) [OF _ assms(2)]
  by (auto simp: enforcementPointSigner_def keystoreSigner_def brokeredSigner_def Dial_def split: if_splits sum.splits option.splits)

lemma NewProxy_fields:
  assumes "NewProxy C c = Inr px"
  shows "cf_EnforcementPoint c = Some (p_enforcementPoint px)" "cf_Policy c = Some (p_policy px)"
    "cf_DIDs c = Some (p_dids px)" "p_status px = cf_Status c" "p_wal px = cf_WAL c" "p_sink px = cf_Sink c"
  using assms
  by (auto simp: NewProxy_def fresh_proxy_def recoverFrom_def Let_def split: option.splits if_splits sum.splits prod.splits)

lemma settings_given:
  assumes "serve_settings V f = Inr st" and "sf_config f \<noteq> []"
  shows "set (sf_given f) \<inter> set serve_flag_names \<subseteq> {''now'', ''config'', ''check-config''} \<and>
    (\<exists>cfg. loadConfig V (sf_config f) = Inr cfg \<and> st = assign_config V cfg f)"
proof -
  from assms obtain cfg where c: "conflictingFlags (sf_given f) = []" "loadConfig V (sf_config f) = Inr cfg" "st = assign_config V cfg f"
    by (auto simp: serve_settings_def map_sum_Inr_iff split: if_splits)
  from c(1) have "set (sf_given f) \<inter> set serve_flag_names \<subseteq> {''now'', ''config'', ''check-config''}"
    by (simp add: conflictingFlags_none)
  with c show ?thesis by blast
qed


section \<open>A concrete start\<close>

definition sample_serve_env :: cmd_env where
  "sample_serve_env = sample_cmd \<lparr>Links = []\<rparr> (\<lambda>_. None) sample_serve"

definition sample_serve_flags :: serve_flags where
  "sample_serve_flags =
     \<lparr>sf_policy = [], sf_dids = [], sf_enforcementPoint = [], sf_keystore = [], sf_signerSock = [], sf_httpAddr = [],
      sf_mcpAddr = [], sf_export = [], sf_now = [], sf_auditLog = [], sf_auditWAL = [], sf_allowRemote = False,
      sf_config = ''/config'', sf_checkConfig = False, sf_status = [], sf_given = [''config'']\<rparr>"

lemma sample_serve_settings:
  "serve_settings sample_serve_env sample_serve_flags = Inr (assign_config sample_serve_env sample_serve sample_serve_flags)"
proof -
  have d: "checkKeys (GPtr (GStruct serve_schema)) (JObj []) = Inr ()" "conflictingFlags [''config''] = []" by code_simp+
  have v: "ServeConfig_validate Some sample_serve = Inr ()" by code_simp
  show ?thesis
    using d v
    by (simp add: serve_settings_def sample_serve_flags_def loadConfig_def config_Load_def DecodeStrict_def
        sample_serve_env_def sample_cmd_def sample_site_def)
qed

lemma sample_serve_assigned:
  defines "st \<equiv> assign_config sample_serve_env sample_serve sample_serve_flags"
  shows "sf_policy st = ''/p''" "sf_dids st = ''/pub''" "sf_enforcementPoint st = ''did:web:a.example''" "sf_keystore st = ''/ks''"
    "sf_signerSock st = []" "sf_httpAddr st = ''127.0.0.1:8181''" "sf_mcpAddr st = []" "sf_now st = []" "sf_auditLog st = ''audit''"
    "sf_auditWAL st = ''wal''" "sf_allowRemote st = False" "sf_checkConfig st = False" "sf_status st = []"
  by (simp_all add: st_def assign_config_def sample_serve_flags_def sample_serve_def sample_serve_env_def sample_cmd_def
      auditWAL_def trim_eval statusPairs_def Let_def)

lemma sample_serve_files:
  "buildSink sample_serve_env ''audit'' = (Inr True, [''audit''])"
  "buildWAL sample_serve_env ''wal'' = (Inr (Some \<lparr>w_open = True, w_file = [], w_recovered = []\<rparr>), [''wal''])"
  by (simp_all add: buildSink_def buildWAL_def OpenWAL_def readWAL_def sample_serve_env_def sample_cmd_def sample_site_def org_files_def)

lemma sample_serving:
  "\<exists>px. cmdServe toy_crypto sample_serve_env sample_serve_flags = (Inr (Serving px [''127.0.0.1:8181'']), [''audit'', ''wal''])"
proof -
  let ?st = "assign_config sample_serve_env sample_serve sample_serve_flags"
  have a: "refuseRemoteBind [''127.0.0.1:8181'', []] False = (NoNotice, True)" "anyListenerEnabled [''127.0.0.1:8181'', []]"
    "enabledListeners [''127.0.0.1:8181'', []] = [''127.0.0.1:8181'']" by code_simp+
  have g: "serve_gates toy_crypto sample_serve_env ?st = Inr (toy_signer ''did:web:a.example'' CHR ''3'')"
    using sample_cmd_signer [of "\<lparr>Links = []\<rparr>" "\<lambda>_. None" sample_serve, folded sample_serve_env_def]
    by (simp add: serve_gates_def sample_serve_assigned parseNow_def a enforcementPointSigner_def)
  obtain px where "buildProxy toy_crypto sample_serve_env ''/p'' ''/pub'' (toy_signer ''did:web:a.example'' CHR ''3'') [] True
      (Some \<lparr>w_open = True, w_file = [], w_recovered = []\<rparr>) = Inr px"
    using sample_cmd_proxy [of "Some \<lparr>w_open = True, w_file = [], w_recovered = []\<rparr>"] unfolding sample_serve_env_def by fastforce
  with g show ?thesis
    by (simp add: cmdServe_def sample_serve_settings sample_serve_assigned serve_start_def sample_serve_files a)
qed


section \<open>The configuration check\<close>

lemma buildProxy_sink_wal:
  assumes "\<And>w. wal = Some w \<Longrightarrow> w_recovered w = []"
  shows "is_ok (buildProxy C V pp dir ep specs sink wal) = is_ok (buildProxy C V pp dir ep specs False None)"
  using NewProxy_no_history [OF assms] NewProxy_no_history [of None]
  by (simp add: buildProxy_def Let_def split: sum.splits option.splits)

lemma serve_settings_check:
  assumes "sf_config f \<noteq> []"
  shows "serve_settings V (f\<lparr>sf_checkConfig := b\<rparr>) = map_sum id (\<lambda>st. st\<lparr>sf_checkConfig := b\<rparr>) (serve_settings V f)"
  using assms
  by (cases "loadConfig V (sf_config f)") (auto simp: serve_settings_def assign_config_def)

text \<open>
  C35. The check is a prefix of the start.  For a configuration file whose sink and durable log can
  be opened, the latter without history, \<^verbatim>\<open>--check-config\<close> reports success exactly when the
  start would listen; and it creates no file, whatever it reports.
\<close>

theorem check_config_predicts_start:
  assumes "sf_config f \<noteq> []"
    and "\<And>st. serve_settings V f = Inr st \<Longrightarrow> is_ok (fst (buildSink V (sf_auditLog st))) \<and>
      (\<exists>wal. fst (buildWAL V (sf_auditWAL st)) = Inr wal \<and> (\<forall>w. wal = Some w \<longrightarrow> w_recovered w = []))"
  shows "((\<exists>live. fst (cmdServe C V (f\<lparr>sf_checkConfig := True\<rparr>)) = Inr (Checked live)) \<longleftrightarrow>
      (\<exists>px addrs. fst (cmdServe C V (f\<lparr>sf_checkConfig := False\<rparr>)) = Inr (Serving px addrs))) \<and>
    snd (cmdServe C V (f\<lparr>sf_checkConfig := True\<rparr>)) = []"
proof (cases "serve_settings V f")
  case (Inl e)
  then show ?thesis by (simp add: cmdServe_def serve_settings_check [OF assms(1)])
next
  case (Inr st)
  have g: "serve_gates C V (st\<lparr>sf_checkConfig := b\<rparr>) = serve_gates C V st" for b
    by (simp add: serve_gates_def split: sum.splits prod.splits)
  from assms(2) [OF Inr] obtain sink c1 wal c2 where s: "buildSink V (sf_auditLog st) = (Inr sink, c1)"
    and w: "buildWAL V (sf_auditWAL st) = (Inr wal, c2)" "\<And>w. wal = Some w \<Longrightarrow> w_recovered w = []"
    by (metis is_okE prod.collapse)
  show ?thesis
  proof (cases "serve_gates C V st")
    case (Inl e)
    with Inr show ?thesis by (simp add: cmdServe_def serve_settings_check [OF assms(1)] g)
  next
    case (Inr ep)
    let ?b = "buildProxy C V (sf_policy st) (sf_dids st) ep (sf_status st)"
    have l: "enabledListeners [sf_httpAddr st, sf_mcpAddr st] \<noteq> []"
      using serve_gates_ok(1) [OF Inr] by (simp add: enabledListeners_any)
    have ok: "is_ok (?b sink wal) = is_ok (?b False None)" using buildProxy_sink_wal w(2) by blast
    show ?thesis
      using Inr \<open>serve_settings V f = Inr st\<close> s w(1) l ok
      by (cases "?b False None"; cases "?b sink wal")
        (simp_all add: cmdServe_def serve_settings_check [OF assms(1)] g serve_start_def)
  qed
qed

theorem check_config_predicts_start_witness:
  "\<exists>live. fst (cmdServe toy_crypto sample_serve_env (sample_serve_flags\<lparr>sf_checkConfig := True\<rparr>)) = Inr (Checked live)"
proof -
  have f: "sample_serve_flags\<lparr>sf_checkConfig := False\<rparr> = sample_serve_flags" by (simp add: sample_serve_flags_def)
  have c: "sf_config sample_serve_flags \<noteq> []" by (simp add: sample_serve_flags_def)
  have "\<exists>px addrs. fst (cmdServe toy_crypto sample_serve_env (sample_serve_flags\<lparr>sf_checkConfig := False\<rparr>)) = Inr (Serving px addrs)"
    using sample_serving f by fastforce
  with check_config_predicts_start [OF c, of sample_serve_env toy_crypto] show ?thesis
    by (auto simp: sample_serve_settings sample_serve_assigned sample_serve_files)
qed

text \<open>
  Not everything refusable is refused before anything is created.  When the gates pass and the
  sink and the durable log open, a policy that does not load still stops the start, and the
  files just opened stay behind.
\<close>

lemma refused_start_leaves_files:
  assumes "serve_settings V f = Inr st" and "serve_gates C V st = Inr ep" and "\<not> sf_checkConfig st"
    and "buildSink V (sf_auditLog st) = (Inr sink, c1)" and "buildWAL V (sf_auditWAL st) = (Inr wal, c2)"
    and "sf_policy st \<noteq> []" and "sf_dids st \<noteq> []" and "Policy_Load V (sf_policy st) = Inl e"
  shows "cmdServe C V f = (Inl e, c1 @ c2)"
  using assms by (simp add: cmdServe_def serve_start_def buildProxy_def)

end
