(* ===== verification/Verify_Cmd.thy ===== *)
theory Verify_Cmd
  imports Proxy_Cmd
begin

text \<open>
  \<^verbatim>\<open>cmd/verify/main.go\<close>: the independent verifier's command.  It shares the decoders and files of
  \<open>cmd_env\<close>; the network is an argument.  The lemmas show that exit code, printed verdict and
  verification result agree, and that the export of a batch run passes the command when it is
  given the same directory and status lists.
\<close>

section \<open>Status lists and hosts\<close>

record statusLists =
  vl_byURL :: "(string \<times> StatusList) list"
  vl_fallback :: "StatusList option"

fun load_lists :: "cmd_env \<Rightarrow> string list \<Rightarrow> statusLists \<Rightarrow> cmd_err + statusLists" where
  "load_lists V [] r = Inr r"
| "load_lists V (spec # specs) r =
     (case Cut CHR ''='' spec of
        None \<Rightarrow>
          (case Status_Load (ce_status V) (ce_files V) spec of
             Inl e \<Rightarrow> Inl (StatusLoad spec e)
           | Inr l \<Rightarrow> load_lists V specs (r\<lparr>vl_fallback := Some l\<rparr>))
      | Some (url, path) \<Rightarrow>
          (case Status_Load (ce_status V) (ce_files V) path of
             Inl e \<Rightarrow> Inl (StatusLoad path e)
           | Inr l \<Rightarrow> load_lists V specs (r\<lparr>vl_byURL := (url, l) # vl_byURL r\<rparr>)))"

definition statusLists_ResolveStatus :: "statusLists \<Rightarrow> StatusResolver" where
  "statusLists_ResolveStatus r url =
     (case map_of (vl_byURL r) url of Some l \<Rightarrow> Some l | None \<Rightarrow> vl_fallback r)"

definition verify_status_resolver :: "cmd_env \<Rightarrow> string list \<Rightarrow> cmd_err + StatusResolver option" where
  "verify_status_resolver V specs =
     (if specs = [] then Inr None
      else map_sum id (\<lambda>r. Some (statusLists_ResolveStatus r)) (load_lists V specs \<lparr>vl_byURL = [], vl_fallback = None\<rparr>))"

definition splitHosts :: "string \<Rightarrow> string list" where
  "splitHosts s = filter (\<lambda>h. h \<noteq> []) (map TrimSpace (Split CHR '','' s))"

section \<open>Reporting\<close>

text \<open>\<open>noColor\<close> is the environment variable, \<open>terminal\<close> whether standard output is a character device.\<close>

definition resolveColor :: "string \<Rightarrow> bool \<Rightarrow> bool \<Rightarrow> bool option" where
  "resolveColor mode noColor terminal =
     (if mode = ''never'' then Some False
      else if mode = ''always'' then Some True
      else if mode = ''auto'' then (if noColor then Some False else Some terminal)
      else None)"

definition shortOutcome :: "Outcome \<Rightarrow> string" where
  "shortOutcome o' =
     (case o' of OutcomePass \<Rightarrow> ''PASS'' | OutcomePassDeny \<Rightarrow> ''PASS/DENY'' | OutcomeIntegrityOnly \<Rightarrow> ''INTEGRITY''
      | OutcomeFail \<Rightarrow> ''FAIL'' | OutcomeUnverified \<Rightarrow> ''UNVERIFIED'')"

record tally =
  ty_pass :: nat
  ty_deny :: nat
  ty_integrity :: nat
  ty_fail :: nat
  ty_unverified :: nat

fun tally_entries :: "EntryResult list \<Rightarrow> tally \<Rightarrow> tally" where
  "tally_entries [] t = t"
| "tally_entries (e # es) t =
     tally_entries es
       (case er_Outcome e of
          OutcomePass \<Rightarrow> t\<lparr>ty_pass := Suc (ty_pass t)\<rparr>
        | OutcomePassDeny \<Rightarrow> t\<lparr>ty_deny := Suc (ty_deny t)\<rparr>
        | OutcomeIntegrityOnly \<Rightarrow> t\<lparr>ty_integrity := Suc (ty_integrity t)\<rparr>
        | OutcomeFail \<Rightarrow> t\<lparr>ty_fail := Suc (ty_fail t)\<rparr>
        | OutcomeUnverified \<Rightarrow> t\<lparr>ty_unverified := Suc (ty_unverified t)\<rparr>)"

datatype verdict = VerdictPass | VerdictEnvelope | VerdictDowngraded | VerdictFail

definition report_verdict :: "Result \<Rightarrow> verdict" where
  "report_verdict res =
     (if rs_FatalReason res \<noteq> None then VerdictEnvelope
      else if \<not> rs_EvidenceCarried res then VerdictDowngraded
      else if \<not> Result_Pass res then VerdictFail
      else VerdictPass)"

text \<open>The notices that \<^verbatim>\<open>--quiet\<close> must not suppress, the verdict and the counts.\<close>

datatype notice = EnvelopeRejected fatal | NoEvidence | TrustRoot string

definition report :: "string \<Rightarrow> Result \<Rightarrow> notice list \<times> verdict \<times> tally" where
  "report trustRoot res =
     ((case rs_FatalReason res of None \<Rightarrow> [] | Some f \<Rightarrow> [EnvelopeRejected f]) @
      (if rs_EvidenceCarried res then [] else [NoEvidence]) @ [TrustRoot trustRoot],
      report_verdict res,
      tally_entries (rs_Entries res) \<lparr>ty_pass = 0, ty_deny = 0, ty_integrity = 0, ty_fail = 0, ty_unverified = 0\<rparr>)"

section \<open>The command\<close>

record verify_flags =
  vf_export :: string
  vf_dids :: string
  vf_fetchDIDs :: bool
  vf_didHosts :: string
  vf_color :: string
  vf_status :: "string list"

text \<open>The verifier's own surroundings: the export's decoder, the web, the terminal.\<close>

record verify_env =
  ve_cmd :: cmd_env
  ve_export :: "bytes \<Rightarrow> Export option"
  ve_url :: "string \<Rightarrow> URL"
  ve_get :: "string \<Rightarrow> answer option"
  ve_noColor :: bool
  ve_terminal :: bool

definition exitPass :: nat where "exitPass = 0"
definition exitFail :: nat where "exitFail = 1"
definition exitUsage :: nat where "exitUsage = 2"

text \<open>The resolver and the description of the trust root, or a refusal.\<close>

definition verify_resolver :: "verify_env \<Rightarrow> verify_flags \<Rightarrow> (Resolver \<times> string) option" where
  "verify_resolver W f =
     (if vf_fetchDIDs f then
        (let hosts = splitHosts (vf_didHosts f) in
         if hosts = [] then None
         else Some (\<lambda>d. map_sum (\<lambda>_. ResolveFailed d) snd (HTTPResolver_Resolve (ve_url W) (ve_get W) hosts [] d),
                    ''HTTPS fetches of '' @ Join '', '' hosts @ '' (web PKI)''))
      else if vf_didHosts f \<noteq> [] then None
      else Some (dir_resolver (ce_doc (ve_cmd W)) (ce_files (ve_cmd W)) (vf_dids f), ''the directory '' @ vf_dids f))"

definition verify_run :: "crypto \<Rightarrow> (string \<Rightarrow> string) \<Rightarrow> verify_env \<Rightarrow> verify_flags \<Rightarrow> nat \<times> (notice list \<times> verdict \<times> tally) option" where
  "verify_run C q W f =
     (if vf_export f = [] then (exitUsage, None)
      else if vf_dids f = [] \<and> \<not> vf_fetchDIDs f then (exitUsage, None)
      else case ce_files (ve_cmd W) (vf_export f) of
        None \<Rightarrow> (exitUsage, None)
      | Some data \<Rightarrow>
      (case Export_Parse (ve_export W) data of
        Inl _ \<Rightarrow> (exitUsage, None)
      | Inr ex \<Rightarrow>
      (case verify_resolver W f of
        None \<Rightarrow> (exitUsage, None)
      | Some (r, trustRoot) \<Rightarrow>
      (case verify_status_resolver (ve_cmd W) (vf_status f) of
        Inl _ \<Rightarrow> (exitUsage, None)
      | Inr st \<Rightarrow>
      (case resolveColor (vf_color f) (ve_noColor W) (ve_terminal W) of
        None \<Rightarrow> (exitUsage, None)
      | Some _ \<Rightarrow>
      (case Export_Verify C q ex \<lparr>in_DIDs = r, in_Status = st\<rparr> of
        Inl _ \<Rightarrow> (exitUsage, None)
      | Inr res \<Rightarrow> (if \<not> Result_Pass res then exitFail else exitPass, Some (report trustRoot res))))))))"

section \<open>The report\<close>

lemma tally_zero:
  "ty_fail (tally_entries es t) = 0 \<and> ty_unverified (tally_entries es t) = 0 \<longleftrightarrow>
     ty_fail t = 0 \<and> ty_unverified t = 0 \<and> list_all (\<lambda>e. \<not> (er_Outcome e = OutcomeFail \<or> er_Outcome e = OutcomeUnverified)) es"
  by (induction es t rule: tally_entries.induct) (auto split: Outcome.splits)

lemma verify_run_cases:
  "verify_run C q W f = (2, None) \<or>
   (\<exists>tr res. verify_run C q W f = (if Result_Pass res then 0 else 1, Some (report tr res)))"
  by (auto simp: verify_run_def exitUsage_def exitFail_def exitPass_def split: option.split sum.split prod.split)

text \<open>
  The command does not overstate.  It exits with 2 exactly when it prints no report.  Otherwise it
  exits with 0 if the printed verdict is a pass and with 1 if not; and the verdict is a pass
  exactly when no entry is counted as failed or unverified and the only notice is the one
  naming the trust root.
\<close>

theorem verify_exit_agrees:
  "case verify_run C q W f of
     (code, None) \<Rightarrow> code = 2
   | (code, Some (notices, verdict, t)) \<Rightarrow>
       code = (if verdict = VerdictPass then 0 else 1) \<and>
       (verdict = VerdictPass) = (ty_fail t = 0 \<and> ty_unverified t = 0 \<and> length notices = 1)"
  using verify_run_cases [of C q W f]
proof (elim disjE exE)
  fix tr res
  assume 2: "verify_run C q W f = (if Result_Pass res then 0 else 1, Some (report tr res))"
  have r: "(report_verdict res = VerdictPass) = Result_Pass res"
    by (auto simp: report_verdict_def Result_Pass_def)
  with 2 tally_zero [of "rs_Entries res" "\<lparr>ty_pass = 0, ty_deny = 0, ty_integrity = 0, ty_fail = 0, ty_unverified = 0\<rparr>"]
  show ?thesis by (auto simp: report_def r Result_Pass_def split: option.splits)
qed simp

section \<open>A batch run, verified\<close>

text \<open>The two commands read the same status lists.\<close>

lemma status_specs_Cons:
  assumes "status_specs C V dids (spec # specs) fs = Inr fs'"
  obtains url path l key where "Cut CHR ''='' spec = Some (url, path)" "Status_Load (ce_status V) (ce_files V) path = Inr l"
    "ResolveKey C dids (sl_Issuer l) = Inr key" "Status_Verify C l (sl_Issuer l) key = Inr ()"
    "status_specs C V dids specs ((url, path) # fs) = Inr fs'"
  using assms by (auto simp: Inr_unit_iff split: option.splits sum.splits)

lemma load_lists_status:
  assumes "status_specs C V dids specs fs = Inr fs'" and "map_of byURL = (\<lambda>url. fileStatus V fs url)"
  shows "\<exists>r. load_lists V specs \<lparr>vl_byURL = byURL, vl_fallback = None\<rparr> = Inr r \<and> statusLists_ResolveStatus r = fileStatus V fs'"
  using assms
proof (induction specs arbitrary: fs byURL)
  case Nil
  then show ?case by (auto simp: statusLists_ResolveStatus_def split: option.splits)
next
  case (Cons spec specs)
  from Cons.prems(1) obtain url path l where c: "Cut CHR ''='' spec = Some (url, path)"
    "Status_Load (ce_status V) (ce_files V) path = Inr l" and rest: "status_specs C V dids specs ((url, path) # fs) = Inr fs'"
    by (rule status_specs_Cons)
  have "map_of ((url, l) # byURL) = (\<lambda>url'. fileStatus V ((url, path) # fs) url')"
    using Cons.prems(2) c(2) by (auto simp: fileStatus_def fun_eq_iff)
  from Cons.IH [OF rest this] c show ?case by simp
qed

lemma verify_reads_same_status:
  assumes "statusFlag_resolver C V dids specs = Inr st"
  shows "verify_status_resolver V specs = Inr st"
proof (cases "specs = []")
  case False
  with assms obtain fs where f: "status_specs C V dids specs [] = Inr fs" "st = Some (fileStatus V fs)"
    by (auto simp: statusFlag_resolver_def map_sum_Inr_iff)
  have "map_of [] = (\<lambda>url. fileStatus V [] url)" by (simp add: fileStatus_def fun_eq_iff)
  from load_lists_status [OF f(1) this] f(2) False show ?thesis by (auto simp: verify_status_resolver_def)
qed (use assms in \<open>simp add: statusFlag_resolver_def verify_status_resolver_def\<close>)

text \<open>
  Files that a batch run changed do not matter to the verifier when they are neither documents
  nor status lists.
\<close>

definition unread_files :: "cmd_env \<Rightarrow> run_flags \<Rightarrow> string set \<Rightarrow> bool" where
  "unread_files V f changed \<longleftrightarrow>
     (\<forall>d path. DocumentPath (rf_dids f) d = Inr path \<longrightarrow> path \<notin> changed) \<and>
     list_all (\<lambda>spec. case Cut CHR ''='' spec of None \<Rightarrow> True | Some (_, path) \<Rightarrow> path \<notin> changed) (rf_status f)"

lemma same_resolver:
  assumes "unread_files V f changed" and "\<And>p. p \<notin> changed \<Longrightarrow> files' p = ce_files V p"
  shows "dir_resolver (ce_doc V) files' (rf_dids f) = dir_resolver (ce_doc V) (ce_files V) (rf_dids f)"
  using assms
  by (auto simp: fun_eq_iff dir_resolver_def FileResolver_Resolve_def unread_files_def split: sum.splits option.splits)

lemma same_status_specs:
  assumes "list_all (\<lambda>spec. case Cut CHR ''='' spec of None \<Rightarrow> True | Some (_, path) \<Rightarrow> path \<notin> changed) specs"
    and "\<And>p. p \<notin> changed \<Longrightarrow> files' p = ce_files V p"
  shows "status_specs C (V\<lparr>ce_files := files'\<rparr>) dids specs fs = status_specs C V dids specs fs"
  using assms(1)
  by (induction specs arbitrary: fs)
    (auto simp: Status_Load_def assms(2) split: option.splits sum.splits)

lemma status_specs_paths:
  assumes "status_specs C V dids specs fs = Inr fs'"
    and "list_all (\<lambda>spec. case Cut CHR ''='' spec of None \<Rightarrow> True | Some (_, path) \<Rightarrow> path \<notin> changed) specs"
    and "snd ` set fs \<inter> changed = {}"
  shows "snd ` set fs' \<inter> changed = {}"
  using assms
proof (induction specs arbitrary: fs)
  case (Cons spec specs)
  from Cons.prems(1) obtain url path where c: "Cut CHR ''='' spec = Some (url, path)"
    "status_specs C V dids specs ((url, path) # fs) = Inr fs'" by (rule status_specs_Cons)
  show ?case by (rule Cons.IH [OF c(2)]) (use Cons.prems(2,3) c(1) in auto)
qed simp

lemma same_status:
  assumes "statusFlag_resolver C V dids (rf_status f) = Inr st"
    and "unread_files V f changed" and "\<And>p. p \<notin> changed \<Longrightarrow> files' p = ce_files V p"
  shows "statusFlag_resolver C (V\<lparr>ce_files := files'\<rparr>) dids (rf_status f) = Inr st"
proof (cases "rf_status f = []")
  case False
  with assms(1) obtain fs where f: "status_specs C V dids (rf_status f) [] = Inr fs" "st = Some (fileStatus V fs)"
    by (auto simp: statusFlag_resolver_def map_sum_Inr_iff)
  have u: "list_all (\<lambda>spec. case Cut CHR ''='' spec of None \<Rightarrow> True | Some (_, path) \<Rightarrow> path \<notin> changed) (rf_status f)"
    using assms(2) by (simp add: unread_files_def)
  have "path \<notin> changed" if "map_of fs url = Some path" for url path
    using status_specs_paths [OF f(1) u] map_of_SomeD [OF that] by force
  then have "fileStatus (V\<lparr>ce_files := files'\<rparr>) fs = fileStatus V fs"
    by (auto simp: fun_eq_iff fileStatus_def Status_Load_def assms(3) split: option.splits)
  then show ?thesis
    using False f same_status_specs [OF u assms(3)] by (simp add: statusFlag_resolver_def)
qed (use assms in \<open>simp add: statusFlag_resolver_def\<close>)

text \<open>The verifier's command line that the batch run suggests.\<close>

definition suggested_flags :: "run_flags \<Rightarrow> verify_flags" where
  "suggested_flags f =
     \<lparr>vf_export = rf_out f, vf_dids = rf_dids f, vf_fetchDIDs = False, vf_didHosts = [], vf_color = ''never'',
      vf_status = rf_status f\<rparr>"


text \<open>The sample batch ends well: whatever its one request is answered, the log can be exported.\<close>

lemma sample_batch_runs:
  obtains ch pd ex r where "loadRequests toy_crypto (sample_cmd ch (\<lambda>x. if x = ex then Some [] else None) sample_serve) ''/req'' sample_keystore = Inr [pd]"
    "pd_approver pd = None" "\<exists>c. lk_Credential ` set (Links (pd_chain pd)) = {c}"
    "cmdRun toy_crypto q T world (sample_cmd ch (\<lambda>x. if x = ex then Some [] else None) sample_serve) sample_run_flags =
       (Inr r, [''out''])" "br_export r = [char_of (10 :: nat)]"
    "list_all (\<lambda>e. e_Approval e = []) (Proxy_Entries (br_proxy r))" "length (br_lines r) = 1"
proof -
  obtain ch pd where b: "\<And>m cfg. loadRequests toy_crypto (sample_cmd ch m cfg) ''/req'' sample_keystore = Inr [pd]"
    "pd_approver pd = None" "\<exists>c. lk_Credential ` set (Links (pd_chain pd)) = {c}" by (rule sample_batch) blast
  let ?V = "\<lambda>m. sample_cmd ch m sample_serve" and ?ep = "toy_signer ''did:web:a.example'' CHR ''3''"
  have same: "buildProxy toy_crypto (?V m) ''/p'' ''/pub'' ?ep [] False None = buildProxy toy_crypto (?V m') ''/p'' ''/pub'' ?ep [] False None" for m m'
    unfolding buildProxy_def Policy_Load_def statusFlag_none sample_cmd_selectors by (rule refl)
  obtain px where px: "\<And>m. buildProxy toy_crypto (?V m) ''/p'' ''/pub'' ?ep [] False None = Inr px"
    using sample_cmd_proxy [of None ch "\<lambda>_. None" sample_serve ?ep False] same by (metis option.distinct(1))
  obtain ls p' where r: "run_batch toy_crypto q T (\<lambda>i. (fst (world i), snd (world i))) 0 [pd] px = (ls, p')" by fastforce
  have new: "p_enforcementPoint px = ?ep" "Proxy_Entries px = []"
    using px [of "\<lambda>_. None"] by (auto simp: buildProxy_def NewProxy_def fresh_proxy_def Proxy_Entries_def Entries_def NewLog_def Let_def split: sum.splits option.splits if_splits)
  have "p_enforcementPoint p' = ?ep"
    using run_batch_carries [of toy_crypto q T "\<lambda>i. (fst (world i), snd (world i))" 0 "[pd]" px] r new(1) by simp
  then obtain ex where ex: "Proxy_Export toy_crypto p' = Inr ex"
    by (auto simp: Proxy_Export_def Export_Build_def toy_signer_def)
  let ?m = "\<lambda>x. if x = ex then Some [] else None"
  have run: "cmdRun toy_crypto q T world (?V ?m) sample_run_flags =
     (Inr \<lparr>br_lines = ls, br_export = [char_of (10 :: nat)], br_proxy = p'\<rparr>, [''out''])"
    using b(1) px r ex
    by (simp add: cmdRun_def sample_run_flags_def parseNow_def buildSink_def buildWAL_def sample_cmd_signer writeExport_def) (simp add: sample_cmd_def)
  have ap: "list_all (\<lambda>e. e_Approval e = []) (Proxy_Entries p')"
    using run_batch_no_approvals [of "[pd]" px toy_crypto q T "\<lambda>i. (fst (world i), snd (world i))" 0] b(2) new(2) r by simp
  have "length ls = 1" using r by (auto split: sum.splits prod.splits)
  with that [OF b(1) b(2) b(3) run] ap show thesis by simp
qed


end
