(* ===== verification/Daemon.thy ===== *)
theory Daemon
  imports Proxy_Cmd
begin

text \<open>
  \<^verbatim>\<open>kessa-issuer daemon\<close> (\<^verbatim>\<open>cmd/issuer/daemon.go\<close>, \<^verbatim>\<open>cmd/issuer/config.go\<close>): where the keys come from,
  and where the socket may live.  The state is a file tree with permissions; every state it
  passes through is kept, newest first.  Symbolic links are not modelled.  The lemmas show
  which keys are brokered, that a directory which was found is never changed, that the socket
  is never reachable by others, and what \<^verbatim>\<open>--check-config\<close> predicts.
\<close>

section \<open>Configuration\<close>

definition daemon_schema :: "gofield list" where
  "daemon_schema =
     [GField ''Comment'' ''comment,omitempty'' [] True False GBasic,
      GField ''Sock'' ''sock'' ''sock'' True False GBasic,
      GField ''Keystore'' ''keystore,omitempty'' ''keystore'' True False GBasic,
      GField ''Mapping'' ''mapping,omitempty'' ''mapping'' True False GBasic,
      GField ''AttestationKeys'' ''attestation_keys,omitempty'' ''attestation-key'' True False (GSlice GBasic)]"

record DaemonConfig =
  dn_Sock :: string
  dn_Keystore :: string
  dn_Mapping :: string
  dn_AttestationKeys :: "DID list"

definition daemonSchemaFlags :: "string set" where
  "daemonSchemaFlags = FlagNames (GStruct daemon_schema)"

definition daemonConflictingFlags :: "string list \<Rightarrow> string list" where
  "daemonConflictingFlags given = Conflicting given daemonSchemaFlags"

datatype daemon_cmd_err =
    DaemonConflict "string list"
  | DaemonConfigFailed config_err
  | SockRequired
  | NoDaemonKeySource
  | AttestationNeedsKeystore
  | EmptyAttestationDID
  | CheckWithoutConfig
  | DaemonKeystoreFailed config_err
  | AttestationUnknown DID
  | SeedFailed keystore_err
  | MappingFailed enroll_err
  | EnrolledLoad DID string
  | SoftwareEnrolled DID
  | UnknownBackend DID string
  | NoKeys
  | KeySetRefused keys_err
  | SocketDirCreate string
  | SocketDirSecure string
  | SocketDirStat string
  | SocketDirNotDir string
  | SocketDirMode string "9 word"
  | SocketParentMissing string string
  | AlreadyListening string
  | StaleRemove string
  | ListenFailed string
  | SocketSecure string

definition DaemonConfig_validate :: "DaemonConfig \<Rightarrow> daemon_cmd_err + unit" where
  "DaemonConfig_validate c =
     (if TrimSpace (dn_Sock c) = [] then Inl SockRequired
      else if TrimSpace (dn_Keystore c) = [] \<and> TrimSpace (dn_Mapping c) = [] then Inl NoDaemonKeySource
      else if dn_AttestationKeys c \<noteq> [] \<and> TrimSpace (dn_Keystore c) = [] then Inl AttestationNeedsKeystore
      else if list_ex (\<lambda>d. TrimSpace d = []) (dn_AttestationKeys c) then Inl EmptyAttestationDID
      else Inr ())"

section \<open>Keys\<close>

text \<open>
  The outside of the command: files, decoders, the keychain.  A keystore file is decoded to its
  members.
\<close>

record daemon_world =
  dw_files :: "string \<rightharpoonup> bytes"
  dw_parse :: "bytes \<Rightarrow> document"
  dw_config :: "json \<Rightarrow> DaemonConfig option"
  dw_keystore :: "json \<Rightarrow> (DID \<times> string) list option"
  dw_enroll :: enroll_env
  dw_load :: "DID \<Rightarrow> string \<Rightarrow> held_signer option"
  dw_uid :: "32 word"

definition loadDaemonConfig :: "daemon_world \<Rightarrow> string \<Rightarrow> daemon_cmd_err + DaemonConfig" where
  "loadDaemonConfig W path =
     (case config_Load (GPtr (GStruct daemon_schema)) (dw_config W) (dw_parse W) (dw_files W) path of
        Inl e \<Rightarrow> Inl (DaemonConfigFailed e)
      | Inr cfg \<Rightarrow> (case DaemonConfig_validate cfg of Inl e \<Rightarrow> Inl e | Inr _ \<Rightarrow> Inr cfg))"

definition loadJSON :: "gotype \<Rightarrow> (json \<Rightarrow> 'v option) \<Rightarrow> (bytes \<Rightarrow> document) \<Rightarrow> (string \<rightharpoonup> bytes) \<Rightarrow> string \<Rightarrow> config_err + 'v" where
  "loadJSON t decode parse files path =
     (case files path of
        None \<Rightarrow> Inl (ConfigRead path)
      | Some data \<Rightarrow> map_err (ConfigParse path) (DecodeStrict t decode (parse data)))"

definition keystore_Principals :: "(DID \<times> string) list \<Rightarrow> DID list" where
  "keystore_Principals ks = sort (remdups (filter (\<lambda>d. HasPrefix d ''did:'') (map fst ks)))"

fun keystore_held :: "crypto \<Rightarrow> (DID \<times> string) list \<Rightarrow> DID list \<Rightarrow> DID list \<Rightarrow> daemon_cmd_err + HeldKey list" where
  "keystore_held C ks attest [] = Inr []"
| "keystore_held C ks attest (d # ds) =
     (case keystore_Signer C (map_of ks) d of
        Inl e \<Rightarrow> Inl (SeedFailed e)
      | Inr sg \<Rightarrow>
          map_sum id (\<lambda>keys. \<lparr>hk_Signer = Some \<lparr>hs_Signer = sg, hs_Hardware = None\<rparr>,
            hk_Policy = (if d \<in> set attest then Attestation else Routine)\<rparr> # keys) (keystore_held C ks attest ds))"

definition keystoreKeys :: "crypto \<Rightarrow> (DID \<times> string) list \<Rightarrow> DID list \<Rightarrow> daemon_cmd_err + HeldKey list" where
  "keystoreKeys C ks attest =
     (case find (\<lambda>d. map_of ks d = None) attest of
        Some d \<Rightarrow> Inl (AttestationUnknown d)
      | None \<Rightarrow> keystore_held C ks attest (keystore_Principals ks))"

definition Identities :: "Mapping \<Rightarrow> string list" where
  "Identities m = sort (map fst (mp_Employees m))"

definition mapped_credentials :: "Mapping \<Rightarrow> DeviceCredential list" where
  "mapped_credentials m =
     concat (map (\<lambda>i. case map_of (mp_Employees m) i of None \<Rightarrow> [] | Some e \<Rightarrow> em_Credentials e) (Identities m))"

fun enrolled_held :: "daemon_world \<Rightarrow> DeviceCredential list \<Rightarrow> daemon_cmd_err + HeldKey list" where
  "enrolled_held W [] = Inr []"
| "enrolled_held W (c # cs) =
     (if dc_Revoked c then enrolled_held W cs
      else if dc_KeyBackend c = backendSecureEnclave then
        (case dw_load W (dc_DID c) (dc_KeyTag c) of
           None \<Rightarrow> Inl (EnrolledLoad (dc_DID c) (dc_KeyTag c))
         | Some s \<Rightarrow> map_sum id (\<lambda>keys. \<lparr>hk_Signer = Some s, hk_Policy = Approval\<rparr> # keys) (enrolled_held W cs))
      else if dc_KeyBackend c = backendSoftware then Inl (SoftwareEnrolled (dc_DID c))
      else Inl (UnknownBackend (dc_DID c) (dc_KeyBackend c)))"

definition loadEnrolledKeys :: "daemon_world \<Rightarrow> string \<Rightarrow> daemon_cmd_err + HeldKey list" where
  "loadEnrolledKeys W path =
     (case LoadMapping (dw_enroll W) (dw_files W) path of
        Inl e \<Rightarrow> Inl (MappingFailed e)
      | Inr m \<Rightarrow> enrolled_held W (mapped_credentials m))"

definition heldKeysSorted :: "HeldKey list \<Rightarrow> HeldKey list" where
  "heldKeysSorted keys = sort_key (\<lambda>k. held_DID (the (hk_Signer k))) keys"

section \<open>The socket\<close>

datatype fnode = FDir "9 word" | FFile "9 word" | FSock "9 word"

type_synonym nodes = "string \<rightharpoonup> fnode"

record os_env =
  os_umask :: "9 word"
  os_stats :: "string \<Rightarrow> bool"
  os_permits :: "string \<Rightarrow> bool"
  os_chmods :: "string \<Rightarrow> bool"
  os_answers :: "string \<Rightarrow> bool"

definition filepath_Dir :: "string \<Rightarrow> string" where
  "filepath_Dir path = Clean (rev (dropWhile (\<lambda>c. c \<noteq> CHR ''/'') (rev path)))"

definition is_dir :: "nodes \<Rightarrow> string \<Rightarrow> bool" where
  "is_dir fs path = (case fs path of Some (FDir _) \<Rightarrow> True | _ \<Rightarrow> False)"

fun perm_of :: "fnode \<Rightarrow> 9 word" where
  "perm_of (FDir p) = p"
| "perm_of (FFile p) = p"
| "perm_of (FSock p) = p"

fun set_perm :: "9 word \<Rightarrow> fnode \<Rightarrow> fnode" where
  "set_perm p (FDir _) = FDir p"
| "set_perm p (FFile _) = FFile p"
| "set_perm p (FSock _) = FSock p"

datatype stat_result = StatAbsent | StatFailed | StatFound fnode

text \<open>A path below something that is not a directory is an error, not an absence.\<close>

definition os_Stat :: "os_env \<Rightarrow> nodes \<Rightarrow> string \<Rightarrow> stat_result" where
  "os_Stat E fs path =
     (if \<not> os_stats E path \<or> fs (filepath_Dir path) \<noteq> None \<and> \<not> is_dir fs (filepath_Dir path) then StatFailed
      else case fs path of None \<Rightarrow> StatAbsent | Some n \<Rightarrow> StatFound n)"

datatype mkdir_result = MkdirExists | MkdirFailed | MkdirDone nodes

definition os_Mkdir :: "os_env \<Rightarrow> nodes \<Rightarrow> string \<Rightarrow> 9 word \<Rightarrow> mkdir_result" where
  "os_Mkdir E fs path perm =
     (if fs path \<noteq> None then MkdirExists
      else if \<not> is_dir fs (filepath_Dir path) \<or> \<not> os_permits E path then MkdirFailed
      else MkdirDone (fs(path \<mapsto> FDir (and perm (not (os_umask E))))))"

definition os_Chmod :: "os_env \<Rightarrow> nodes \<Rightarrow> string \<Rightarrow> 9 word \<Rightarrow> nodes option" where
  "os_Chmod E fs path perm =
     (if os_chmods E path then (case fs path of None \<Rightarrow> None | Some n \<Rightarrow> Some (fs(path \<mapsto> set_perm perm n))) else None)"

definition net_Listen :: "os_env \<Rightarrow> nodes \<Rightarrow> string \<Rightarrow> nodes option" where
  "net_Listen E fs sock =
     (if fs sock \<noteq> None \<or> \<not> is_dir fs (filepath_Dir sock) \<or> \<not> os_permits E sock then None
      else Some (fs(sock \<mapsto> FSock (and 0x1FF (not (os_umask E))))))"

text \<open>The octal modes 0700 and 0600.\<close>

definition mode_0700 :: "9 word" where "mode_0700 = 0x1C0"
definition mode_0600 :: "9 word" where "mode_0600 = 0x180"

definition checkSocketDir :: "string \<Rightarrow> fnode \<Rightarrow> daemon_cmd_err + unit" where
  "checkSocketDir dir n =
     (case n of
        FDir perm \<Rightarrow> if perm \<noteq> mode_0700 then Inl (SocketDirMode dir perm) else Inr ()
      | _ \<Rightarrow> Inl (SocketDirNotDir dir))"

definition prepareSocketDir :: "os_env \<Rightarrow> string \<Rightarrow> nodes \<Rightarrow> (daemon_cmd_err + unit) \<times> nodes list" where
  "prepareSocketDir E dir fs =
     (case os_Mkdir E fs dir mode_0700 of
        MkdirDone fs1 \<Rightarrow>
          (case os_Chmod E fs1 dir mode_0700 of
             None \<Rightarrow> (Inl (SocketDirSecure dir), [fs1, fs])
           | Some fs2 \<Rightarrow> (Inr (), [fs2, fs1, fs]))
      | MkdirExists \<Rightarrow>
          ((case os_Stat E fs dir of
              StatFound n \<Rightarrow> checkSocketDir dir n
            | _ \<Rightarrow> Inl (SocketDirStat dir)), [fs])
      | MkdirFailed \<Rightarrow> (Inl (SocketDirCreate dir), [fs]))"

datatype dir_state = WillCreate | LeftAsFound

definition socketDirState :: "os_env \<Rightarrow> string \<Rightarrow> nodes \<Rightarrow> daemon_cmd_err + dir_state" where
  "socketDirState E dir fs =
     (case os_Stat E fs dir of
        StatAbsent \<Rightarrow>
          (case os_Stat E fs (filepath_Dir dir) of
             StatFound _ \<Rightarrow> Inr WillCreate
           | _ \<Rightarrow> Inl (SocketParentMissing dir (filepath_Dir dir)))
      | StatFailed \<Rightarrow> Inl (SocketDirStat dir)
      | StatFound n \<Rightarrow> (case checkSocketDir dir n of Inl e \<Rightarrow> Inl e | Inr _ \<Rightarrow> Inr LeftAsFound))"

text \<open>Binding and tightening; closing the listener after a failed \<^verbatim>\<open>chmod\<close> unlinks the socket.\<close>

definition bind_socket :: "os_env \<Rightarrow> string \<Rightarrow> nodes list \<Rightarrow> (daemon_cmd_err + unit) \<times> nodes list" where
  "bind_socket E sock hist =
     (case net_Listen E (hd hist) sock of
        None \<Rightarrow> (Inl (ListenFailed sock), hist)
      | Some fs1 \<Rightarrow>
          (case os_Chmod E fs1 sock mode_0600 of
             None \<Rightarrow> (Inl (SocketSecure sock), fs1(sock := None) # fs1 # hist)
           | Some fs2 \<Rightarrow> (Inr (), fs2 # fs1 # hist)))"

definition listen :: "os_env \<Rightarrow> string \<Rightarrow> nodes \<Rightarrow> (daemon_cmd_err + unit) \<times> nodes list" where
  "listen E sock fs =
     (case prepareSocketDir E (filepath_Dir sock) fs of
        (Inl e, hist) \<Rightarrow> (Inl e, hist)
      | (Inr _, hist) \<Rightarrow>
          (case os_Stat E (hd hist) sock of
             StatFound _ \<Rightarrow>
               if os_answers E sock then (Inl (AlreadyListening sock), hist)
               else if \<not> os_permits E sock then (Inl (StaleRemove sock), hist)
               else bind_socket E sock ((hd hist)(sock := None) # hist)
           | _ \<Rightarrow> bind_socket E sock hist))"

definition defaultSockPath :: "string \<Rightarrow> string option \<Rightarrow> string \<Rightarrow> string" where
  "defaultSockPath runtimeDir home tempDir =
     (if runtimeDir \<noteq> [] then filepath_Join [runtimeDir, ''kessa'', ''issuer.sock'']
      else filepath_Join [case home of Some h \<Rightarrow> h | None \<Rightarrow> tempDir, ''.kessa'', ''issuer.sock''])"

section \<open>The command\<close>

record daemon_flags =
  df_keystore :: string
  df_mapping :: string
  df_sock :: string
  df_config :: string
  df_checkConfig :: bool
  df_attest :: "DID list"
  df_given :: "string list"

datatype daemon_outcome = DaemonChecked dir_state "HeldKey list" | Brokering Server "HeldKey list"

definition daemon_settings :: "daemon_world \<Rightarrow> daemon_flags \<Rightarrow> daemon_cmd_err + daemon_flags" where
  "daemon_settings W f =
     (if df_config f \<noteq> [] then
        (if daemonConflictingFlags (df_given f) \<noteq> [] then Inl (DaemonConflict (daemonConflictingFlags (df_given f)))
         else map_sum id (\<lambda>cfg. f\<lparr>df_keystore := dn_Keystore cfg, df_mapping := dn_Mapping cfg, df_sock := dn_Sock cfg,
                df_attest := dn_AttestationKeys cfg\<rparr>) (loadDaemonConfig W (df_config f)))
      else if df_checkConfig f then Inl CheckWithoutConfig
      else Inr f)"

definition daemon_keys :: "crypto \<Rightarrow> daemon_world \<Rightarrow> daemon_flags \<Rightarrow> daemon_cmd_err + HeldKey list" where
  "daemon_keys C W st =
     (case (if df_keystore st = [] then Inr []
            else case loadJSON (GPtr (GMap GBasic)) (dw_keystore W) (dw_parse W) (dw_files W) (df_keystore st) of
                Inl e \<Rightarrow> Inl (DaemonKeystoreFailed e)
              | Inr ks \<Rightarrow> keystoreKeys C ks (df_attest st)) of
        Inl e \<Rightarrow> Inl e
      | Inr kk \<Rightarrow>
          (case (if df_mapping st = [] then Inr [] else loadEnrolledKeys W (df_mapping st)) of
             Inl e \<Rightarrow> Inl e
           | Inr hk \<Rightarrow> Inr (kk @ hk)))"

definition daemon_server :: "crypto \<Rightarrow> daemon_world \<Rightarrow> daemon_flags \<Rightarrow> daemon_cmd_err + Server \<times> HeldKey list" where
  "daemon_server C W st =
     (if df_keystore st = [] \<and> df_mapping st = [] then Inl NoDaemonKeySource
      else if df_attest st \<noteq> [] \<and> df_keystore st = [] then Inl AttestationNeedsKeystore
      else case daemon_keys C W st of
          Inl e \<Rightarrow> Inl e
        | Inr keys \<Rightarrow>
            if keys = [] then Inl NoKeys
            else (case NewKeys (dw_uid W) keys of Inl e \<Rightarrow> Inl (KeySetRefused e) | Inr sv \<Rightarrow> Inr (sv, keys)))"

definition cmdDaemon ::
  "crypto \<Rightarrow> daemon_world \<Rightarrow> os_env \<Rightarrow> daemon_flags \<Rightarrow> nodes \<Rightarrow> (daemon_cmd_err + daemon_outcome) \<times> nodes list" where
  "cmdDaemon C W E f fs =
     (case daemon_settings W f of
        Inl e \<Rightarrow> (Inl e, [fs])
      | Inr st \<Rightarrow>
      (case daemon_server C W st of
        Inl e \<Rightarrow> (Inl e, [fs])
      | Inr (sv, keys) \<Rightarrow>
          if df_checkConfig st then
            (map_sum id (\<lambda>ds. DaemonChecked ds (heldKeysSorted keys)) (socketDirState E (filepath_Dir (df_sock st)) fs), [fs])
          else (case listen E (df_sock st) fs of
              (Inl e, hist) \<Rightarrow> (Inl e, hist)
            | (Inr _, hist) \<Rightarrow> (Inr (Brokering sv (heldKeysSorted keys)), hist))))"

section \<open>The socket is never exposed\<close>

lemma prepareSocketDir_states:
  assumes "prepareSocketDir E dir fs = (r, hist)"
  shows "hist \<noteq> []" "s \<in> set hist \<Longrightarrow> p \<noteq> dir \<Longrightarrow> s p = fs p" "s \<in> set hist \<Longrightarrow> fs dir \<noteq> None \<Longrightarrow> s dir = fs dir"
    "r = Inr () \<Longrightarrow> hd hist dir = Some (FDir mode_0700)"
  using assms
  by (auto simp: prepareSocketDir_def os_Mkdir_def os_Chmod_def os_Stat_def checkSocketDir_def
      split: mkdir_result.splits option.splits if_splits stat_result.splits fnode.splits)

text \<open>States that leave everything but the socket alone, below a private directory.\<close>

definition guarded :: "string \<Rightarrow> nodes \<Rightarrow> nodes \<Rightarrow> bool" where
  "guarded sock fs s \<longleftrightarrow>
     (\<forall>p. p \<noteq> sock \<and> p \<noteq> filepath_Dir sock \<longrightarrow> s p = fs p) \<and>
     (fs (filepath_Dir sock) \<noteq> None \<longrightarrow> s (filepath_Dir sock) = fs (filepath_Dir sock)) \<and>
     (s sock = fs sock \<or> s (filepath_Dir sock) = Some (FDir mode_0700))"

lemma guarded_update:
  assumes "guarded sock fs s" and "s (filepath_Dir sock) = Some (FDir mode_0700)" and "filepath_Dir sock \<noteq> sock"
  shows "guarded sock fs (s(sock := n))"
  using assms by (auto simp: guarded_def)

lemma bind_socket_states:
  assumes "bind_socket E sock hist = (r, hist')" and "hist \<noteq> []" and "\<forall>s \<in> set hist. guarded sock fs s"
    and "hd hist (filepath_Dir sock) = Some (FDir mode_0700)" and "filepath_Dir sock \<noteq> sock"
  shows "\<forall>s \<in> set hist'. guarded sock fs s"
    "r = Inr () \<Longrightarrow> hd hist' sock = Some (FSock mode_0600) \<and> hd hist' (filepath_Dir sock) = Some (FDir mode_0700)"
proof -
  have h: "guarded sock fs ((hd hist)(sock := n))" for n
    using assms(2-5) guarded_update by simp
  have t: "(hd hist)(sock := m, sock := n) = (hd hist)(sock := n)" for m n by simp
  from assms(1) consider "hist' = hist" "r \<noteq> Inr ()"
    | m n where "hist' = (hd hist)(sock := n) # (hd hist)(sock := m) # hist" "r = Inr () \<longrightarrow> n = Some (FSock mode_0600)"
    by (auto simp: bind_socket_def net_Listen_def os_Chmod_def split: option.splits if_splits)
  then show "\<forall>s \<in> set hist'. guarded sock fs s"
    "r = Inr () \<Longrightarrow> hd hist' sock = Some (FSock mode_0600) \<and> hd hist' (filepath_Dir sock) = Some (FDir mode_0700)"
    using h assms(3-5) by (cases; simp)+
qed

lemma listen_guarded:
  assumes "listen E sock fs = (r, hist)" and "filepath_Dir sock \<noteq> sock"
  shows "\<forall>s \<in> set hist. guarded sock fs s"
    "r = Inr () \<Longrightarrow> hd hist sock = Some (FSock mode_0600) \<and> hd hist (filepath_Dir sock) = Some (FDir mode_0700)"
proof -
  obtain r1 h1 where p: "prepareSocketDir E (filepath_Dir sock) fs = (r1, h1)" by fastforce
  note ps = prepareSocketDir_states [OF p]
  have g1: "\<forall>s \<in> set h1. guarded sock fs s" using ps(2,3) assms(2) unfolding guarded_def by (metis)
  have "(\<forall>s \<in> set hist. guarded sock fs s) \<and>
    (r = Inr () \<longrightarrow> hd hist sock = Some (FSock mode_0600) \<and> hd hist (filepath_Dir sock) = Some (FDir mode_0700))"
  proof (cases r1)
    case (Inl e)
    with assms(1) p g1 show ?thesis by (auto simp: listen_def)
  next
    case (Inr u)
    then have d: "hd h1 (filepath_Dir sock) = Some (FDir mode_0700)" using ps(4) by simp
    have g2: "\<forall>s \<in> set ((hd h1)(sock := None) # h1). guarded sock fs s"
      using g1 guarded_update [of sock fs "hd h1" None] d assms(2) ps(1) by simp
    have d2: "hd ((hd h1)(sock := None) # h1) (filepath_Dir sock) = Some (FDir mode_0700)" using d assms(2) by simp
    from assms(1) p Inr consider "hist = h1" "r \<noteq> Inr ()" | "bind_socket E sock h1 = (r, hist)"
      | "bind_socket E sock ((hd h1)(sock := None) # h1) = (r, hist)"
      by (auto simp: listen_def split: stat_result.splits if_splits)
    then show ?thesis
      using bind_socket_states [OF _ ps(1) g1 d assms(2)] bind_socket_states [OF _ _ g2 d2 assms(2)] g1
      by cases auto
  qed
  then show "\<forall>s \<in> set hist. guarded sock fs s"
    "r = Inr () \<Longrightarrow> hd hist sock = Some (FSock mode_0600) \<and> hd hist (filepath_Dir sock) = Some (FDir mode_0700)" by blast+
qed

text \<open>
  C30. The daemon stays inside its own footprint, and its socket is never exposed.  In every state
  it passes through, whether or not it starts, only the socket and the socket's directory may
  differ from what it found; a directory that existed keeps its mode; and whenever there is a
  socket that was not there before, even between binding and tightening, its directory has mode
  0700.  Once it brokers, the socket has mode 0600.
\<close>

theorem daemon_socket_guarded:
  assumes "cmdDaemon C W E f fs = (r, hist)" and "daemon_settings W f = Inr st" and "filepath_Dir (df_sock st) \<noteq> df_sock st"
  shows "(\<forall>s \<in> set hist.
      (\<forall>p. p \<noteq> df_sock st \<and> p \<noteq> filepath_Dir (df_sock st) \<longrightarrow> s p = fs p) \<and>
      (fs (filepath_Dir (df_sock st)) \<noteq> None \<longrightarrow> s (filepath_Dir (df_sock st)) = fs (filepath_Dir (df_sock st))) \<and>
      (s (df_sock st) = fs (df_sock st) \<or> s (filepath_Dir (df_sock st)) = Some (FDir mode_0700))) \<and>
    (\<forall>sv keys. r = Inr (Brokering sv keys) \<longrightarrow>
      hd hist (df_sock st) = Some (FSock mode_0600) \<and> hd hist (filepath_Dir (df_sock st)) = Some (FDir mode_0700))"
proof -
  obtain r1 h1 where l: "listen E (df_sock st) fs = (r1, h1)" by fastforce
  from assms(1,2) l consider "hist = [fs]" "\<nexists>sv keys. r = Inr (Brokering sv keys)"
    | "hist = h1" "\<forall>sv keys. r = Inr (Brokering sv keys) \<longrightarrow> r1 = Inr ()"
    by (auto simp: cmdDaemon_def map_sum_Inr_iff split: sum.splits if_splits prod.splits)
  then show ?thesis
    using listen_guarded [OF l assms(3)] by cases (auto simp: guarded_def)
qed

text \<open>Whatever is found at the socket's path and does not answer is removed, also when it is not a socket.\<close>

lemma listen_replaces_any_file:
  assumes "fs (filepath_Dir sock) = Some (FDir mode_0700)" and "filepath_Dir sock \<noteq> sock" and "fs sock = Some (FFile p)"
    and "\<not> os_answers E sock" and "os_permits E sock" and "os_chmods E sock" and "os_stats E sock"
    and "os_stats E (filepath_Dir sock)" and "fs (filepath_Dir (filepath_Dir sock)) = Some (FDir q)"
  shows "fst (listen E sock fs) = Inr () \<and> hd (snd (listen E sock fs)) sock = Some (FSock mode_0600)"
  using assms
  by (simp add: listen_def prepareSocketDir_def os_Mkdir_def os_Stat_def is_dir_def checkSocketDir_def bind_socket_def
      net_Listen_def os_Chmod_def)

section \<open>Which keys are brokered\<close>

lemma find_append: "find P (xs @ ys) = (case find P xs of None \<Rightarrow> find P ys | Some x \<Rightarrow> Some x)"
  by (induction xs) auto

lemma find_name:
  assumes "\<And>x. x \<in> set xs \<Longrightarrow> name (g x) = key x"
  shows "find (\<lambda>y. name y = d) (map g xs) = map_option g (find (\<lambda>x. key x = d) xs)"
  using assms by (induction xs) auto

lemma find_SomeD: "find P xs = Some x \<Longrightarrow> x \<in> set xs \<and> P x"
  by (induction xs) (auto split: if_splits)

lemma find_member: "find (\<lambda>x. x = d) xs = (if d \<in> set xs then Some d else None)"
  by (induction xs) auto

definition seed_signer :: "crypto \<Rightarrow> (DID \<times> string) list \<Rightarrow> DID \<Rightarrow> held_signer" where
  "seed_signer C ks d =
     \<lparr>hs_Signer = (case keystore_Signer C (map_of ks) d of Inr sg \<Rightarrow> sg | Inl _ \<Rightarrow> undefined), hs_Hardware = None\<rparr>"

lemma keystore_held_ok:
  assumes "keystore_held C ks attest ds = Inr keys"
  shows "map (\<lambda>k. the (hk_Signer k)) keys = map (seed_signer C ks) ds"
    "d \<in> set ds \<Longrightarrow> \<exists>sg. keystore_Signer C (map_of ks) d = Inr sg"
  using assms
  by (induction ds arbitrary: keys) (auto simp: map_sum_Inr_iff seed_signer_def split: sum.splits)

lemma enrolled_held_ok:
  assumes "enrolled_held W cs = Inr keys"
  shows "map (\<lambda>k. the (hk_Signer k)) keys = map (\<lambda>c. the (dw_load W (dc_DID c) (dc_KeyTag c))) (filter (\<lambda>c. \<not> dc_Revoked c) cs)"
    "c \<in> set cs \<Longrightarrow> \<not> dc_Revoked c \<Longrightarrow> dc_KeyBackend c = backendSecureEnclave \<and>
       (\<exists>s. dw_load W (dc_DID c) (dc_KeyTag c) = Some s \<and> \<lparr>hk_Signer = Some s, hk_Policy = Approval\<rparr> \<in> set keys)"
  using assms
  by (induction cs arbitrary: keys) (auto simp: map_sum_Inr_iff split: if_splits option.splits)

text \<open>
  Naming a member that is no identifier, such as the comment, as an attestation key is accepted
  and changes nothing.
\<close>

lemma attestation_of_comment_ignored:
  assumes "map_of ks d \<noteq> None" and "\<not> HasPrefix d ''did:''"
  shows "keystoreKeys C ks (d # attest) = keystoreKeys C ks attest"
proof -
  have "keystore_held C ks (d # attest) ds = keystore_held C ks attest ds" if "d \<notin> set ds" for ds
    using that by (induction ds) (auto split: sum.splits)
  with assms show ?thesis by (auto simp: keystoreKeys_def keystore_Principals_def split: option.splits)
qed

text \<open>The keys given, in order: the keystore's, then those of the mapping.\<close>

lemma daemon_keys_ok:
  assumes "daemon_keys C W st = Inr keys"
  obtains ks cs kk hk where "df_keystore st = [] \<and> ks = [] \<or>
      loadJSON (GPtr (GMap GBasic)) (dw_keystore W) (dw_parse W) (dw_files W) (df_keystore st) = Inr ks"
    "df_mapping st = [] \<and> cs = [] \<or> (\<exists>m. LoadMapping (dw_enroll W) (dw_files W) (df_mapping st) = Inr m \<and> cs = mapped_credentials m)"
    "keystore_held C ks (df_attest st) (keystore_Principals ks) = Inr kk" "enrolled_held W cs = Inr hk" "keys = kk @ hk"
proof -
  have nil: "keystore_Principals [] = []" by (simp add: keystore_Principals_def)
  from assms obtain kk hk where k: "keys = kk @ hk"
    "(if df_keystore st = [] then Inr []
      else case loadJSON (GPtr (GMap GBasic)) (dw_keystore W) (dw_parse W) (dw_files W) (df_keystore st) of
          Inl e \<Rightarrow> Inl (DaemonKeystoreFailed e) | Inr ks \<Rightarrow> keystoreKeys C ks (df_attest st)) = Inr kk"
    "(if df_mapping st = [] then Inr [] else loadEnrolledKeys W (df_mapping st)) = Inr hk"
    unfolding daemon_keys_def by (auto split: sum.splits)
  have "\<exists>ks. (df_keystore st = [] \<and> ks = [] \<or>
      loadJSON (GPtr (GMap GBasic)) (dw_keystore W) (dw_parse W) (dw_files W) (df_keystore st) = Inr ks) \<and>
    keystore_held C ks (df_attest st) (keystore_Principals ks) = Inr kk"
  proof (cases "df_keystore st = []")
    case True
    with k(2) nil show ?thesis by (intro exI [of _ "[]"]) simp
  next
    case False
    with k(2) show ?thesis by (auto simp: keystoreKeys_def split: sum.splits option.splits)
  qed
  moreover have "\<exists>cs. (df_mapping st = [] \<and> cs = [] \<or>
      (\<exists>m. LoadMapping (dw_enroll W) (dw_files W) (df_mapping st) = Inr m \<and> cs = mapped_credentials m)) \<and> enrolled_held W cs = Inr hk"
  proof (cases "df_mapping st = []")
    case True
    with k(3) show ?thesis by (intro exI [of _ "[]"]) simp
  next
    case False
    with k(3) show ?thesis by (auto simp: loadEnrolledKeys_def split: sum.splits)
  qed
  ultimately show thesis using k(1) that by blast
qed

lemma NewKeys_lookup:
  assumes "NewKeys uid ks = Inr sv"
  shows "Server_lookup sv d = find (\<lambda>s. held_DID s = d) (rev (map (\<lambda>k. the (hk_Signer k)) ks))" "list_all acceptable ks"
  using assms unfolding NewKeys_exact Server_lookup_def by (auto simp: keys.look_fold split: option.splits)

text \<open>What is relied on of the secure element: a key loaded for an identifier has that identifier.\<close>

definition enclave_names :: "daemon_world \<Rightarrow> bool" where
  "enclave_names W \<longleftrightarrow> (\<forall>d tag s. dw_load W d tag = Some s \<longrightarrow> held_DID s = d)"

text \<open>
  C33. What is brokered.  A key loaded from the keychain has the identifier it was loaded for; then
  for every identifier the daemon answers with the key of the last credential enrolled for it
  that is not revoked, otherwise with the key of the keystore's seed, and otherwise not at
  all.  Every brokered enrolled identifier was enrolled in the secure element, and its key is
  hardware backed, also when the keystore holds a seed for the same identifier.
\<close>

theorem daemon_brokers_exact:
  assumes "cmdDaemon C W E f fs = (Inr (Brokering sv keys), hist)" and "crypto_laws C"
    and "enclave_names W"
  shows "\<exists>st ks cs. daemon_settings W f = Inr st \<and>
    (df_keystore st = [] \<and> ks = [] \<or>
     loadJSON (GPtr (GMap GBasic)) (dw_keystore W) (dw_parse W) (dw_files W) (df_keystore st) = Inr ks) \<and>
    (df_mapping st = [] \<and> cs = [] \<or>
     (\<exists>m. LoadMapping (dw_enroll W) (dw_files W) (df_mapping st) = Inr m \<and> cs = filter (\<lambda>c. \<not> dc_Revoked c) (mapped_credentials m))) \<and>
    (\<forall>d. Server_lookup sv d =
       (case find (\<lambda>c. dc_DID c = d) (rev cs) of
          Some c \<Rightarrow> dw_load W d (dc_KeyTag c)
        | None \<Rightarrow> if d \<in> set (keystore_Principals ks) then Some (seed_signer C ks d) else None)) \<and>
    (\<forall>c \<in> set cs. dc_KeyBackend c = backendSecureEnclave \<and>
       (\<exists>s. Server_lookup sv (dc_DID c) = Some s \<and> isHardwareBacked s))"
proof -
  from assms(1) obtain st keys' where st: "daemon_settings W f = Inr st" and k: "daemon_keys C W st = Inr keys'"
    and n: "NewKeys (dw_uid W) keys' = Inr sv"
    by (auto simp: cmdDaemon_def daemon_server_def map_sum_Inr_iff split: sum.splits if_splits prod.splits)
  from k obtain ks cs kk hk where o: "df_keystore st = [] \<and> ks = [] \<or>
      loadJSON (GPtr (GMap GBasic)) (dw_keystore W) (dw_parse W) (dw_files W) (df_keystore st) = Inr ks"
    "df_mapping st = [] \<and> cs = [] \<or> (\<exists>m. LoadMapping (dw_enroll W) (dw_files W) (df_mapping st) = Inr m \<and> cs = mapped_credentials m)"
    and kk: "keystore_held C ks (df_attest st) (keystore_Principals ks) = Inr kk" and hk: "enrolled_held W cs = Inr hk"
    and keys': "keys' = kk @ hk" by (rule daemon_keys_ok)
  let ?cs = "filter (\<lambda>c. \<not> dc_Revoked c) cs" and ?load = "\<lambda>c. the (dw_load W (dc_DID c) (dc_KeyTag c))"
  have load: "dw_load W (dc_DID c) (dc_KeyTag c) = Some (?load c) \<and> held_DID (?load c) = dc_DID c" if "c \<in> set (rev ?cs)" for c
    using enrolled_held_ok(2) [OF hk, of c] that assms(3) by (auto simp: enclave_names_def)
  have seed: "held_DID (seed_signer C ks d) = d" if "d \<in> set (rev (keystore_Principals ks))" for d
    using keystore_held_ok(2) [OF kk, of d] that keystore_Signer_ok(2) [OF _ assms(2)] by (auto simp: seed_signer_def)
  have look: "Server_lookup sv d =
      (case find (\<lambda>c. dc_DID c = d) (rev ?cs) of
         Some c \<Rightarrow> dw_load W d (dc_KeyTag c)
       | None \<Rightarrow> if d \<in> set (keystore_Principals ks) then Some (seed_signer C ks d) else None)" for d
  proof -
    have e: "find (\<lambda>y. held_DID y = d) (map ?load (rev ?cs)) = map_option ?load (find (\<lambda>c. dc_DID c = d) (rev ?cs))"
      by (rule find_name) (use load in blast)
    have p: "find (\<lambda>y. held_DID y = d) (map (seed_signer C ks) (rev (keystore_Principals ks))) =
        map_option (seed_signer C ks) (find (\<lambda>x. x = d) (rev (keystore_Principals ks)))"
      by (rule find_name) (use seed in blast)
    have "Server_lookup sv d = find (\<lambda>y. held_DID y = d) (map ?load (rev ?cs) @ map (seed_signer C ks) (rev (keystore_Principals ks)))"
      by (simp add: NewKeys_lookup(1) [OF n] keys' keystore_held_ok(1) [OF kk] enrolled_held_ok(1) [OF hk] rev_map)
    with e p load show ?thesis by (auto simp: find_append find_member dest: find_SomeD split: option.split)
  qed
  have "dc_KeyBackend c = backendSecureEnclave \<and> (\<exists>s. Server_lookup sv (dc_DID c) = Some s \<and> isHardwareBacked s)"
    if c: "c \<in> set ?cs" for c
  proof -
    obtain c' where c': "find (\<lambda>c'. dc_DID c' = dc_DID c) (rev ?cs) = Some c'"
      using c by (metis (mono_tags, lifting) find_None_iff not_None_eq set_rev)
    then have m: "c' \<in> set ?cs" "dc_DID c' = dc_DID c" using find_SomeD by fastforce+
    with enrolled_held_ok(2) [OF hk, of c'] obtain s where s: "dw_load W (dc_DID c) (dc_KeyTag c') = Some s"
      "\<lparr>hk_Signer = Some s, hk_Policy = Approval\<rparr> \<in> set keys'" by (auto simp: keys')
    then have "isHardwareBacked s" using NewKeys_lookup(2) [OF n] by (auto simp: list_all_iff acceptable_def policy_defs)
    with s(1) c' enrolled_held_ok(2) [OF hk, of c] c show ?thesis by (simp add: look)
  qed
  with st o look show ?thesis by (intro exI [of _ st] exI [of _ ks] exI [of _ ?cs]) auto
qed

section \<open>The configuration check\<close>

definition tree :: "nodes \<Rightarrow> bool" where
  "tree fs \<longleftrightarrow> (\<forall>p. fs p \<noteq> None \<longrightarrow> is_dir fs (filepath_Dir p))"

text \<open>An operating system that refuses nothing.\<close>

definition obliging :: "os_env \<Rightarrow> bool" where
  "obliging E \<longleftrightarrow> (\<forall>p. os_stats E p \<and> os_permits E p \<and> os_chmods E p)"

lemma obliging_stat: "obliging E \<Longrightarrow> tree fs \<Longrightarrow> fs p = Some n \<Longrightarrow> os_Stat E fs p = StatFound n"
  by (auto simp: obliging_def tree_def os_Stat_def)

lemma dir_state_prepares:
  assumes "obliging E" and "tree fs"
  shows "is_ok (socketDirState E dir fs) \<longleftrightarrow> is_ok (fst (prepareSocketDir E dir fs))"
proof (cases "fs dir")
  case None
  then have "is_ok (socketDirState E dir fs) \<longleftrightarrow> is_dir fs (filepath_Dir dir)"
    using assms obliging_stat [OF assms, of "filepath_Dir dir"]
    by (cases "fs (filepath_Dir dir)")
      (auto simp: socketDirState_def os_Stat_def [of E fs dir] obliging_def is_dir_def os_Stat_def split: stat_result.splits)
  with None assms(1) show ?thesis by (auto simp: prepareSocketDir_def os_Mkdir_def os_Chmod_def obliging_def)
next
  case (Some n)
  with obliging_stat [OF assms this] show ?thesis
    by (simp add: socketDirState_def prepareSocketDir_def os_Mkdir_def split: sum.splits)
qed

lemma listen_prepared:
  assumes "obliging E" and "\<not> os_answers E sock" and "filepath_Dir sock \<noteq> sock"
  shows "is_ok (fst (listen E sock fs)) \<longleftrightarrow> is_ok (fst (prepareSocketDir E (filepath_Dir sock) fs))"
proof (cases "prepareSocketDir E (filepath_Dir sock) fs")
  case (Pair r hist)
  show ?thesis
  proof (cases r)
    case (Inl e)
    with Pair show ?thesis by (simp add: listen_def)
  next
    case (Inr u)
    then have d: "hd hist (filepath_Dir sock) = Some (FDir mode_0700)" using prepareSocketDir_states(4) [OF Pair] by simp
    have b: "is_ok (fst (bind_socket E sock h))" if "h \<noteq> []" "hd h sock = None" "hd h (filepath_Dir sock) = Some (FDir mode_0700)" for h
      using assms(1) that by (auto simp: bind_socket_def net_Listen_def os_Chmod_def obliging_def is_dir_def)
    show ?thesis
      using Pair Inr d assms b [of hist] b [of "(hd hist)(sock := None) # hist"] prepareSocketDir_states(1) [OF Pair]
      by (cases "hd hist sock") (auto simp: listen_def os_Stat_def obliging_def is_dir_def)
  qed
qed

lemma daemon_settings_check:
  assumes "df_config f \<noteq> []"
  shows "daemon_settings W (f\<lparr>df_checkConfig := b\<rparr>) = map_sum id (\<lambda>st. st\<lparr>df_checkConfig := b\<rparr>) (daemon_settings W f)"
  using assms by (cases "loadDaemonConfig W (df_config f)") (auto simp: daemon_settings_def)

lemma daemon_server_check: "daemon_server C W (st\<lparr>df_checkConfig := b\<rparr>) = daemon_server C W st"
proof -
  have "df_keystore (st\<lparr>df_checkConfig := b\<rparr>) = df_keystore st" "df_mapping (st\<lparr>df_checkConfig := b\<rparr>) = df_mapping st"
    "df_attest (st\<lparr>df_checkConfig := b\<rparr>) = df_attest st" by simp_all
  then show ?thesis unfolding daemon_server_def daemon_keys_def by presburger
qed

text \<open>
  The check decides as the start does.  Where the operating system refuses nothing and no
  daemon answers at the socket, \<^verbatim>\<open>--check-config\<close> reports success exactly when the daemon would
  broker, for any configuration file and any tree of files; and it changes nothing.
\<close>

theorem daemon_check_predicts:
  assumes "df_config f \<noteq> []" and "obliging E" and "tree fs" and "\<And>p. \<not> os_answers E p"
    and "\<And>st. daemon_settings W f = Inr st \<Longrightarrow> filepath_Dir (df_sock st) \<noteq> df_sock st"
  shows "(is_ok (fst (cmdDaemon C W E (f\<lparr>df_checkConfig := True\<rparr>) fs)) \<longleftrightarrow>
      is_ok (fst (cmdDaemon C W E (f\<lparr>df_checkConfig := False\<rparr>) fs))) \<and>
    snd (cmdDaemon C W E (f\<lparr>df_checkConfig := True\<rparr>) fs) = [fs]"
proof (cases "daemon_settings W f")
  case (Inl e)
  then show ?thesis by (simp add: cmdDaemon_def daemon_settings_check [OF assms(1)])
next
  case (Inr st)
  let ?sock = "df_sock st"
  have l: "is_ok (fst (listen E ?sock fs)) \<longleftrightarrow> is_ok (socketDirState E (filepath_Dir ?sock) fs)"
    using listen_prepared [OF assms(2,4) assms(5) [OF Inr], of fs] dir_state_prepares [OF assms(2,3)] by blast
  show ?thesis
  proof (cases "daemon_server C W st")
    case (Inl e)
    with Inr show ?thesis by (simp add: cmdDaemon_def daemon_settings_check [OF assms(1)] daemon_server_check)
  next
    case (Inr r)
    with \<open>daemon_settings W f = Inr st\<close> l show ?thesis
      by (cases "socketDirState E (filepath_Dir ?sock) fs"; cases "fst (listen E ?sock fs)")
        (auto simp: cmdDaemon_def daemon_settings_check [OF assms(1)] daemon_server_check split: prod.splits sum.splits)
  qed
qed

section \<open>A concrete daemon\<close>

text \<open>
  A keystore with the keys of an organisation and a device and a comment, and a mapping in
  which the device is enrolled with a key of the secure element.
\<close>

definition sample_keystore_members :: "(DID \<times> string) list" where
  "sample_keystore_members =
     [(''_comment'', ''mock''), (''did:web:b.example'', replicate 64 CHR ''4''), (''did:web:a.example'', replicate 64 CHR ''3'')]"

definition sample_device :: DeviceCredential where
  "sample_device =
     \<lparr>dc_DID = ''did:web:b.example'', dc_CredentialID = ''c'', dc_StatusURL = [], dc_StatusIndex = 0, dc_KeyFingerprint = [],
      dc_KeyBackend = backendSecureEnclave, dc_KeyTag = ''tag'', dc_Algorithm = [], dc_EnrolledAt = sample_time, dc_Revoked = False\<rparr>"

definition sample_mapping :: Mapping where
  "sample_mapping =
     \<lparr>mp_Version = mappingVersion, mp_Employees = [(''eve'', \<lparr>em_Identity = ''eve'', em_Credentials = [sample_device]\<rparr>)]\<rparr>"

definition sample_daemon_world :: daemon_world where
  "sample_daemon_world =
     \<lparr>dw_files = [''/config'' \<mapsto> [], ''/ks'' \<mapsto> [], ''/map'' \<mapsto> []], dw_parse = (\<lambda>_. Document (JObj []) False),
      dw_config = (\<lambda>_. Some \<lparr>dn_Sock = ''/run/kessa/s'', dn_Keystore = ''/ks'', dn_Mapping = ''/map'',
        dn_AttestationKeys = [''did:web:a.example'']\<rparr>),
      dw_keystore = (\<lambda>_. Some sample_keystore_members), dw_enroll = sample_env\<lparr>ev_unmapping := (\<lambda>_. Some sample_mapping)\<rparr>,
      dw_load = (\<lambda>d _. Some \<lparr>hs_Signer = toy_signer d CHR ''E'', hs_Hardware = Some True\<rparr>), dw_uid = 7\<rparr>"

definition sample_os :: os_env where
  "sample_os = \<lparr>os_umask = 0x12, os_stats = (\<lambda>_. True), os_permits = (\<lambda>_. True), os_chmods = (\<lambda>_. True), os_answers = (\<lambda>_. False)\<rparr>"

definition sample_nodes :: nodes where
  "sample_nodes = [''/'' \<mapsto> FDir 0x1ED, ''/run'' \<mapsto> FDir 0x1ED]"

definition sample_daemon_flags :: daemon_flags where
  "sample_daemon_flags =
     \<lparr>df_keystore = [], df_mapping = [], df_sock = [], df_config = ''/config'', df_checkConfig = False, df_attest = [],
      df_given = [''config'']\<rparr>"

abbreviation sample_daemon_settings :: daemon_flags where
  "sample_daemon_settings \<equiv>
     sample_daemon_flags\<lparr>df_keystore := ''/ks'', df_mapping := ''/map'', df_sock := ''/run/kessa/s'', df_attest := [''did:web:a.example'']\<rparr>"

lemma sample_paths_daemon:
  "filepath_Dir ''/run/kessa/s'' = ''/run/kessa''" "filepath_Dir ''/run/kessa'' = ''/run''" "filepath_Dir ''/run'' = ''/''"
  "filepath_Dir ''/'' = ''/''"
  by code_simp+

lemma sample_tree: "tree sample_nodes" "obliging sample_os"
  by (auto simp: tree_def is_dir_def sample_nodes_def sample_paths_daemon obliging_def sample_os_def split: if_splits)

lemma sample_daemon_settings: "daemon_settings sample_daemon_world sample_daemon_flags = Inr sample_daemon_settings"
proof -
  have d: "checkKeys (GPtr (GStruct daemon_schema)) (JObj []) = Inr ()" "daemonConflictingFlags [''config''] = []" by code_simp+
  have v: "DaemonConfig_validate \<lparr>dn_Sock = ''/run/kessa/s'', dn_Keystore = ''/ks'', dn_Mapping = ''/map'',
      dn_AttestationKeys = [''did:web:a.example'']\<rparr> = Inr ()" by code_simp
  show ?thesis
    using d v
    by (simp add: daemon_settings_def loadDaemonConfig_def config_Load_def DecodeStrict_def sample_daemon_world_def sample_daemon_flags_def)
qed

lemma sample_daemon_server: "is_ok (daemon_server toy_crypto sample_daemon_world sample_daemon_settings)"
proof -
  have c: "checkKeys (GPtr (GMap GBasic)) (JObj []) = Inr ()" by code_simp
  have ps: "keystore_Principals sample_keystore_members = [''did:web:a.example'', ''did:web:b.example'']" by code_simp
  have sg: "keystore_Signer toy_crypto (map_of sample_keystore_members) d = keystore_Signer toy_crypto sample_keystore d"
    if "d \<in> {''did:web:a.example'', ''did:web:b.example''}" for d
    using that by (auto simp: keystore_Signer_def sample_keystore_members_def sample_keystore_def)
  have l: "LoadMapping (sample_env\<lparr>ev_unmapping := (\<lambda>_. Some sample_mapping)\<rparr>) [''/config'' \<mapsto> [], ''/ks'' \<mapsto> [], ''/map'' \<mapsto> []] ''/map'' =
      Inr sample_mapping"
    by (simp add: LoadMapping_def sample_env_def sample_mapping_def)
  have m: "mapped_credentials sample_mapping = [sample_device]"
    by (simp add: mapped_credentials_def Identities_def sample_mapping_def)
  have att: "map_of sample_keystore_members ''did:web:a.example'' \<noteq> None" by (simp add: sample_keystore_members_def)
  show ?thesis
    using c ps sg l m att
    by (simp add: daemon_server_def daemon_keys_def loadJSON_def DecodeStrict_def keystoreKeys_def loadEnrolledKeys_def
        sample_daemon_world_def sample_signers sample_device_def NewKeys_def known_def requiresHardware_def policy_defs
        isHardwareBacked_def)
qed

lemma sample_brokering:
  obtains sv keys hist where
    "cmdDaemon toy_crypto sample_daemon_world sample_os sample_daemon_flags sample_nodes = (Inr (Brokering sv keys), hist)"
proof -
  have "is_ok (socketDirState sample_os ''/run/kessa'' sample_nodes)"
    by (simp add: socketDirState_def os_Stat_def sample_os_def sample_nodes_def sample_paths_daemon is_dir_def)
  then have "is_ok (fst (listen sample_os ''/run/kessa/s'' sample_nodes))"
    using listen_prepared [OF sample_tree(2), of "''/run/kessa/s''" sample_nodes]
      dir_state_prepares [OF sample_tree(2,1), of "''/run/kessa''"] sample_paths_daemon(1)
    by (simp add: sample_os_def [THEN arg_cong [of _ _ os_answers]])
  then obtain hist where "listen sample_os ''/run/kessa/s'' sample_nodes = (Inr (), hist)"
    by (cases "listen sample_os ''/run/kessa/s'' sample_nodes") (auto elim!: is_okE)
  moreover obtain sv keys where "daemon_server toy_crypto sample_daemon_world sample_daemon_settings = Inr (sv, keys)"
    using sample_daemon_server by (auto elim!: is_okE)
  moreover have "\<not> df_checkConfig sample_daemon_settings" by (simp add: sample_daemon_flags_def)
  ultimately show thesis
    by (intro that [of sv "heldKeysSorted keys" hist]) (simp add: cmdDaemon_def sample_daemon_settings)
qed

lemma sample_sock: "filepath_Dir (df_sock sample_daemon_settings) \<noteq> df_sock sample_daemon_settings"
  by (simp add: sample_paths_daemon)

theorem daemon_socket_guarded_witness:
  "\<exists>sv keys hist. cmdDaemon toy_crypto sample_daemon_world sample_os sample_daemon_flags sample_nodes = (Inr (Brokering sv keys), hist) \<and>
     hd hist ''/run/kessa/s'' = Some (FSock mode_0600) \<and> hd hist ''/run/kessa'' = Some (FDir mode_0700) \<and>
     hd hist ''/run'' = sample_nodes ''/run''"
proof -
  obtain sv keys hist where b:
    "cmdDaemon toy_crypto sample_daemon_world sample_os sample_daemon_flags sample_nodes = (Inr (Brokering sv keys), hist)"
    by (rule sample_brokering)
  then have "hist \<noteq> []"
    by (auto simp: cmdDaemon_def listen_def bind_socket_def map_sum_Inr_iff split: sum.splits prod.splits if_splits option.splits stat_result.splits
        dest: prepareSocketDir_states(1))
  then have "hd hist \<in> set hist" by simp
  with b daemon_socket_guarded [OF b sample_daemon_settings sample_sock] show ?thesis
    by (auto simp: sample_paths_daemon)
qed

theorem daemon_brokers_exact_witness:
  "\<exists>sv keys hist s. cmdDaemon toy_crypto sample_daemon_world sample_os sample_daemon_flags sample_nodes = (Inr (Brokering sv keys), hist) \<and>
     Server_lookup sv ''did:web:b.example'' = Some s \<and> isHardwareBacked s"
proof -
  obtain sv keys hist where b:
    "cmdDaemon toy_crypto sample_daemon_world sample_os sample_daemon_flags sample_nodes = (Inr (Brokering sv keys), hist)"
    by (rule sample_brokering)
  have m: "filter (\<lambda>c. \<not> dc_Revoked c) (mapped_credentials sample_mapping) = [sample_device]" "dc_DID sample_device = ''did:web:b.example''"
    by (simp_all add: mapped_credentials_def Identities_def sample_mapping_def sample_device_def)
  have l: "LoadMapping (dw_enroll sample_daemon_world) (dw_files sample_daemon_world) ''/map'' = Inr sample_mapping"
    by (simp add: LoadMapping_def sample_env_def sample_mapping_def sample_daemon_world_def)
  have "enclave_names sample_daemon_world" by (auto simp: enclave_names_def sample_daemon_world_def toy_signer_def)
  from daemon_brokers_exact [OF b toy_crypto_laws this] obtain st cs where "daemon_settings sample_daemon_world sample_daemon_flags = Inr st"
    "df_mapping st = [] \<and> cs = [] \<or> (\<exists>m. LoadMapping (dw_enroll sample_daemon_world) (dw_files sample_daemon_world) (df_mapping st) = Inr m \<and>
       cs = filter (\<lambda>c. \<not> dc_Revoked c) (mapped_credentials m))"
    "\<forall>c \<in> set cs. dc_KeyBackend c = backendSecureEnclave \<and> (\<exists>s. Server_lookup sv (dc_DID c) = Some s \<and> isHardwareBacked s)"
    by (elim exE conjE)
  moreover from this l m(1) have "cs = [sample_device]" by (auto simp: sample_daemon_settings)
  ultimately have "\<exists>s. Server_lookup sv ''did:web:b.example'' = Some s \<and> isHardwareBacked s" using m(2) by simp
  with b show ?thesis by blast
qed

theorem daemon_check_predicts_witness:
  "is_ok (fst (cmdDaemon toy_crypto sample_daemon_world sample_os (sample_daemon_flags\<lparr>df_checkConfig := True\<rparr>) sample_nodes))"
proof -
  have f: "sample_daemon_flags\<lparr>df_checkConfig := False\<rparr> = sample_daemon_flags" "df_config sample_daemon_flags \<noteq> []"
    by (simp_all add: sample_daemon_flags_def)
  obtain sv keys hist where b:
    "cmdDaemon toy_crypto sample_daemon_world sample_os sample_daemon_flags sample_nodes = (Inr (Brokering sv keys), hist)"
    by (rule sample_brokering)
  show ?thesis
    using daemon_check_predicts [OF f(2) sample_tree(2,1), of sample_daemon_world toy_crypto] b f(1) sample_sock
    by (simp add: sample_daemon_settings sample_os_def)
qed

end
