(* ===== verification/Agent.thy ===== *)
theory Agent
  imports Proxy_Cmd Http_Api
begin

text \<open>
  \<^verbatim>\<open>kessa-agent attempt\<close> (\<^verbatim>\<open>cmd/agent/main.go\<close>): an agent that holds a chain signs for an action and
  submits it to a proxy.  The network is the record \<open>agent_net\<close>.  The lemmas show that the exit
  status tells what the proxy recorded, and that the proxy answers an agent which holds the key
  its credential names.
\<close>

section \<open>The command\<close>

record agent_net =
  an_get :: "string \<Rightarrow> string + int \<times> bytes"
  an_post :: "string \<Rightarrow> string \<Rightarrow> bytes \<Rightarrow> string + int \<times> bytes"
  an_marshal :: "Request \<Rightarrow> string + bytes"
  an_result :: "bytes \<Rightarrow> string + Decision \<times> Entry"
  an_tip :: "bytes \<Rightarrow> string + u64 \<times> bytes"

record agent_flags =
  af_proxy :: string
  af_chain :: string
  af_keystore :: string
  af_agentSock :: string
  af_as :: string
  af_approver :: string
  af_type :: string
  af_target :: string
  af_nonce :: string
  af_timestamp :: string
  af_attrs :: "string list"

datatype agent_err =
    AttrSyntax string
  | AgentFlagRequired
  | BadTimestamp string
  | AgentChainRead string
  | AgentChainParse
  | AgentKeystore keystore_err
  | AgentDaemon client_err
  | TipFailed submit_err
  | EmptyChain
  | AgentPossession credential_err
  | AgentApproval audit_err
  | SubmitFailed submit_err

fun attrFlag_Set :: "string list \<Rightarrow> (string \<times> string) list \<Rightarrow> agent_err + (string \<times> string) list" where
  "attrFlag_Set [] m = Inr m"
| "attrFlag_Set (v # vs) m =
     (case Cut CHR ''='' v of
        None \<Rightarrow> Inl (AttrSyntax v)
      | Some (k, val) \<Rightarrow> attrFlag_Set vs (AList.update k val m))"

definition loadChain :: "cmd_env \<Rightarrow> string \<Rightarrow> agent_err + Chain" where
  "loadChain V path =
     (case ce_files V path of
        None \<Rightarrow> Inl (AgentChainRead path)
      | Some data \<Rightarrow> (case ce_chain V data of None \<Rightarrow> Inl AgentChainParse | Some ch \<Rightarrow> Inr ch))"

definition signerFor :: "crypto \<Rightarrow> cmd_env \<Rightarrow> string \<Rightarrow> Keystore \<Rightarrow> DID \<Rightarrow> agent_err + Signer" where
  "signerFor C V sock ks d =
     (if sock \<noteq> [] then map_err AgentDaemon (Dial C (ce_daemon V) (ce_socket V sock) d)
      else map_err AgentKeystore (keystore_Signer C ks d))"

definition buildRequest ::
  "Chain \<Rightarrow> Signer \<Rightarrow> Signer option \<Rightarrow> Action \<Rightarrow> string \<Rightarrow> u64 \<times> bytes \<Rightarrow> agent_err + Request" where
  "buildRequest ch actor approver action nonce tip =
     (if Links ch = [] then Inl EmptyChain
      else let terminal = lk_Credential (last (Links ch)) in
        case ProvePossession terminal actor nonce action (fst tip) (snd tip) of
          Inl e \<Rightarrow> Inl (AgentPossession e)
        | Inr pop \<Rightarrow>
            (case approver of
               None \<Rightarrow> Inr \<lparr>rq_Chain = Some ch, rq_Action = action, rq_PoP = pop, rq_Approver = [], rq_Approval = []\<rparr>
             | Some h \<Rightarrow>
                 (case SignApproval h (cr_Subject terminal) action (fst tip) (snd tip) of
                    Inl e \<Rightarrow> Inl (AgentApproval e)
                  | Inr sig \<Rightarrow>
                      Inr \<lparr>rq_Chain = Some ch, rq_Action = action, rq_PoP = pop, rq_Approver = s_DID h, rq_Approval = sig\<rparr>)))"

definition agent_keystore :: "cmd_env \<Rightarrow> agent_flags \<Rightarrow> agent_err + Keystore" where
  "agent_keystore V f =
     (if af_agentSock f \<noteq> [] then Inr Map.empty
      else map_err AgentKeystore (keystore_Load (ce_keystore V) (ce_files V) (af_keystore f)))"

text \<open>Everything up to the submission.\<close>

definition agent_request :: "crypto \<Rightarrow> cmd_env \<Rightarrow> agent_net \<Rightarrow> agent_flags \<Rightarrow> agent_err + Request" where
  "agent_request C V N f =
     (case attrFlag_Set (af_attrs f) [] of
        Inl e \<Rightarrow> Inl e
      | Inr attrs \<Rightarrow>
      if af_chain f = [] \<or> af_type f = [] \<or> af_keystore f = [] \<and> af_agentSock f = [] then Inl AgentFlagRequired
      else (case ParseRFC3339 (af_timestamp f) of
        None \<Rightarrow> Inl (BadTimestamp (af_timestamp f))
      | Some ts \<Rightarrow>
      (case loadChain V (af_chain f) of
        Inl e \<Rightarrow> Inl e
      | Inr ch \<Rightarrow>
      (case agent_keystore V f of
        Inl e \<Rightarrow> Inl e
      | Inr ks \<Rightarrow>
      (case signerFor C V (af_agentSock f) ks (if af_as f = [] then Chain_Actor ch else af_as f) of
        Inl e \<Rightarrow> Inl e
      | Inr actor \<Rightarrow>
      (case (if af_approver f = [] then Inr None else map_sum id Some (signerFor C V (af_agentSock f) ks (af_approver f))) of
        Inl e \<Rightarrow> Inl e
      | Inr approver \<Rightarrow>
      (case FetchTip (an_tip N) (an_get N) (af_proxy f) of
        Inl e \<Rightarrow> Inl (TipFailed e)
      | Inr tip \<Rightarrow>
          buildRequest ch actor approver
            \<lparr>a_Type = af_type f, a_Target = af_target f, a_Attributes = attrs, a_Timestamp = ts\<rparr> (af_nonce f) tip)))))))"

datatype agent_out = AgentUsage agent_err | AgentRejected string | AgentAllowed string | AgentDenied string

definition cmdAttempt :: "crypto \<Rightarrow> cmd_env \<Rightarrow> agent_net \<Rightarrow> agent_flags \<Rightarrow> agent_out" where
  "cmdAttempt C V N f =
     (case agent_request C V N f of
        Inl e \<Rightarrow> AgentUsage e
      | Inr req \<Rightarrow>
          (case Submit (an_marshal N) (an_result N) (an_post N) (af_proxy f) req of
             Inl (ErrRejected reason) \<Rightarrow> AgentRejected reason
           | Inl e \<Rightarrow> AgentUsage (SubmitFailed e)
           | Inr (dec, _) \<Rightarrow> if d_Allowed dec then AgentAllowed (d_Reason dec) else AgentDenied (d_Reason dec)))"

fun agent_exit :: "agent_out \<Rightarrow> nat" where
  "agent_exit (AgentAllowed _) = 0"
| "agent_exit (AgentDenied _) = 1"
| "agent_exit (AgentRejected _) = 1"
| "agent_exit (AgentUsage _) = 2"

section \<open>What the exit status tells\<close>

lemma buildRequest_ok:
  assumes "buildRequest ch actor approver action nonce tip = Inr req"
  shows "rq_Chain req = Some ch" "rq_Action req = action" "Links ch \<noteq> []"
    "ProvePossession (lk_Credential (last (Links ch))) actor nonce action (fst tip) (snd tip) = Inr (rq_PoP req)"
  using assms by (auto simp: buildRequest_def Let_def split: sum.splits option.splits if_splits)

lemma agent_request_ok:
  assumes "agent_request C V N f = Inr req"
  obtains ch ks actor approver attrs ts tip where "attrFlag_Set (af_attrs f) [] = Inr attrs" "ParseRFC3339 (af_timestamp f) = Some ts"
    "loadChain V (af_chain f) = Inr ch" "agent_keystore V f = Inr ks"
    "signerFor C V (af_agentSock f) ks (if af_as f = [] then Chain_Actor ch else af_as f) = Inr actor"
    "FetchTip (an_tip N) (an_get N) (af_proxy f) = Inr tip"
    "buildRequest ch actor approver \<lparr>a_Type = af_type f, a_Target = af_target f, a_Attributes = attrs, a_Timestamp = ts\<rparr>
       (af_nonce f) tip = Inr req"
  using assms by (auto simp: agent_request_def split: sum.splits option.splits if_splits)

text \<open>
  The exit status tells what was recorded.  An agent whose request reaches the proxy exits
  with 0 exactly when the proxy allowed the action, and then the log has gained one entry that
  allows the requested action; it exits with 1 when the proxy denied, with an entry saying so,
  or refused, with the log unchanged.
\<close>

theorem agent_exit_agrees:
  assumes "agent_request C V N f = Inr req" and "an_marshal N req = Inr body" and "length body \<le> maxRequestBody"
    and "wi_Request W body = Complete req" and "wi_media W ''application/json'' = Some ''application/json''"
    and "\<And>dec e. fst (Handle C q T now d req p) = Inr (dec, e) \<Longrightarrow> an_result N (enc dec e @ [char_of (10 :: nat)]) = Inr (dec, e)"
    and "\<And>e. wi_handle_err W e \<noteq> [] \<and> ord (last (wi_handle_err W e)) \<notin> {10, 32}"
    and "\<And>url ct b. an_post N url ct b =
      (let reply = fst (Handler C q T W now d (posted ct b) p) in Inr (rp_Status reply, reply_bytes enc (rp_Body reply)))"
  shows "a_Type (rq_Action req) = af_type f \<and> a_Target (rq_Action req) = af_target f \<and>
    (case Handle C q T now d req p of
       (Inr (dec, e), p') \<Rightarrow>
         agent_exit (cmdAttempt C V N f) = (if d_Allowed dec then 0 else 1) \<and>
         Proxy_Entries p' = Proxy_Entries p @ [e] \<and> e_Decision e = dec \<and> e_Action e = rq_Action req
     | (Inl _, p') \<Rightarrow> agent_exit (cmdAttempt C V N f) = 1 \<and> Proxy_Entries p' = Proxy_Entries p)"
proof -
  have sub: "Submit (an_marshal N) (an_result N) (an_post N) (af_proxy f) req =
      map_sum (\<lambda>e. ErrRejected (wi_handle_err W e)) id (fst (Handle C q T now d req p))"
    by (rule submit_answers [where body = body and W = W and enc = enc and C = C and q = q and T = T and now = now and d = d and p = p,
          THEN conjunct1]) (use assms(2-8) in auto)
  from assms(1) have "a_Type (rq_Action req) = af_type f \<and> a_Target (rq_Action req) = af_target f"
    by (rule agent_request_ok) (simp add: buildRequest_ok(2))
  moreover obtain res p' where h: "Handle C q T now d req p = (res, p')" by fastforce
  moreover have "case res of
      Inr (dec, e) \<Rightarrow> agent_exit (cmdAttempt C V N f) = (if d_Allowed dec then 0 else 1) \<and>
        Proxy_Entries p' = Proxy_Entries p @ [e] \<and> e_Decision e = dec \<and> e_Action e = rq_Action req
    | Inl _ \<Rightarrow> agent_exit (cmdAttempt C V N f) = 1 \<and> Proxy_Entries p' = Proxy_Entries p"
  proof (cases rule: Handle_cases [OF h])
    case (1 ch e i)
    with sub h assms(1) recorded_fields(1) [OF 1(3)] recorded_entry [OF 1(3)] show ?thesis
      by (simp add: cmdAttempt_def Proxy_Entries_def Entries_def)
  next
    case (2 x)
    with sub h assms(1) same_record_fields(1) [OF 2(2)] show ?thesis
      by (simp add: cmdAttempt_def Proxy_Entries_def)
  qed
  ultimately show ?thesis by (cases res) auto
qed

lemma agent_attributed:
  assumes "agent_request C V N f = Inr req" and "rq_Chain req = Some ch" and "Chain_Verify C (p_dids p) ch = Inr ()"
    and "FetchTip (an_tip N) (an_get N) (af_proxy f) = Inr (Proxy_Tip p)" and "checkEvidenceSize req = Inr ()"
    and "agent_keystore V f = Inr ks" and "signerFor C V (af_agentSock f) ks (if af_as f = [] then Chain_Actor ch else af_as f) = Inr actor"
    and "signer_ok C actor" and "JWK_PublicKey C (cr_HolderKey (lk_Credential (last (Links ch)))) = Inr (s_Public actor)"
    and "af_nonce f \<noteq> []"
  shows "attributed C p req ch"
proof -
  from assms(1) obtain ch' ks' actor' approver attrs ts tip where a:
    "agent_keystore V f = Inr ks'" "signerFor C V (af_agentSock f) ks' (if af_as f = [] then Chain_Actor ch' else af_as f) = Inr actor'"
    "FetchTip (an_tip N) (an_get N) (af_proxy f) = Inr tip"
    "buildRequest ch' actor' approver \<lparr>a_Type = af_type f, a_Target = af_target f, a_Attributes = attrs, a_Timestamp = ts\<rparr>
       (af_nonce f) tip = Inr req" by (rule agent_request_ok)
  note b = buildRequest_ok [OF a(4)]
  have ch: "ch' = ch" and tip: "tip = Proxy_Tip p" using b(1) assms(2,4) a(3) by simp_all
  have actor: "actor' = actor" using assms(6,7) a(1,2) unfolding ch by simp
  have "VerifyPossession C (lk_Credential (last (Links ch))) (rq_PoP req) (rq_Action req) (fst (Proxy_Tip p)) (snd (Proxy_Tip p)) = Inr ()"
    using ProvePossession_verifies [OF assms(8) b(4) [unfolded ch actor] assms(9,10)] unfolding b(2) tip .
  then show ?thesis using assms(2,3,5) by (simp add: attributed_def Proxy_Tip_def)
qed


section \<open>A concrete attempt\<close>

definition agent_keys :: "DID \<Rightarrow> char" where
  "agent_keys d = (if d = ''did:web:a.example'' then CHR ''3'' else CHR ''D'')"

definition agent_proxy :: Proxy where
  "agent_proxy = (sample_proxy None)\<lparr>p_dids := toy_resolver agent_keys\<rparr>"

definition sample_agent_flags :: agent_flags where
  "sample_agent_flags =
     \<lparr>af_proxy = ''http://h'', af_chain = ''/chain'', af_keystore = ''/ks'', af_agentSock = [], af_as = [], af_approver = [],
      af_type = ''t'', af_target = ''x'', af_nonce = ''n'', af_timestamp = ''1970-01-01T00:00:00Z'', af_attrs = []\<rparr>"

definition sample_net :: "Request \<Rightarrow> Decision \<times> Entry \<Rightarrow> agent_net" where
  "sample_net req res =
     \<lparr>an_get = (\<lambda>_. Inr (200, [])),
      an_post = (\<lambda>url ct b. let reply = fst (Handler toy_crypto id plain_wording (sample_wire req) sample_time DiskOk (posted ct b)
        agent_proxy) in Inr (rp_Status reply, reply_bytes (\<lambda>_ _. []) (rp_Body reply))),
      an_marshal = (\<lambda>_. Inr []), an_result = (\<lambda>_. Inr res), an_tip = (\<lambda>_. Inr (Proxy_Tip agent_proxy))\<rparr>"

lemma agent_proxy_tip: "Proxy_Tip agent_proxy = (0, GenesisHash)" "p_dids agent_proxy = toy_resolver agent_keys"
  by (simp_all add: agent_proxy_def Proxy_Tip_def Tip_def sample_proxy_def fresh_proxy_def NewLog_def)

lemma sample_link_device:
  obtains cred sig where "Chain_Verify toy_crypto (toy_resolver agent_keys) \<lparr>Links = [\<lparr>lk_Credential = cred, lk_IssuerProof = sig\<rparr>]\<rparr> = Inr ()"
    "cr_Subject cred = ''did:web:b.example''" "JWK_PublicKey toy_crypto (cr_HolderKey cred) = Inr (Ed25519Key (toy_key CHR ''D''))"
    "m_Identifier (cr_Macaroon cred) = ''id''"
proof -
  let ?org = "toy_signer ''did:web:a.example'' CHR ''3''" and ?r = "toy_resolver agent_keys"
  obtain cred sig where m: "mintCredential toy_crypto (sample_enroll ''did:web:b.example'' []) ?org
     (Ed25519Key (toy_key CHR ''D'')) = Inr (cred, \<lparr>lk_Credential = cred, lk_IssuerProof = sig\<rparr>)"
    using sample_mint_device [of "''did:web:b.example''"] by auto
  have s: "hop_sound toy_crypto ?r \<lparr>lk_Credential = cred, lk_IssuerProof = sig\<rparr>" "cr_Subject cred = ''did:web:b.example''"
    using mintCredential_ok [OF m toy_signer_ok, of ?r] by (simp_all add: sample_selectors toy_signer_Public agent_keys_def)
  then have k: "JWK_PublicKey toy_crypto (cr_HolderKey cred) = Inr (Ed25519Key (toy_key CHR ''D''))"
    by (auto simp: hop_sound_def agent_keys_def Let_def)
  have "m_Identifier (cr_Macaroon cred) = ''id''"
    using m by (auto simp: mintCredential_def Credential_New_def sample_enroll_def Mint_def toy_crypto_def bind_Inr_iff split: sum.splits)
  with that s k show thesis by (auto simp: Chain_Verify_ok MaxDepth_def Inr_unit_iff)
qed

lemma sample_agent_request:
  obtains ch req where "\<And>res req' m cfg. agent_request toy_crypto (sample_cmd ch m cfg) (sample_net req' res) sample_agent_flags = Inr req"
    "rq_Chain req = Some ch" "Chain_Verify toy_crypto (p_dids agent_proxy) ch = Inr ()" "checkEvidenceSize req = Inr ()"
    "Chain_Actor ch = ''did:web:b.example''"
    "JWK_PublicKey toy_crypto (cr_HolderKey (lk_Credential (last (Links ch)))) = Inr (Ed25519Key (toy_key CHR ''D''))"
proof -
  obtain cred sig where l: "Chain_Verify toy_crypto (toy_resolver agent_keys) \<lparr>Links = [\<lparr>lk_Credential = cred, lk_IssuerProof = sig\<rparr>]\<rparr> = Inr ()"
    "cr_Subject cred = ''did:web:b.example''" "JWK_PublicKey toy_crypto (cr_HolderKey cred) = Inr (Ed25519Key (toy_key CHR ''D''))"
    "m_Identifier (cr_Macaroon cred) = ''id''" by (rule sample_link_device)
  let ?ch = "\<lparr>Links = [\<lparr>lk_Credential = cred, lk_IssuerProof = sig\<rparr>]\<rparr>" and ?actor = "toy_signer ''did:web:b.example'' CHR ''D''"
  have ts: "ParseRFC3339 ''1970-01-01T00:00:00Z'' = Some sample_time" unfolding sample_time_def by code_simp
  obtain input where input: "popInput cred ''n'' tiny_action 0 GenesisHash = Inr input"
    by (simp add: popInput_def action_marshals_def tiny_action_def)
  let ?req = "\<lparr>rq_Chain = Some ?ch, rq_Action = tiny_action, rq_PoP = \<lparr>pop_Nonce = ''n'', pop_Signature = toy_key CHR ''D'' @ input\<rparr>,
    rq_Approver = [], rq_Approval = []\<rparr>"
  have pop: "ProvePossession cred ?actor ''n'' tiny_action 0 GenesisHash = Inr (rq_PoP ?req)"
    using input by (simp add: ProvePossession_def toy_signer_def)
  have "length (toy_key CHR ''D'' @ input) \<le> 512"
    using input l(2,4) tiny_action_length by (auto simp: popInput_def toy_key_def popDomain_def GenesisHash_def split: if_splits)
  then have size: "checkEvidenceSize ?req = Inr ()" by (simp add: checkEvidenceSize_def maxPoPNonceBytes_def maxSignatureBytes_def)
  have "agent_request toy_crypto (sample_cmd ?ch m cfg) (sample_net req' res) sample_agent_flags = Inr ?req" for res req' m cfg
    using ts pop l(2)
    by (simp add: agent_request_def sample_agent_flags_def loadChain_def sample_cmd_def sample_site_def keystore_Load_def signerFor_def
        agent_keystore_def Chain_Actor_def sample_signers FetchTip_def sample_net_def agent_proxy_tip buildRequest_def tiny_action_def)
  with that [of ?ch ?req] l size show thesis by (simp add: agent_proxy_tip Chain_Actor_def)
qed

lemma sample_agent_signer:
  "agent_keystore (sample_cmd ch m cfg) sample_agent_flags = Inr sample_keystore"
  "signerFor toy_crypto (sample_cmd ch m cfg) (af_agentSock sample_agent_flags) sample_keystore ''did:web:b.example'' =
     Inr (toy_signer ''did:web:b.example'' CHR ''D'')"
  "af_as sample_agent_flags = []" "af_nonce sample_agent_flags \<noteq> []"
  by (simp_all add: agent_keystore_def sample_agent_flags_def sample_cmd_def keystore_Load_def sample_site_def signerFor_def sample_signers)

lemma sample_agent_proxy:
  "l_signer (p_log agent_proxy) = p_enforcementPoint agent_proxy" "s_Sign (p_enforcementPoint agent_proxy) x \<noteq> None"
  "time_marshals (UTC sample_time)" "p_wal agent_proxy = None"
  by (simp_all add: agent_proxy_def sample_proxy_def fresh_proxy_def NewLog_def toy_signer_def sample_config_def UTC_def
        sample_time_def time_marshals_def year_of_def Let_def)

lemma sample_net_tip: "FetchTip (an_tip (sample_net req res)) (an_get (sample_net req res)) u = Inr (Proxy_Tip agent_proxy)"
  by (simp add: FetchTip_def sample_net_def)


theorem agent_exit_agrees_witness:
  "\<exists>V N req dec e p'. Handle toy_crypto id plain_wording sample_time DiskOk req agent_proxy = (Inr (dec, e), p') \<and>
     agent_exit (cmdAttempt toy_crypto V N sample_agent_flags) = (if d_Allowed dec then 0 else 1) \<and>
     Proxy_Entries p' = Proxy_Entries agent_proxy @ [e]"
proof -
  obtain ch req where r: "\<And>res req' m cfg. agent_request toy_crypto (sample_cmd ch m cfg) (sample_net req' res) sample_agent_flags = Inr req"
    "rq_Chain req = Some ch" "Chain_Verify toy_crypto (p_dids agent_proxy) ch = Inr ()" "checkEvidenceSize req = Inr ()"
    "Chain_Actor ch = ''did:web:b.example''"
    "JWK_PublicKey toy_crypto (cr_HolderKey (lk_Credential (last (Links ch)))) = Inr (Ed25519Key (toy_key CHR ''D''))"
    by (rule sample_agent_request) blast
  let ?V = "sample_cmd ch (\<lambda>_. None) sample_serve"
  have "attributed toy_crypto agent_proxy req ch"
    by (rule agent_attributed [where V = ?V, OF r(1-3) sample_net_tip r(4) sample_agent_signer(1) _ toy_signer_ok _ sample_agent_signer(4)])
      (use r(5,6) sample_agent_signer(2,3) in \<open>simp_all add: toy_signer_Public\<close>)
  from attributed_answered [OF this sample_agent_proxy(1-3), of DiskOk id plain_wording] sample_agent_proxy(4)
  obtain dec e p' where h: "Handle toy_crypto id plain_wording sample_time DiskOk req agent_proxy = (Inr (dec, e), p')" by auto
  note a = agent_exit_agrees [where V = ?V and N = "sample_net req (dec, e)" and W = "sample_wire req" and q = id and T = plain_wording
      and now = sample_time and d = DiskOk and p = agent_proxy and body = "[]" and enc = "\<lambda>_ _. []", OF r(1)]
  have "agent_exit (cmdAttempt toy_crypto ?V (sample_net req (dec, e)) sample_agent_flags) = (if d_Allowed dec then 0 else 1) \<and>
     Proxy_Entries p' = Proxy_Entries agent_proxy @ [e]"
    using a h by (simp add: sample_net_def sample_wire_def)
  with h show ?thesis by blast
qed

end
