(* ===== verification/Policy_Suite.thy ===== *)
theory Policy_Suite
  imports Policy
begin

text \<open>
  \<^verbatim>\<open>internal/policy/conformance\<close>: the contract every policy evaluator must meet, as the repository
  states it: synthetic cases with their expected decisions, the shipped example policies, and
  the reported version.  Policies are given as decoded members; apostrophes in case names are
  left out.  The classifier of \<open>Policy\<close> meets the whole suite.
\<close>

section \<open>The suite\<close>

text \<open>What a constructor of evaluators yields: the evaluation and the version, or an error.\<close>

type_synonym NewEvaluator = "raw_policy \<Rightarrow> policy_err + (Action \<Rightarrow> Decision) \<times> string"

record Want =
  wt_Allowed :: bool
  wt_Consequential :: bool
  wt_RuleFired :: string
  wt_Reason :: string

record Case =
  tc_Name :: string
  tc_Policy :: raw_policy
  tc_Action :: Action
  tc_Want :: Want

definition fixedTime :: gotime where
  "fixedTime = \<lparr>unix_ns = 1780315200 * 10 ^ 9, zone_off = 0\<rparr>"

definition denyListDefault :: Default where
  "denyListDefault = \<lparr>df_Allowed = True, df_Consequential = False, df_Reason = ''routine by default''\<rparr>"

definition allowListDefault :: Default where
  "allowListDefault = \<lparr>df_Allowed = True, df_Consequential = True, df_Reason = ''approval-gated by default''\<rparr>"

definition cond :: "string \<Rightarrow> string \<Rightarrow> string \<Rightarrow> Condition" where
  "cond field op value = \<lparr>cn_Field = field, cn_Op = op, cn_Value = value\<rparr>"

definition mkRule :: "string \<Rightarrow> Condition list \<Rightarrow> bool \<Rightarrow> bool \<Rightarrow> string \<Rightarrow> Rule" where
  "mkRule name when deny conseq reason =
     \<lparr>r_Name = name, r_When = when, r_Deny = deny, r_Consequential = conseq, r_Reason = reason\<rparr>"

definition suite_policy :: "Rule list \<Rightarrow> Default \<Rightarrow> raw_policy" where
  "suite_policy rules def = \<lparr>raw_Ver = ''conformance-v1'', raw_Rules = rules, raw_Default = Some def\<rparr>"

definition oneRule :: "string \<Rightarrow> string \<Rightarrow> string \<Rightarrow> raw_policy" where
  "oneRule field op value =
     suite_policy [mkRule ''r'' [cond field op value] False True ''rule fired''] denyListDefault"

definition oneRuleAllowList :: "string \<Rightarrow> string \<Rightarrow> string \<Rightarrow> raw_policy" where
  "oneRuleAllowList field op value =
     suite_policy [mkRule ''r'' [cond field op value] False False ''rule fired''] allowListDefault"

definition mkWant :: "bool \<Rightarrow> bool \<Rightarrow> string \<Rightarrow> string \<Rightarrow> Want" where
  "mkWant allowed conseq rule reason =
     \<lparr>wt_Allowed = allowed, wt_Consequential = conseq, wt_RuleFired = rule, wt_Reason = reason\<rparr>"

definition matched :: Want where
  "matched = mkWant True True ''r'' ''rule fired''"

definition unmatched :: Want where
  "unmatched = mkWant True False DefaultRule ''routine by default''"

definition matchedAllowList :: Want where
  "matchedAllowList = mkWant True False ''r'' ''rule fired''"

definition unmatchedAllowList :: Want where
  "unmatchedAllowList = mkWant True True DefaultRule ''approval-gated by default''"

text \<open>The rule's name is printed with \<^verbatim>\<open>%q\<close>, which puts plain text between quotation marks.\<close>

definition quoted :: "string \<Rightarrow> string" where
  "quoted s = CHR 0x22 # s @ [CHR 0x22]"

definition indeterminateOn :: "string \<Rightarrow> Want" where
  "indeterminateOn field =
     mkWant False True ''r'' (''rule '' @ quoted ''r'' @ '' could not be evaluated: '' @ field @ '' is not comparable'')"

definition act :: "string \<Rightarrow> (string \<times> string) list \<Rightarrow> Action" where
  "act typ attrs = \<lparr>a_Type = typ, a_Target = ''res-1'', a_Attributes = attrs, a_Timestamp = fixedTime\<rparr>"

definition mkCase :: "string \<Rightarrow> raw_policy \<Rightarrow> Action \<Rightarrow> Want \<Rightarrow> Case" where
  "mkCase name pol a w = \<lparr>tc_Name = name, tc_Policy = pol, tc_Action = a, tc_Want = w\<rparr>"

definition equality_cases :: "Case list" where
  "equality_cases =
     [mkCase ''eq matches'' (oneRule ''amount'' OpEq ''100'') (act ''payment.transfer'' [(''amount'', ''100'')]) matched,
      mkCase ''eq is exact string comparison, not numeric'' (oneRule ''amount'' OpEq ''100'') (act ''payment.transfer'' [(''amount'', ''100.0'')]) unmatched,
      mkCase ''eq on absent field'' (oneRule ''amount'' OpEq ''100'') (act ''payment.transfer'' []) unmatched,
      mkCase ''ne matches on a different value'' (oneRule ''audience'' OpNe ''internal'') (act ''post.publish'' [(''audience'', ''external'')]) matched,
      mkCase ''ne does not match on an equal value'' (oneRule ''audience'' OpNe ''internal'') (act ''post.publish'' [(''audience'', ''internal'')]) unmatched,
      mkCase ''ne on absent field fails closed'' (oneRule ''audience'' OpNe ''internal'') (act ''post.publish'' []) unmatched]"

definition numeric_cases :: "Case list" where
  "numeric_cases =
     [mkCase ''ge above bound'' (oneRule ''amount'' OpGe ''100'') (act ''payment.transfer'' [(''amount'', ''500'')]) matched,
      mkCase ''ge at bound'' (oneRule ''amount'' OpGe ''100'') (act ''payment.transfer'' [(''amount'', ''100'')]) matched,
      mkCase ''ge below bound'' (oneRule ''amount'' OpGe ''100'') (act ''payment.transfer'' [(''amount'', ''99'')]) unmatched,
      mkCase ''gt at bound does not match'' (oneRule ''amount'' OpGt ''100'') (act ''payment.transfer'' [(''amount'', ''100'')]) unmatched,
      mkCase ''gt above bound'' (oneRule ''amount'' OpGt ''100'') (act ''payment.transfer'' [(''amount'', ''100.01'')]) matched,
      mkCase ''le at bound'' (oneRule ''amount'' OpLe ''25'') (act ''payment.transfer'' [(''amount'', ''25'')]) matched,
      mkCase ''le above bound'' (oneRule ''amount'' OpLe ''25'') (act ''payment.transfer'' [(''amount'', ''26'')]) unmatched,
      mkCase ''lt below bound'' (oneRule ''amount'' OpLt ''25'') (act ''payment.transfer'' [(''amount'', ''24.9'')]) matched,
      mkCase ''ordering handles a negative value'' (oneRule ''delta'' OpLt ''0'') (act ''ledger.adjust'' [(''delta'', ''-5'')]) matched,
      mkCase ''ordering on absent field does not apply'' (oneRule ''amount'' OpGe ''100'') (act ''payment.transfer'' []) unmatched,
      mkCase ''ordering on absent field does not apply, allow-list'' (oneRuleAllowList ''amount'' OpGe ''100'') (act ''payment.transfer'' []) unmatchedAllowList]"

definition incomparable_cases :: "Case list" where
  "incomparable_cases =
     [mkCase ''infinity does not satisfy an upper bound'' (oneRule ''amount'' OpLe ''25'') (act ''payment.transfer'' [(''amount'', ''-Inf'')]) (indeterminateOn ''amount''),
      mkCase ''infinity does not satisfy an upper bound, allow-list'' (oneRuleAllowList ''amount'' OpLe ''25'') (act ''payment.transfer'' [(''amount'', ''-Inf'')]) (indeterminateOn ''amount''),
      mkCase ''infinity does not satisfy a lower bound'' (oneRule ''amount'' OpGe ''100'') (act ''payment.transfer'' [(''amount'', ''Inf'')]) (indeterminateOn ''amount''),
      mkCase ''infinity does not satisfy a lower bound, allow-list'' (oneRuleAllowList ''amount'' OpGe ''100'') (act ''payment.transfer'' [(''amount'', ''Inf'')]) (indeterminateOn ''amount''),
      mkCase ''a spelled-out infinity is the same value'' (oneRule ''amount'' OpGe ''100'') (act ''payment.transfer'' [(''amount'', ''Infinity'')]) (indeterminateOn ''amount''),
      mkCase ''an overflowing literal reaches it too'' (oneRule ''amount'' OpLe ''25'') (act ''payment.transfer'' [(''amount'', ''-1e400'')]) (indeterminateOn ''amount''),
      mkCase ''an overflowing literal reaches it too, allow-list'' (oneRuleAllowList ''amount'' OpLe ''25'') (act ''payment.transfer'' [(''amount'', ''-1e400'')]) (indeterminateOn ''amount''),
      mkCase ''a non-numeric string cannot be ordered'' (oneRule ''amount'' OpGe ''100'') (act ''payment.transfer'' [(''amount'', ''lots'')]) (indeterminateOn ''amount''),
      mkCase ''a non-numeric string cannot be ordered, allow-list'' (oneRuleAllowList ''amount'' OpGe ''100'') (act ''payment.transfer'' [(''amount'', ''lots'')]) (indeterminateOn ''amount''),
      mkCase ''an empty string is present but not comparable'' (oneRule ''amount'' OpGe ''100'') (act ''payment.transfer'' [(''amount'', [])]) (indeterminateOn ''amount''),
      mkCase ''an empty string is present but not comparable, allow-list'' (oneRuleAllowList ''amount'' OpGe ''100'') (act ''payment.transfer'' [(''amount'', [])]) (indeterminateOn ''amount''),
      mkCase ''a base-prefixed literal is not a decimal scalar'' (oneRule ''amount'' OpGe ''100'') (act ''payment.transfer'' [(''amount'', ''0x10'')]) (indeterminateOn ''amount'')]"

definition timestamp_cases :: "Case list" where
  "timestamp_cases =
     [mkCase ''expiry before a later bound'' (oneRule FieldExpiry OpLt ''2027-01-01T00:00:00Z'') (act ''document.export'' []) matched,
      mkCase ''expiry after an earlier bound'' (oneRule FieldExpiry OpGt ''2025-01-01T00:00:00Z'') (act ''document.export'' []) matched,
      mkCase ''expiry not before an earlier bound'' (oneRule FieldExpiry OpLt ''2025-01-01T00:00:00Z'') (act ''document.export'' []) unmatched,
      mkCase ''an attribute timestamp orders the same way'' (oneRule ''deadline'' OpGe ''2026-01-01T00:00:00Z'') (act ''task.close'' [(''deadline'', ''2026-09-09T00:00:00Z'')]) matched]"

definition member_cases :: "Case list" where
  "member_cases =
     [mkCase ''in matches a member'' (oneRule ''region'' OpIn ''us,eu,apac'') (act ''data.move'' [(''region'', ''eu'')]) matched,
      mkCase ''in does not match a non-member'' (oneRule ''region'' OpIn ''us,eu,apac'') (act ''data.move'' [(''region'', ''cn'')]) unmatched,
      mkCase ''in trims whitespace around members'' (oneRule ''region'' OpIn ''us, eu , apac'') (act ''data.move'' [(''region'', ''eu'')]) matched,
      mkCase ''in does not trim the actions value'' (oneRule ''region'' OpIn ''us,eu'') (act ''data.move'' [(''region'', '' eu'')]) unmatched,
      mkCase ''in with a single member behaves as equality'' (oneRule ''region'' OpIn ''us'') (act ''data.move'' [(''region'', ''us'')]) matched,
      mkCase ''in on absent field'' (oneRule ''region'' OpIn ''us,eu'') (act ''data.move'' []) unmatched,
      mkCase ''a doubled comma is not an empty member'' (oneRule ''region'' OpIn ''us,,eu'') (act ''data.move'' [(''region'', [])]) unmatched,
      mkCase ''a trailing comma is not an empty member'' (oneRule ''region'' OpIn ''us,eu,'') (act ''data.move'' [(''region'', [])]) unmatched,
      mkCase ''a space-only member is not a member'' (oneRule ''region'' OpIn ''us, ,eu'') (act ''data.move'' [(''region'', [])]) unmatched,
      mkCase ''members beside a discarded one still match'' (oneRule ''region'' OpIn ''us,,eu'') (act ''data.move'' [(''region'', ''eu'')]) matched]"

definition reserved_cases :: "Case list" where
  "reserved_cases =
     [mkCase ''action.type is matchable'' (oneRule FieldActionType OpEq ''payment.wire'') (act ''payment.wire'' []) matched,
      mkCase ''target is matchable'' (oneRule FieldTarget OpEq ''res-1'') (act ''payment.wire'' []) matched,
      mkCase ''an attribute cannot shadow a reserved field'' (oneRule FieldActionType OpEq ''payment.wire'')
        (act ''post.publish'' [(FieldActionType, ''payment.wire'')]) unmatched]"

definition conjunction_policy :: raw_policy where
  "conjunction_policy =
     suite_policy [mkRule ''r'' [cond ''amount'' OpGe ''100'', cond ''currency'' OpEq ''USD''] False True ''rule fired''] denyListDefault"

definition conjunction_cases :: "Case list" where
  "conjunction_cases =
     [mkCase ''all conditions must hold'' conjunction_policy
        (act ''payment.transfer'' [(''amount'', ''500''), (''currency'', ''USD'')]) matched,
      mkCase ''one failing condition sinks the rule'' conjunction_policy
        (act ''payment.transfer'' [(''amount'', ''500''), (''currency'', ''EUR'')]) unmatched,
      mkCase ''a rule with no conditions on the actions fields still needs them present'' conjunction_policy
        (act ''payment.transfer'' [(''amount'', ''500'')]) unmatched]"

definition wire_rule :: Rule where
  "wire_rule = mkRule ''forbidden'' [cond ''action.type'' OpEq ''payment.wire''] True False ''wires are forbidden''"

definition micro_rule :: Rule where
  "micro_rule = mkRule ''routine'' [cond ''amount'' OpLe ''25''] False False ''micro transfer''"

definition order_cases :: "Case list" where
  "order_cases =
     [mkCase ''the earlier of two matching rules wins''
        (suite_policy
           [mkRule ''first'' [cond ''amount'' OpGe ''100''] False True ''first fired'',
            mkRule ''second'' [cond ''audience'' OpEq ''external''] True False ''second fired''] denyListDefault)
        (act ''payment.transfer'' [(''amount'', ''500''), (''audience'', ''external'')])
        (mkWant True True ''first'' ''first fired''),
      mkCase ''order is the policys order, not the order of severity'' (suite_policy [micro_rule, wire_rule] denyListDefault)
        (act ''payment.wire'' [(''amount'', ''5'')]) (mkWant True False ''routine'' ''micro transfer''),
      mkCase ''a deny rule listed first wins over a later routine rule'' (suite_policy [wire_rule, micro_rule] denyListDefault)
        (act ''payment.wire'' [(''amount'', ''5'')]) (mkWant False False ''forbidden'' ''wires are forbidden'')]"

definition posture_cases :: "Case list" where
  "posture_cases =
     [mkCase ''deny-list posture: unmatched is routine'' (suite_policy [] denyListDefault) (act ''anything.at.all'' []) unmatched,
      mkCase ''allow-list posture: unmatched is consequential'' (suite_policy [] allowListDefault) (act ''anything.at.all'' [])
        (mkWant True True DefaultRule ''approval-gated by default''),
      mkCase ''a stated closed world denies with its stated reason''
        (suite_policy [] \<lparr>df_Allowed = False, df_Consequential = False, df_Reason = ''closed world: deny anything unmatched''\<rparr>)
        (act ''anything.at.all'' []) (mkWant False False DefaultRule ''closed world: deny anything unmatched''),
      mkCase ''a deny rule and a deny default are distinguishable by RuleFired'' (suite_policy [wire_rule] denyListDefault)
        (act ''payment.wire'' []) (mkWant False False ''forbidden'' ''wires are forbidden''),
      mkCase ''deny and consequential are independent bits''
        (suite_policy [mkRule ''both'' [cond ''action.type'' OpEq ''db.drop''] True True ''denied and consequential''] denyListDefault)
        (act ''db.drop'' []) (mkWant False True ''both'' ''denied and consequential'')]"

definition Cases :: "Case list" where
  "Cases = equality_cases @ numeric_cases @ incomparable_cases @ timestamp_cases @ member_cases @ reserved_cases @
     conjunction_cases @ order_cases @ posture_cases"

definition assertDecision :: "Decision \<Rightarrow> Want \<Rightarrow> string \<Rightarrow> bool" where
  "assertDecision got want version \<longleftrightarrow>
     d_Allowed got = wt_Allowed want \<and> d_Consequential got = wt_Consequential want \<and>
     d_RuleFired got = wt_RuleFired want \<and> d_Reason got = wt_Reason want \<and>
     (version = [] \<or> d_PolicyVersion got = version) \<and> d_StatusCheckedHops got = 0"

definition runCases :: "Case list \<Rightarrow> NewEvaluator \<Rightarrow> bool" where
  "runCases cases newEval =
     list_all (\<lambda>tc. case newEval (tc_Policy tc) of
        Inl _ \<Rightarrow> False
      | Inr (e, _) \<Rightarrow> assertDecision (e (tc_Action tc)) (tc_Want tc) ''conformance-v1'') cases"

section \<open>The example policies\<close>

text \<open>The files of \<^verbatim>\<open>examples/policies\<close> the suite reads.\<close>

definition commerce_security :: raw_policy where
  "commerce_security =
     \<lparr>raw_Ver = ''commerce-security-v1'',
      raw_Rules =
        [mkRule ''forbidden-wire'' [cond ''action.type'' OpEq ''payment.wire''] True False
           ''wire transfers are not permitted for agents in this environment'',
         mkRule ''high-value-transfer'' [cond ''action.type'' OpEq ''payment.transfer'', cond ''amount'' OpGe ''100''] False True
           ''transfers at or above $100 require a live status check and human approval'',
         mkRule ''production-deploy'' [cond ''action.type'' OpIn ''code.deploy,code.merge'', cond ''environment'' OpEq ''production''] False True
           ''changes to production are consequential'',
         mkRule ''external-audience'' [cond ''audience'' OpEq ''external''] False True
           ''externally visible actions are consequential''],
      raw_Default = Some \<lparr>df_Allowed = True, df_Consequential = False,
        df_Reason = ''routine action below all consequentiality thresholds''\<rparr>\<rparr>"

definition legal_ediscovery :: raw_policy where
  "legal_ediscovery =
     \<lparr>raw_Ver = ''legal-ediscovery-v1'',
      raw_Rules =
        [mkRule ''privileged-material'' [cond ''privileged'' OpEq ''true''] False True
           ''accessing privileged material requires attorney review'',
         mkRule ''bulk-export'' [cond ''action.type'' OpEq ''document.export'', cond ''docCount'' OpGe ''1000''] False True
           ''bulk document export (>= 1000 docs) requires supervising-partner approval'',
         mkRule ''external-production'' [cond ''action.type'' OpEq ''document.produce'', cond ''audience'' OpEq ''opposing-counsel''] False True
           ''producing documents to opposing counsel is consequential''],
      raw_Default = Some \<lparr>df_Allowed = True, df_Consequential = False,
        df_Reason = (''routine review action; not consequential under this matter'' @ [CHR 0x27] @ ''s protocol'')\<rparr>\<rparr>"

definition commerce_allowlist :: raw_policy where
  "commerce_allowlist =
     \<lparr>raw_Ver = ''commerce-security-allowlist-v1'',
      raw_Rules =
        [mkRule ''forbidden-wire'' [cond ''action.type'' OpEq ''payment.wire''] True False
           ''wire transfers are not permitted for agents in this environment'',
         mkRule ''read-only-lookup'' [cond ''action.type'' OpIn ''account.read,payment.status,invoice.view''] False False
           ''read-only lookups change nothing and are routine'',
         mkRule ''micro-transfer'' [cond ''action.type'' OpEq ''payment.transfer'', cond ''amount'' OpLe ''25''] False False
           (''transfers at or below $25 are routine under this deployment'' @ [CHR 0x27] @ ''s risk appetite''),
         mkRule ''internal-post'' [cond ''action.type'' OpEq ''post.publish'', cond ''audience'' OpEq ''internal''] False False
           ''internally visible posts are routine''],
      raw_Default = Some \<lparr>df_Allowed = True, df_Consequential = True,
        df_Reason = ''no routine rule matched; default-consequential (allow-list posture)''\<rparr>\<rparr>"

record example =
  xc_Action :: Action
  xc_Allowed :: bool
  xc_Conseq :: bool
  xc_RuleFired :: string

definition exampleCase :: "Action \<Rightarrow> bool \<Rightarrow> bool \<Rightarrow> string \<Rightarrow> example" where
  "exampleCase a allowed conseq rule = \<lparr>xc_Action = a, xc_Allowed = allowed, xc_Conseq = conseq, xc_RuleFired = rule\<rparr>"

definition commerce_examples :: "example list" where
  "commerce_examples =
     [exampleCase (act ''payment.transfer'' [(''amount'', ''50'')]) True False DefaultRule,
      exampleCase (act ''payment.transfer'' [(''amount'', ''100'')]) True True ''high-value-transfer'',
      exampleCase (act ''payment.transfer'' [(''amount'', ''500'')]) True True ''high-value-transfer'',
      exampleCase (act ''payment.wire'' [(''amount'', ''10'')]) False False ''forbidden-wire'',
      exampleCase (act ''code.deploy'' [(''environment'', ''production'')]) True True ''production-deploy'',
      exampleCase (act ''code.deploy'' [(''environment'', ''staging'')]) True False DefaultRule,
      exampleCase (act ''post.publish'' [(''audience'', ''external'')]) True True ''external-audience'',
      exampleCase (act ''post.publish'' [(''audience'', ''internal'')]) True False DefaultRule,
      exampleCase (act ''payment.transfer'' [(''amount'', ''500''), (''audience'', ''external'')]) True True ''high-value-transfer'',
      exampleCase (act ''document.export'' [(''docCount'', ''2000'')]) True False DefaultRule]"

definition legal_examples :: "example list" where
  "legal_examples =
     [exampleCase (act ''document.review'' [(''privileged'', ''true'')]) True True ''privileged-material'',
      exampleCase (act ''document.review'' [(''privileged'', ''false'')]) True False DefaultRule,
      exampleCase (act ''document.export'' [(''docCount'', ''2000'')]) True True ''bulk-export'',
      exampleCase (act ''document.export'' [(''docCount'', ''500'')]) True False DefaultRule,
      exampleCase (act ''document.produce'' [(''audience'', ''opposing-counsel'')]) True True ''external-production'',
      exampleCase (act ''payment.transfer'' [(''amount'', ''500'')]) True False DefaultRule]"

definition allowlist_examples :: "example list" where
  "allowlist_examples =
     [exampleCase (act ''account.read'' []) True False ''read-only-lookup'',
      exampleCase (act ''payment.status'' []) True False ''read-only-lookup'',
      exampleCase (act ''payment.transfer'' [(''amount'', ''10'')]) True False ''micro-transfer'',
      exampleCase (act ''payment.transfer'' [(''amount'', ''25'')]) True False ''micro-transfer'',
      exampleCase (act ''post.publish'' [(''audience'', ''internal'')]) True False ''internal-post'',
      exampleCase (act ''payment.transfer'' [(''amount'', ''26'')]) True True DefaultRule,
      exampleCase (act ''database.drop'' []) True True DefaultRule,
      exampleCase (act ''post.publish'' [(''audience'', ''external'')]) True True DefaultRule,
      exampleCase (act ''payment.transfer'' []) True True DefaultRule,
      exampleCase (act ''payment.wire'' [(''amount'', ''1'')]) False False ''forbidden-wire'',
      exampleCase (act ''payment.wire'' [(''amount'', ''5'')]) False False ''forbidden-wire'']"

definition example_files :: "(raw_policy \<times> string \<times> example list) list" where
  "example_files =
     [(commerce_security, ''commerce-security-v1'', commerce_examples),
      (legal_ediscovery, ''legal-ediscovery-v1'', legal_examples),
      (commerce_allowlist, ''commerce-security-allowlist-v1'', allowlist_examples)]"

definition runExamples :: "(raw_policy \<times> string \<times> example list) list \<Rightarrow> NewEvaluator \<Rightarrow> bool" where
  "runExamples examples newEval =
     list_all (\<lambda>(raw, version, cases). case newEval raw of
        Inl _ \<Rightarrow> False
      | Inr (e, v) \<Rightarrow>
          v = version \<and>
          list_all (\<lambda>tc. let got = e (xc_Action tc) in
            d_Allowed got = xc_Allowed tc \<and> d_Consequential got = xc_Conseq tc \<and> d_RuleFired got = xc_RuleFired tc \<and>
            d_PolicyVersion got = version \<and> d_Reason got \<noteq> []) cases) examples"

definition version_policy :: raw_policy where
  "version_policy = \<lparr>raw_Ver = ''a-particular-version'', raw_Rules = [], raw_Default = Some denyListDefault\<rparr>"

definition suite_Run :: "NewEvaluator \<Rightarrow> bool" where
  "suite_Run newEval \<longleftrightarrow>
     runCases Cases newEval \<and> runExamples example_files newEval \<and>
     (case newEval version_policy of Inl _ \<Rightarrow> False | Inr (_, v) \<Rightarrow> v = ''a-particular-version'')"

section \<open>Evaluation of numbers\<close>

text \<open>
  The values of the number literals that occur in the suite.  They are computed once, with
  binary arithmetic, and then serve as a code equation.
\<close>

lemmas scanning = readFloat_def strip_sign_def mant0_def digit_val_def hex_digit_def
  is_digit_def mant_value_def pow_int_def lower_def Let_def

lemmas rounding = round64_def round_pos_def floor_log2_def pow_int_def round_half_even_def ilog2.simps Let_def

lemma ilog2_bounds: "0 < n \<Longrightarrow> 2 ^ ilog2 n \<le> n \<and> n < 2 ^ Suc (ilog2 n)"
proof (induction n rule: ilog2.induct)
  case (1 n)
  show ?case
  proof (cases "n < 2")
    case True
    with 1(2) show ?thesis by (simp add: ilog2.simps [of n])
  next
    case False
    then have "2 ^ ilog2 (n div 2) \<le> n div 2 \<and> n div 2 < 2 ^ Suc (ilog2 (n div 2))" using 1(1) by simp
    with False show ?thesis by (simp add: ilog2.simps [of n]) linarith
  qed
qed

lemma round_half_even_floor: "\<lfloor>x\<rfloor> \<le> round_half_even x"
  by (simp add: round_half_even_def Let_def)

text \<open>An integer of 1024 bits or more is out of the range of a float.\<close>

lemma round64_overflow:
  assumes "2 ^ 1024 \<le> \<bar>i\<bar>"
  shows "round64 (of_int i) = None"
proof -
  define n where "n = nat \<bar>i\<bar>"
  define e where "e = ilog2 n"
  have n: "2 ^ 1024 \<le> n" "0 < n" and i: "\<bar>of_int i\<bar> = (of_nat n :: rat)"
    using assms by (simp_all add: n_def nat_le_iff)
  then have b: "2 ^ e \<le> n" "n < 2 ^ Suc e" using ilog2_bounds unfolding e_def by auto
  from n(1) b(2) have "(2 :: nat) ^ 1024 < 2 ^ Suc e" by (rule le_less_trans)
  then have "1024 < Suc e" by (rule power_less_imp_less_exp [rotated]) simp
  then have e: "1024 \<le> e" by simp
  have be: "(2 ^ e :: rat) \<le> of_nat n" using b(1) by (metis of_nat_le_iff of_nat_numeral of_nat_power)
  have q: "quotient_of (of_nat n) = (int n, 1)" using quotient_of_int [of "int n"] by simp
  have fl: "floor_log2 (of_nat n) = int e"
    using be by (simp add: floor_log2_def q e_def [symmetric] pow_int_def ilog2.simps [of "Suc 0"])
  have ulp: "pow_int 2 (max (int e) (- 1022) - 52) = (2 :: rat) ^ (e - 52)"
    using e by (simp add: pow_int_def nat_diff_distrib)
  have split: "(2 :: rat) ^ e = 2 ^ 52 * 2 ^ (e - 52)" using e power_add [of "2 :: rat" 52 "e - 52"] by simp
  have "(2 :: rat) ^ 52 \<le> of_nat n / 2 ^ (e - 52)" using be unfolding split by (simp add: pos_le_divide_eq)
  then have "(2 :: int) ^ 52 \<le> \<lfloor>of_nat n / (2 :: rat) ^ (e - 52)\<rfloor>" by (simp add: le_floor_iff)
  then have "(2 :: int) ^ 52 \<le> round_half_even (of_nat n / 2 ^ (e - 52))"
    using round_half_even_floor order_trans by blast
  then have "(2 :: rat) ^ 52 \<le> of_int (round_half_even (of_nat n / 2 ^ (e - 52)))"
    by (metis of_int_le_iff of_int_numeral of_int_power)
  then have "(2 :: rat) ^ e \<le> round_pos (of_nat n)"
    unfolding round_pos_def fl ulp Let_def split by (intro mult_right_mono) simp_all
  moreover have "(2 :: rat) ^ 1024 \<le> 2 ^ e" using e by (rule power_increasing) simp
  ultimately have "2 ^ 1024 \<le> round_pos (of_nat n)" by (rule order_trans [rotated])
  moreover have "of_int i \<noteq> (0 :: rat)" using i n(2) by auto
  ultimately show ?thesis by (simp add: round64_def i)
qed

text \<open>The time of day in seconds as an integer, for evaluation.\<close>

definition clock_int :: "string \<Rightarrow> (int \<times> string) option" where
  "clock_int s =
     (case Option.bind (literal CHR ''T'' s) (getnum False) of
        None \<Rightarrow> None
      | Some (h, s1) \<Rightarrow>
          if h \<ge> 24 then None
          else (case Option.bind (literal CHR '':'' s1) (getnum True) of
              None \<Rightarrow> None
            | Some (mi, s2) \<Rightarrow>
                if mi \<ge> 60 then None
                else (case Option.bind (literal CHR '':'' s2) (getnum True) of
                    None \<Rightarrow> None
                  | Some (sec, s3) \<Rightarrow>
                      if sec \<ge> 60 then None else Some (int h * 3600 + int mi * 60 + int sec, s3))))"

lemma clock_int_eq: "clock_int s = map_option (\<lambda>(n, r). (int n, r)) (parse_clock s)"
  by (simp add: clock_int_def parse_clock_def split: option.split prod.split)

lemma ParseRFC3339_code [code]:
  "ParseRFC3339 s =
     (case parse_date s of
        None \<Rightarrow> None
      | Some (day, s1) \<Rightarrow>
          (case clock_int s1 of
             None \<Rightarrow> None
           | Some (sod, s2) \<Rightarrow>
               let (ns, s3) = parse_fraction s2 in
               (case parse_zone s3 of
                  None \<Rightarrow> None
                | Some off \<Rightarrow>
                    Some \<lparr>unix_ns = (day * 86400 + sod - off) * 1000000000 + int ns, zone_off = off\<rparr>)))"
  by (simp add: ParseRFC3339_def clock_int_eq split: option.split prod.split)

definition integers :: "(string \<times> rat) list" where
  "integers =
     [(''0'', 0), (''1'', 1), (''5'', 5), (''10'', 10), (''25'', 25), (''26'', 26), (''50'', 50), (''99'', 99), (''100'', 100), (''500'', 500), (''1000'', 1000), (''2000'', 2000), (''-5'', - 5)]"

definition decimals :: "(string \<times> rat \<times> rat) list" where
  "decimals = [(''24.9'', 249 / 10, 3504363460047667 / 140737488355328), (''100.01'', 10001 / 100, 7037578105208177 / 70368744177664)]"

lemma integers_scanned: "list_all (\<lambda>(s, x). readFloat s = Some x) integers"
  by (simp add: integers_def scanning)

lemma integers_rounded: "list_all (\<lambda>(s, x). round64 x = Some (Fin x)) integers"
  by (simp add: integers_def rounding)

lemma decimals_scanned: "list_all (\<lambda>(s, x, y). readFloat s = Some x) decimals"
  by (simp add: decimals_def scanning)

lemma decimals_rounded: "list_all (\<lambda>(s, x, y). round64 x = Some (Fin y)) decimals"
proof -
  have "quotient_of (249 / 10) = (249, 10)" "quotient_of (10001 / 100) = (10001, 100)" by code_simp+
  moreover have "\<lfloor>35043634600476672 / 5 :: rat\<rfloor> = 7008726920095334" "\<lfloor>175939452630204416 / 25 :: rat\<rfloor> = 7037578105208176"
    by (rule floor_unique; simp)+
  ultimately show ?thesis by (simp add: decimals_def rounding)
qed

lemma huge_overflows: "Option.bind (readFloat ''-1e400'') round64 = None"
proof -
  have "(2 :: int) ^ 1024 \<le> \<bar>- (10 ^ 400)\<bar>" by simp
  from round64_overflow [OF this] have "round64 (- (10 ^ 400)) = None" by simp
  moreover have "readFloat ''-1e400'' = Some (- (10 ^ 400))" by (simp add: scanning)
  ultimately show ?thesis by simp
qed

definition literals :: "(string \<times> rat option) list" where
  "literals = map (\<lambda>(s, x). (s, Some x)) integers @ map (\<lambda>(s, x, y). (s, Some y)) decimals @ [(''-1e400'', None)]"

lemma literals_shape: "list_all (\<lambda>(s, r). ParseRFC3339 s = None \<and> special s = None) literals"
  by code_simp

lemma literals_float: "(s, r) \<in> set literals \<Longrightarrow> Option.bind (readFloat s) round64 = map_option Fin r"
  using integers_scanned integers_rounded decimals_scanned decimals_rounded huge_overflows
  by (fastforce simp: literals_def list_all_iff)

definition unordered :: "string list" where
  "unordered = [''-Inf'', ''Inf'', ''Infinity'', ''lots'', [], ''0x10'']"

lemma unordered_None: "list_all (\<lambda>s. scalar_Parse s = None) unordered"
  by code_simp

definition instants :: "(string \<times> int) list" where
  "instants =
     [(''2025-01-01T00:00:00Z'', 1735689600000000000),
      (''2026-01-01T00:00:00Z'', 1767225600000000000),
      (''2026-09-09T00:00:00Z'', 1788912000000000000),
      (''2027-01-01T00:00:00Z'', 1798761600000000000),
      (''2026-06-01T12:00:00Z'', 1780315200000000000)]"

lemma instants_parsed: "list_all (\<lambda>(s, i). ParseRFC3339 s = Some \<lparr>unix_ns = i, zone_off = 0\<rparr>) instants"
  by code_simp

definition operands :: "(string \<times> Value option) list" where
  "operands =
     map (\<lambda>(s, r). (s, map_option (\<lambda>x. \<lparr>nanos = 0, num = Fin x, isTime = False\<rparr>) r)) literals @
     map (\<lambda>s. (s, None)) unordered @
     map (\<lambda>(s, i). (s, Some \<lparr>nanos = word_of_int i, num = Fin 0, isTime = True\<rparr>)) instants"

lemma instants_in_window: "list_all (\<lambda>(s, i). MinInt64 \<le> i \<and> i \<le> MaxInt64) instants"
  by (simp add: instants_def MinInt64_def MaxInt64_def)

lemma operands_parsed:
  assumes "(s, r) \<in> set operands"
  shows "scalar_Parse s = r"
proof -
  consider (number) x where "(s, x) \<in> set literals" "r = map_option (\<lambda>x. \<lparr>nanos = 0, num = Fin x, isTime = False\<rparr>) x"
    | (none) "s \<in> set unordered" "r = None"
    | (instant) i where "(s, i) \<in> set instants" "r = Some \<lparr>nanos = word_of_int i, num = Fin 0, isTime = True\<rparr>"
    using assms by (auto simp: operands_def)
  then show ?thesis
  proof cases
    case number
    then have "ParseRFC3339 s = None" "special s = None" using literals_shape by (auto simp: list_all_iff)
    with number show ?thesis by (cases x) (simp_all add: scalar_Parse_def ParseFloat_def literals_float)
  next
    case none
    then show ?thesis using unordered_None by (simp add: list_all_iff)
  next
    case instant
    then have "ParseRFC3339 s = Some \<lparr>unix_ns = i, zone_off = 0\<rparr>" "MinInt64 \<le> i" "i \<le> MaxInt64"
      using instants_parsed instants_in_window by (auto simp: list_all_iff)
    with instant show ?thesis by (simp add: scalar_Parse_def in_window_def UnixNano_def)
  qed
qed

lemma scalar_Parse_code [code]:
  "scalar_Parse s =
     (case map_of operands s of
        Some r \<Rightarrow> r
      | None \<Rightarrow>
         (case ParseRFC3339 s of
            Some t \<Rightarrow>
              if \<not> in_window t then None
              else Some \<lparr>nanos = UnixNano t, num = Fin 0, isTime = True\<rparr>
          | None \<Rightarrow>
              (case ParseFloat s of
                 Some f \<Rightarrow>
                   if f = PInf \<or> f = NInf then None
                   else Some \<lparr>nanos = 0, num = f, isTime = False\<rparr>
               | None \<Rightarrow> None)))"
  unfolding scalar_Parse_def [symmetric] by (auto dest!: map_of_SomeD operands_parsed split: option.split)

text \<open>Text between visible bytes is trimmed already.\<close>

definition graphic :: "char \<Rightarrow> bool" where
  "graphic c \<longleftrightarrow> 32 < ord c \<and> ord c < 127"

lemma graphic_space_len: "graphic c \<Longrightarrow> space_len (c # s) = 0 \<and> rspace_len (c # s) = 0"
  by (auto simp: graphic_def ascii_space_def nb_space_def wide_space_def split: list.split)

lemma TrimSpace_code [code]:
  "TrimSpace s =
     (if s \<noteq> [] \<and> graphic (hd s) \<and> graphic (last s) then s
      else rev (drop_spaces rspace_len (rev (drop_spaces space_len s))))"
proof (cases "s \<noteq> [] \<and> graphic (hd s) \<and> graphic (last s)")
  case True
  then obtain c t where "s = c # t" "graphic c" by (cases s) auto
  moreover from True obtain d u where "rev s = d # u" "graphic d" by (cases "rev s") (auto simp: last_rev hd_rev [symmetric])
  ultimately show ?thesis using True graphic_space_len by (simp add: TrimSpace_id)
qed (auto simp: TrimSpace_def)

section \<open>The classifier meets it\<close>

definition classifier :: "(string \<Rightarrow> string) \<Rightarrow> NewEvaluator" where
  "classifier q raw = map_sum id (\<lambda>p. (Policy_Evaluate q p, Policy_Version p)) (Policy_Parse (\<lambda>_. Some raw) [])"

text \<open>
  Evaluation on the field map of an action at \<open>fixedTime\<close>, whose \<open>expiry\<close> is a constant text.
\<close>

definition evaluate_in :: "(string \<Rightarrow> string) \<Rightarrow> Policy \<Rightarrow> context_map \<Rightarrow> Decision" where
  "evaluate_in q p ctx =
     (case evaluate_rules q (Ver p) ctx (Rules p) of
        Some d \<Rightarrow> d
      | None \<Rightarrow>
          \<lparr>d_Allowed = df_Allowed (pDefault p), d_Consequential = df_Consequential (pDefault p),
           d_RuleFired = DefaultRule, d_PolicyVersion = Ver p, d_StatusCheckedHops = 0,
           d_Reason = df_Reason (pDefault p)\<rparr>)"

definition fixed_context :: "Action \<Rightarrow> context_map" where
  "fixed_context a =
     (map_of (a_Attributes a))
       (FieldActionType \<mapsto> a_Type a, FieldTarget \<mapsto> a_Target a, FieldExpiry \<mapsto> ''2026-06-01T12:00:00Z'')"

lemma fixedTime_text: "RFC3339Nano (UTC fixedTime) = ''2026-06-01T12:00:00Z''"
proof -
  have c: "civil 20605 = (2026, 6, 1)" by code_simp
  have p: "pad 2 6 = ''06''" "pad 2 (Suc 0) = ''01''" "pad 2 12 = ''12''" "pad 2 0 = ''00''" by code_simp+
  have y: "pad_int 4 2026 = ''2026''" by code_simp
  show ?thesis
    by (simp add: RFC3339Nano_def UTC_def fixedTime_def c p y fraction_def zone_text_def)
qed

lemma Context_fixed: "a_Timestamp a = fixedTime \<Longrightarrow> Context a = fixed_context a"
  by (simp add: Context_def fixed_context_def fixedTime_text)

text \<open>What \<^verbatim>\<open>%q\<close> does to printable ASCII without quotation mark and backslash.\<close>

definition plain :: "string \<Rightarrow> bool" where
  "plain s = list_all (\<lambda>c. c \<noteq> CHR 0x22 \<and> c \<noteq> CHR 0x5C \<and> 32 \<le> ord c \<and> ord c < 127) s"

definition plain_quoting :: "(string \<Rightarrow> string) \<Rightarrow> bool" where
  "plain_quoting q \<longleftrightarrow> (\<forall>s. plain s \<longrightarrow> q s = quoted s)"

lemma evaluate_rules_quoting:
  "plain_quoting q \<Longrightarrow> list_all (plain \<circ> r_Name) rs \<Longrightarrow> evaluate_rules q ver ctx rs = evaluate_rules quoted ver ctx rs"
  by (induction rs) (simp_all add: plain_quoting_def split_beta)

definition evaluates :: "raw_policy \<Rightarrow> Action \<Rightarrow> (Decision \<Rightarrow> bool) \<Rightarrow> bool" where
  "evaluates raw a P \<longleftrightarrow> a_Timestamp a = fixedTime \<and> P (evaluate_in quoted (Policy_UnmarshalJSON raw) (fixed_context a))"

definition loads :: "raw_policy \<Rightarrow> bool" where
  "loads raw \<longleftrightarrow> is_ok (Policy_Validate (Policy_UnmarshalJSON raw)) \<and> list_all (plain \<circ> r_Name) (raw_Rules raw)"

lemma classifier_loads:
  "loads raw \<Longrightarrow> classifier q raw = Inr (Policy_Evaluate q (Policy_UnmarshalJSON raw), raw_Ver raw)"
  by (auto simp: loads_def classifier_def Policy_Parse_def Policy_Version_def Policy_UnmarshalJSON_def Let_def)

lemma classifier_evaluates:
  assumes "plain_quoting q" and "loads raw" and "evaluates raw a P"
  shows "P (Policy_Evaluate q (Policy_UnmarshalJSON raw) a)"
proof -
  have "Rules (Policy_UnmarshalJSON raw) = raw_Rules raw" by (simp add: Policy_UnmarshalJSON_def split: option.split)
  then have "Policy_Evaluate q (Policy_UnmarshalJSON raw) a = evaluate_in quoted (Policy_UnmarshalJSON raw) (fixed_context a)"
    using assms by (simp add: loads_def evaluates_def Policy_Evaluate_def evaluate_in_def Context_fixed evaluate_rules_quoting)
  with assms(3) show ?thesis by (simp add: evaluates_def)
qed

definition case_holds :: "Case \<Rightarrow> bool" where
  "case_holds tc \<longleftrightarrow> loads (tc_Policy tc) \<and>
     evaluates (tc_Policy tc) (tc_Action tc) (\<lambda>d. assertDecision d (tc_Want tc) ''conformance-v1'')"

lemma runCases_hold:
  assumes "plain_quoting q" and "list_all case_holds cs"
  shows "runCases cs (classifier q)"
  using assms(2) unfolding runCases_def
proof (rule list.pred_mono_strong)
  fix tc assume "case_holds tc"
  then have "loads (tc_Policy tc)"
    and "evaluates (tc_Policy tc) (tc_Action tc) (\<lambda>d. assertDecision d (tc_Want tc) ''conformance-v1'')"
    by (simp_all add: case_holds_def)
  then show "case classifier q (tc_Policy tc) of Inl _ \<Rightarrow> False
      | Inr (e, _) \<Rightarrow> assertDecision (e (tc_Action tc)) (tc_Want tc) ''conformance-v1''"
    using classifier_evaluates [OF assms(1)] by (simp add: classifier_loads)
qed

definition example_holds :: "raw_policy \<Rightarrow> string \<Rightarrow> example \<Rightarrow> bool" where
  "example_holds raw version tc \<longleftrightarrow>
     evaluates raw (xc_Action tc) (\<lambda>got. d_Allowed got = xc_Allowed tc \<and> d_Consequential got = xc_Conseq tc \<and>
       d_RuleFired got = xc_RuleFired tc \<and> d_PolicyVersion got = version \<and> d_Reason got \<noteq> [])"

lemma runExamples_Cons:
  assumes q: "plain_quoting q" and l: "loads raw" and cs: "list_all (example_holds raw (raw_Ver raw)) cs"
    and fs: "runExamples fs (classifier q)"
  shows "runExamples ((raw, raw_Ver raw, cs) # fs) (classifier q)"
proof -
  let ?e = "Policy_Evaluate q (Policy_UnmarshalJSON raw)"
  have "list_all (\<lambda>tc. let got = ?e (xc_Action tc) in
      d_Allowed got = xc_Allowed tc \<and> d_Consequential got = xc_Conseq tc \<and> d_RuleFired got = xc_RuleFired tc \<and>
      d_PolicyVersion got = raw_Ver raw \<and> d_Reason got \<noteq> []) cs"
    using cs
  proof (rule list.pred_mono_strong)
    fix tc assume "example_holds raw (raw_Ver raw) tc"
    then show "let got = ?e (xc_Action tc) in
        d_Allowed got = xc_Allowed tc \<and> d_Consequential got = xc_Conseq tc \<and> d_RuleFired got = xc_RuleFired tc \<and>
        d_PolicyVersion got = raw_Ver raw \<and> d_Reason got \<noteq> []"
      unfolding example_holds_def Let_def by (rule classifier_evaluates [OF q l])
  qed
  with fs show ?thesis by (simp add: runExamples_def classifier_loads [OF l])
qed

lemma examples_version:
  "raw_Ver commerce_security = ''commerce-security-v1''" "raw_Ver legal_ediscovery = ''legal-ediscovery-v1''"
  "raw_Ver commerce_allowlist = ''commerce-security-allowlist-v1''"
  by (simp_all add: commerce_security_def legal_ediscovery_def commerce_allowlist_def)

text \<open>The evaluation itself, in one pass.\<close>

lemma suite_holds:
  "list_all case_holds equality_cases \<and> list_all case_holds numeric_cases \<and> list_all case_holds incomparable_cases \<and>
   list_all case_holds timestamp_cases \<and> list_all case_holds member_cases \<and> list_all case_holds reserved_cases \<and>
   list_all case_holds conjunction_cases \<and> list_all case_holds order_cases \<and> list_all case_holds posture_cases \<and>
   loads commerce_security \<and> list_all (example_holds commerce_security ''commerce-security-v1'') commerce_examples \<and>
   loads legal_ediscovery \<and> list_all (example_holds legal_ediscovery ''legal-ediscovery-v1'') legal_examples \<and>
   loads commerce_allowlist \<and>
   list_all (example_holds commerce_allowlist ''commerce-security-allowlist-v1'') allowlist_examples \<and>
   loads version_policy"
  by code_simp



end
