(* ===== verification/Spec2Isabelle.thy ===== *)
theory Spec2Isabelle
  imports Durable Mcp Shadow Serve_Cmd Verify_Cmd Daemon Agent Policy_Suite Lifecycle
begin

text \<open>
  \<^bold>\<open>Kessa: delegated authority, enforcement and independent verification.\<close>

  Kessa lets humans and organisations delegate narrowly scoped authority to software agents,
  enforces that authority at one chokepoint, and produces an export that a third party can
  verify without trusting the enforcement point.  This development models the packages under
  \<^verbatim>\<open>src/internal\<close> and \<^verbatim>\<open>src/pkg\<close> that carry that logic, and the commands under \<^verbatim>\<open>src/cmd\<close> that
  configure and run it.

  \<^bold>\<open>Parts and theories.\<close>

  \<^item> \<open>Go_Prelude\<close>, \<open>Go_Encoding\<close>, \<open>Go_JSON\<close>, \<open>Go_Time\<close>, \<open>Go_Float\<close>: what the code uses of Go's
    standard library (strings, base64, \<^verbatim>\<open>encoding/json\<close> output, RFC 3339 times, float parsing),
    written out as functions, and the shared lemmas on error results.
  \<^item> \<open>Scalar\<close> (\<^verbatim>\<open>internal/scalar\<close>) and \<open>Kessa_Types\<close> (\<^verbatim>\<open>pkg/types\<close>): comparable values and the
    action's field map.
  \<^item> \<open>Macaroon\<close> (\<^verbatim>\<open>internal/macaroon\<close>): caveats that only narrow.
  \<^item> \<open>Policy\<close> (\<^verbatim>\<open>internal/policy\<close>): the classifier with an indeterminate outcome.
  \<^item> \<open>Signer\<close>, \<open>Did\<close>, \<open>Status\<close>, \<open>Credential\<close>, \<open>Chain\<close> (the packages of those names and
    \<^verbatim>\<open>internal/vc\<close>): keys, documents, revocation lists, credentials with proof of possession,
    and delegation chains.
  \<^item> \<open>Audit_Log\<close> (\<^verbatim>\<open>internal/audit\<close>): the hash-chained signed log and approvals.
  \<^item> \<open>Evidence\<close> and \<open>Verifier\<close> (\<^verbatim>\<open>internal/export\<close>): content-addressed evidence, the signed
    envelope, and the verifier.
  \<^item> \<open>Wal\<close>, \<open>Enforce\<close> (\<^verbatim>\<open>internal/enforce\<close>): the durable log and the chokepoint.
  \<^item> \<open>Http_Api\<close>, \<open>Mcp\<close> (\<^verbatim>\<open>http.go\<close>, \<^verbatim>\<open>ingress.go\<close>, \<^verbatim>\<open>mcp.go\<close> of \<^verbatim>\<open>internal/enforce\<close>): the two listeners
    in front of the chokepoint, and the HTTP client.
  \<^item> \<open>Web_Host\<close> (\<^verbatim>\<open>internal/webhost\<close>) and \<open>Did_Web\<close> (\<^verbatim>\<open>internal/did\<close>, \<^verbatim>\<open>internal/status\<close>): host syntax,
    \<^verbatim>\<open>did:web\<close> parsing, the file and web resolvers, publication paths.
  \<^item> \<open>Issuer\<close> (\<^verbatim>\<open>internal/keystore\<close>, \<^verbatim>\<open>cmd/issuer/publish.go\<close>): publication and revocation.
  \<^item> \<open>Enroll\<close> (\<^verbatim>\<open>internal/enroll\<close>): the enrollment of device keys.
  \<^item> \<open>Shadow\<close> (\<^verbatim>\<open>internal/shadow\<close>): predictions of a candidate policy.
  \<^item> \<open>Policy_Suite\<close> (\<^verbatim>\<open>internal/policy/conformance\<close>): the suite of cases every evaluator must meet.
  \<^item> \<open>Signerd\<close> (\<^verbatim>\<open>internal/signerd\<close>): the signing daemon's key set, its connections and its client.
  \<^item> \<open>Strict_Config\<close> (\<^verbatim>\<open>internal/config\<close>): strict decoding of configuration files, over a datatype of
    Go types, and the flags a schema covers.
  \<^item> \<open>Serve_Config\<close>, \<open>Proxy_Cmd\<close>, \<open>Serve_Cmd\<close> (\<^verbatim>\<open>cmd/proxy\<close>): the proxy's configuration, its batch
    run, and its start as a server.
  \<^item> \<open>Verify_Cmd\<close> (\<^verbatim>\<open>cmd/verify\<close>), \<open>Agent\<close> (\<^verbatim>\<open>cmd/agent\<close>), \<open>Daemon\<close> (\<^verbatim>\<open>daemon.go\<close> and \<^verbatim>\<open>config.go\<close> of
    \<^verbatim>\<open>cmd/issuer\<close>): the other commands, with their exit codes.
  \<^item> \<open>Proxy_Correct\<close>, \<open>Durable\<close>, \<open>Conformance\<close>, \<open>Lifecycle\<close>: what the chokepoint guarantees, alone, with
    the durable log, against the verifier, and after a revocation by the issuer.

  \<^bold>\<open>How the parts interact.\<close>  A request carries a chain of credentials, an action, a proof of
  possession and possibly an approval.  \<open>Handle\<close> verifies the chain (\<open>Chain_Verify\<close>) and the
  possession at the log's tip, decides (\<open>decide\<close>: policy, caveats, status, approval), seals an
  entry (\<open>Seal\<close>), writes it durably (\<open>WAL_Append\<close>), commits it with its evidence (\<open>Commit\<close>,
  \<open>CredentialSet_Add\<close>) and forwards a summary.  \<open>Proxy_Export\<close> signs an envelope over the log;
  \<open>Export_Verify\<close> re-derives every step from the export and public documents.  Requests arrive
  through \<open>Handler\<close> and \<open>MCP_ServeHTTP\<close>, which call \<open>Handle\<close> on one shared proxy.  \<open>publish\<close> writes the
  documents and lists that the resolvers read, and \<open>PredictAll\<close> replays a log against a policy.
  \<open>cmdRun\<close> and \<open>cmdServe\<close> build the proxy from files and flags, with a key from the keystore or
  from \<open>cmdDaemon\<close> through \<open>Dial\<close>; \<open>cmdAttempt\<close> is the agent that fetches the tip, signs and submits;
  \<open>verify_run\<close> reads an export and reports.

  \<^bold>\<open>Conventions.\<close>  A Go struct is a record, an error a constructor of the component's error
  datatype, a function with an error result a value of a sum type (\<open>Inl\<close> the error).  Methods
  that mutate return the new state.  Byte slices and strings are \<^typ>\<open>string\<close>; sequence
  numbers are 64-bit words; Go maps are partial functions or association lists.  Code outside
  the repository is a parameter: the record \<open>crypto\<close> (hash, HMAC, Ed25519, P-256, with
  \<open>crypto_laws\<close> stating their documented behaviour), resolvers, the JSON decoder, the disk, the
  clock, and the texts of wrapped errors.

  \<^bold>\<open>What is shown.\<close>  Macaroon attenuation only removes authority, and the key-free check agrees
  with it; chain verification is characterised exactly and authority shrinks along a chain;
  every signed message determines what it is about; the log is tamper evident and its
  failure index exact; a pass of the verifier implies that every allow was justified; an
  allow of the proxy implies every check; the proxy's log invariant holds in every reachable
  state under any traffic to the two listeners; an attributable request is answered; a
  decision follows its durable record and a restart resumes; and the honest proxy's export
  passes the verifier.  The listeners reach the chokepoint only with guarded requests whose
  headers and body agree, and the client sees exactly the chokepoint's answer.  Identifiers
  map to files and URLs without escaping the directory or adding URL structure, network
  resolution stays on permitted hosts, a published directory verifies by itself,
  revocation flips one bit and takes effect on a running proxy, and an enrolled device can
  prove its authority.  Replaying a log
  against its own policy finds no disagreement.  Ordering of operands is exact at the width of
  64-bit instants and floats, and the classifier meets the repository's conformance suite.
  The export of a batch run passes the verifier command; a proxy starts only on the addresses
  configured, loopback unless asked otherwise; both configuration checks predict the start;
  a configuration is read only as it is spelled; the daemon answers its owner only, over a
  guarded socket, with the keys it was given; a brokered key signs as the held one; and an
  agent with the right key is answered.
  Some theorems show behaviour the code's own documentation rules out: an ambiguous caveat
  encoding, an unverified approval that spoils an export, a failed sync that spoils
  recovery, a header on which the MCP endpoint panics, two identifiers that share a file, an
  enrollment that replaces its organisation's document, a routine key that takes the place of
  an approval key, a refused start that leaves files behind, and a socket path at which any file
  is replaced.

  \<^bold>\<open>Bounds.\<close>  The P-256 key search is bounded by 128 attempts as in the code; all other loops
  are structural recursions or have a measure.  \<open>FlushSink\<close> runs against a finite schedule and
  is \<^const>\<open>None\<close> while it waits.

  \<^bold>\<open>Not modelled.\<close>  The commands \<^verbatim>\<open>cmd/shadow\<close> and the flag parsing and printing of
  \<^verbatim>\<open>cmd/issuer\<close> around publication and enrollment; the shadow evaluator's output formats and the
  layout of printed reports; deadlines of connections and servers; generation of random keys
  and challenges; decoding of JSON text, URLs and media types (their results are arguments);
  the OPA backend, the platform enclave, and the repository's scripts, which call third-party
  engines or the platform or are not part of the program.
\<close>

end
